(* ===== verification/Prelude.thy ===== *)
theory Prelude
  imports Complex_Main "HOL-Library.Multiset"
begin

section \<open>Prelude: shared types, JavaScript helpers, tables, automation\<close>

text \<open>
  What every component shares: the error values of the HTTP layer, the few JavaScript string and
  number operations the sources use, JSON values, SQL statements read on lists of rows, and the
  generic lemmas and fact collections the component proofs use.

  Strings are \<open>char\<close> lists (the sources use ASCII text), instants are integers (epoch
  milliseconds), and JavaScript numbers are exact: \<open>int\<close> where the source keeps integers,
  \<open>rat\<close> where it keeps fractions, \<open>jsnum\<close> where \<open>NaN\<close> and the infinities matter.
\<close>

named_theorems frame_simps "which parts of a state an operation leaves alone"
named_theorems inv_intros "preservation of a component's invariant, one lemma per operation"

type_synonym uuid = string
type_synonym ms = int

text \<open>The exceptions of the sources, with the message or payload they carry.\<close>

datatype err =
    NotFoundException string
  | ConflictException string
  | UnprocessableEntityException string
  | TooManyRequests int
  | ServiceUnavailableException string
  | JsError string

text \<open>\<open>error.message\<close>.\<close>

fun message_of :: "err \<Rightarrow> string" where
  "message_of (NotFoundException m) = m"
| "message_of (ConflictException m) = m"
| "message_of (UnprocessableEntityException m) = m"
| "message_of (TooManyRequests _) = ''Rate limit exceeded''"
| "message_of (ServiceUnavailableException m) = m"
| "message_of (JsError m) = m"

subsection \<open>Results\<close>

text \<open>A call that may throw is a value of \<open>err + 'a\<close>: \<open>Inl\<close> for the exception.\<close>

definition thrown :: "err + 'a \<Rightarrow> bool" where
  "thrown r = (case r of Inl _ \<Rightarrow> True | Inr _ \<Rightarrow> False)"

lemma thrown_simps [simp]: "thrown (Inl e)" "\<not> thrown (Inr x)"
  by (simp_all add: thrown_def)

subsection \<open>Strings\<close>

definition is_ws :: "char \<Rightarrow> bool" where
  "is_ws c = (c = CHR '' '' \<or> c = CHR 0x09 \<or> c = CHR 0x0A \<or> c = CHR 0x0B \<or> c = CHR 0x0C
     \<or> c = CHR 0x0D \<or> c = CHR 0xA0)"

definition trim :: "string \<Rightarrow> string" where
  "trim s = rev (dropWhile is_ws (rev (dropWhile is_ws s)))"

definition lower_char :: "char \<Rightarrow> char" where
  "lower_char c = (let n = (of_char c :: nat) in if 65 \<le> n \<and> n \<le> 90 then char_of (n + 32) else c)"

definition upper_char :: "char \<Rightarrow> char" where
  "upper_char c = (let n = (of_char c :: nat) in if 97 \<le> n \<and> n \<le> 122 then char_of (n - 32) else c)"

definition toLowerCase :: "string \<Rightarrow> string" where
  "toLowerCase s = map lower_char s"

definition toUpperCase :: "string \<Rightarrow> string" where
  "toUpperCase s = map upper_char s"

fun split_on :: "char \<Rightarrow> string \<Rightarrow> string list" where
  "split_on d [] = [[]]"
| "split_on d (c # cs) =
     (if c = d then [] # split_on d cs
      else case split_on d cs of [] \<Rightarrow> [[c]] | w # ws \<Rightarrow> (c # w) # ws)"

lemma split_on_not_Nil [simp]: "split_on d s \<noteq> []"
  by (induction s) (auto split: list.splits)

fun join_with :: "string \<Rightarrow> string list \<Rightarrow> string" where
  "join_with sep [] = []"
| "join_with sep [w] = w"
| "join_with sep (w # ws) = w @ sep @ join_with sep ws"

lemma join_split_on: "join_with [d] (split_on d s) = s"
proof (induction s)
  case Nil
  then show ?case by simp
next
  case (Cons c cs)
  obtain w ws where "split_on d cs = w # ws" by (cases "split_on d cs") auto
  with Cons show ?case by (cases ws) auto
qed

text \<open>JavaScript's \<open>x || undefined\<close> on a string: the empty string is falsy.\<close>

definition nonempty :: "string \<Rightarrow> string option" where
  "nonempty s = (if s = [] then None else Some s)"

text \<open>JavaScript's \<open>a ?? b\<close> on an optional value.\<close>

definition orElse :: "'a option \<Rightarrow> 'a \<Rightarrow> 'a" where
  "orElse x d = (case x of None \<Rightarrow> d | Some v \<Rightarrow> v)"

lemma orElse_simps [simp]: "orElse None d = d" "orElse (Some v) d = v"
  by (simp_all add: orElse_def)

subsection \<open>Decimal notation\<close>

definition is_digit :: "char \<Rightarrow> bool" where
  "is_digit c = (let n = (of_char c :: nat) in 48 \<le> n \<and> n \<le> 57)"

definition digit_val :: "char \<Rightarrow> nat" where
  "digit_val c = of_char c - 48"

definition digit_char :: "nat \<Rightarrow> char" where
  "digit_char n = char_of (48 + n)"

lemma digit_char_props:
  assumes "n < 10"
  shows is_digit_digit_char: "is_digit (digit_char n)"
    and digit_val_digit_char: "digit_val (digit_char n) = n"
  using assms by (simp_all add: is_digit_def digit_val_def digit_char_def)

definition digits_val :: "string \<Rightarrow> nat" where
  "digits_val s = foldl (\<lambda>a c. 10 * a + digit_val c) 0 s"

lemma digits_val_Nil [simp]: "digits_val [] = 0"
  by (simp add: digits_val_def)

lemma digits_val_snoc [simp]: "digits_val (s @ [c]) = 10 * digits_val s + digit_val c"
  by (simp add: digits_val_def)

fun nat_str :: "nat \<Rightarrow> string" where
  "nat_str n = (if n < 10 then [digit_char n] else nat_str (n div 10) @ [digit_char (n mod 10)])"

declare nat_str.simps [simp del]

lemma nat_str_digits: "list_all is_digit (nat_str n)"
proof (induction n rule: nat_str.induct)
  case (1 n)
  then show ?case
    by (cases "n < 10") (simp_all add: nat_str.simps [of n] digit_char_props)
qed

lemma nat_str_not_Nil [simp]: "nat_str n \<noteq> []"
  by (simp add: nat_str.simps)

lemma digits_val_nat_str [simp]: "digits_val (nat_str n) = n"
proof (induction n rule: nat_str.induct)
  case (1 n)
  show ?case
  proof (cases "n < 10")
    case True
    then show ?thesis by (simp add: nat_str.simps [of n] digits_val_def digit_char_props)
  next
    case False
    with 1 show ?thesis by (simp add: nat_str.simps [of n] digit_char_props)
  qed
qed

lemma nat_str_inj: "nat_str m = nat_str n \<Longrightarrow> m = n"
  by (metis digits_val_nat_str)

definition int_str :: "int \<Rightarrow> string" where
  "int_str i = (if i < 0 then CHR ''-'' # nat_str (nat (- i)) else nat_str (nat i))"


lemma is_digit_minus: "is_digit c \<Longrightarrow> c \<noteq> CHR ''-''"
  by (auto simp: is_digit_def)

text \<open>The integer literals, as \<open>Number\<close> and \<open>parseInt\<close> read what \<open>String\<close> printed.\<close>

definition read_int :: "string \<Rightarrow> int option" where
  "read_int s =
     (case s of
        [] \<Rightarrow> None
      | c # cs \<Rightarrow>
          if c = CHR ''-'' then
            (if cs \<noteq> [] \<and> list_all is_digit cs then Some (- int (digits_val cs)) else None)
          else if list_all is_digit s then Some (int (digits_val s)) else None)"

lemma read_int_int_str [simp]: "read_int (int_str i) = Some i"
proof (cases "i < 0")
  case True
  then show ?thesis by (simp add: int_str_def read_int_def nat_str_digits)
next
  case False
  obtain c cs where str: "nat_str (nat i) = c # cs" by (cases "nat_str (nat i)") auto
  then have "list_all is_digit (c # cs)" and "digits_val (c # cs) = nat i"
    using nat_str_digits [of "nat i"] digits_val_nat_str [of "nat i"] by simp_all
  with str False show ?thesis by (auto simp: int_str_def read_int_def is_digit_minus)
qed

lemma int_str_inj: "int_str i = int_str j \<Longrightarrow> i = j"
  by (metis option.inject read_int_int_str)

subsection \<open>Numbers that may not be numbers\<close>

text \<open>
  Values of JavaScript's \<open>Number(header)\<close>: an integer, an infinity, or \<open>NaN\<close>, for which
  every comparison is false and every sum is \<open>NaN\<close>.
\<close>

datatype jsnum = NaN | PosInf | NegInf | Fin int

fun js_add :: "jsnum \<Rightarrow> int \<Rightarrow> jsnum" where
  "js_add (Fin a) b = Fin (a + b)"
| "js_add x b = x"

fun js_ge :: "jsnum \<Rightarrow> int \<Rightarrow> bool" where
  "js_ge (Fin a) b = (b \<le> a)"
| "js_ge PosInf b = True"
| "js_ge NegInf b = False"
| "js_ge NaN b = False"

fun js_le :: "jsnum \<Rightarrow> int \<Rightarrow> bool" where
  "js_le (Fin a) b = (a \<le> b)"
| "js_le PosInf b = False"
| "js_le NegInf b = True"
| "js_le NaN b = False"

fun js_String :: "jsnum \<Rightarrow> string" where
  "js_String (Fin a) = int_str a"
| "js_String PosInf = ''Infinity''"
| "js_String NegInf = ''-Infinity''"
| "js_String NaN = ''NaN''"

subsection \<open>JSON values\<close>

datatype jsval =
    JUndef
  | JNull
  | JBool bool
  | JNum rat
  | JStr string
  | JArr "jsval list"
  | JObj "(string \<times> jsval) list"

text \<open>Property access on an object; anything else has no own property.\<close>

definition js_get :: "string \<Rightarrow> jsval \<Rightarrow> jsval" where
  "js_get k v = (case v of JObj fs \<Rightarrow> orElse (map_of fs k) JUndef | _ \<Rightarrow> JUndef)"

definition opt_str :: "string option \<Rightarrow> jsval" where
  "opt_str x = (case x of None \<Rightarrow> JNull | Some s \<Rightarrow> JStr s)"

subsection \<open>Instants as ISO-8601 text\<close>

text \<open>\<open>Date.prototype.toISOString\<close> on the proleptic Gregorian calendar, years 0 to 9999.\<close>

definition civil_of_days :: "int \<Rightarrow> int \<times> int \<times> int" where
  "civil_of_days days =
     (let z = days + 719468; era = z div 146097; doe = z mod 146097;
          yoe = (doe - doe div 1460 + doe div 36524 - doe div 146096) div 365;
          doy = doe - (365 * yoe + yoe div 4 - yoe div 100);
          mp = (5 * doy + 2) div 153;
          d = doy - (153 * mp + 2) div 5 + 1;
          m = (if mp < 10 then mp + 3 else mp - 9)
      in (yoe + era * 400 + (if m \<le> 2 then 1 else 0), m, d))"

definition pad :: "nat \<Rightarrow> int \<Rightarrow> string" where
  "pad w i = (let s = int_str i in replicate (w - length s) (CHR ''0'') @ s)"

definition toISOString :: "ms \<Rightarrow> string" where
  "toISOString t =
     (let days = t div 86400000; r = t mod 86400000; (y, m, d) = civil_of_days days
      in pad 4 y @ ''-'' @ pad 2 m @ ''-'' @ pad 2 d @ ''T''
         @ pad 2 (r div 3600000) @ '':'' @ pad 2 (r div 60000 mod 60) @ '':''
         @ pad 2 (r div 1000 mod 60) @ ''.'' @ pad 3 (r mod 1000) @ ''Z'')"

subsection \<open>SQL statements on lists of rows\<close>

text \<open>
  A table is the list of its rows in insertion order. The statements the sources issue are read
  with the standard meaning of SQL: \<open>UPDATE ... SET f WHERE P\<close>, \<open>DELETE ... WHERE P\<close> (both
  report the rows affected) and \<open>INSERT ... ON CONFLICT DO NOTHING RETURNING\<close>, which
  returns the row only when it was inserted.
\<close>

definition upd_where :: "('r \<Rightarrow> bool) \<Rightarrow> ('r \<Rightarrow> 'r) \<Rightarrow> 'r list \<Rightarrow> 'r list" where
  "upd_where P f t = map (\<lambda>r. if P r then f r else r) t"

definition affected :: "('r \<Rightarrow> bool) \<Rightarrow> 'r list \<Rightarrow> nat" where
  "affected P t = length (filter P t)"

definition del_where :: "('r \<Rightarrow> bool) \<Rightarrow> 'r list \<Rightarrow> 'r list" where
  "del_where P t = filter (\<lambda>r. \<not> P r) t"

definition insert_ignore :: "('r \<Rightarrow> 'k) \<Rightarrow> 'r \<Rightarrow> 'r list \<Rightarrow> bool \<times> 'r list" where
  "insert_ignore key r t =
     (if List.list_ex (\<lambda>x. key x = key r) t then (False, t) else (True, t @ [r]))"

lemma insert_ignore_wins [simp]:
  "fst (insert_ignore key r t) \<longleftrightarrow> key r \<notin> key ` set t"
  by (simp add: insert_ignore_def list_ex_iff image_iff) metis

lemma keys_insert_ignore [simp]:
  "key ` set (snd (insert_ignore key r t)) = insert (key r) (key ` set t)"
  by (auto simp: insert_ignore_def list_ex_iff) (metis image_eqI)

lemma distinct_insert_ignore:
  "distinct (map key t) \<Longrightarrow> distinct (map key (snd (insert_ignore key r t)))"
  by (auto simp: insert_ignore_def list_ex_iff)

lemma length_upd_where [simp]: "length (upd_where P f t) = length t"
  by (simp add: upd_where_def)

lemma map_upd_where:
  "(\<And>r. P r \<Longrightarrow> g (f r) = g r) \<Longrightarrow> map g (upd_where P f t) = map g t"
  by (simp add: upd_where_def)

lemma set_del_where [simp]: "set (del_where P t) = {r \<in> set t. \<not> P r}"
  by (simp add: del_where_def)

lemma distinct_map_filter:
  "distinct (map g t) \<Longrightarrow> distinct (map g (filter P t))"
  by (simp add: distinct_map inj_on_def)

lemma distinct_sort_map: "distinct (map f xs) \<Longrightarrow> distinct (map f (sort_key g xs))"
  by (simp add: distinct_map)

lemma find_upd_where:
  assumes "\<And>r. P r \<Longrightarrow> Q (f r) = Q r"
  shows "find Q (upd_where P f t) = map_option (\<lambda>r. if P r then f r else r) (find Q t)"
  using assms by (induction t) (auto simp: upd_where_def)

lemma find_unique:
  "distinct (map g t) \<Longrightarrow> r \<in> set t \<Longrightarrow> find (\<lambda>x. g x = g r) t = Some r"
  by (induction t) (auto simp: image_iff)

lemma find_SomeD: "find P t = Some r \<Longrightarrow> r \<in> set t \<and> P r"
  by (auto simp: find_Some_iff)

lemma find_NoneD: "find P t = None \<Longrightarrow> r \<in> set t \<Longrightarrow> \<not> P r"
  by (auto simp: find_None_iff)

subsection \<open>Sums of a column\<close>

lemma sum_list_filter_append [simp]:
  "sum_list (map f (filter P (xs @ ys))) =
     (sum_list (map f (filter P xs)) + sum_list (map f (filter P ys)) :: int)"
  by simp

lemma sum_list_nonneg_filter:
  "(\<And>x. x \<in> set xs \<Longrightarrow> 0 \<le> f x) \<Longrightarrow> 0 \<le> sum_list (map f (filter P xs))" for f :: "'a \<Rightarrow> int"
  by (rule sum_list_nonneg) auto

end
