(* ===== verification/Config.thy ===== *)
theory Config
  imports Prelude
begin

section \<open>Configuration from the environment\<close>

text \<open>
  \<open>config/configuration.ts\<close>. The environment is a map from variable names to values, \<open>hostname()\<close>
  an argument. \<open>Number.parseInt\<close> and \<open>Number.parseFloat\<close> read the longest prefix that is a number
  and are \<open>None\<close> where JavaScript returns \<open>NaN\<close> or an infinity, that is where
  \<open>Number.isFinite\<close> fails.
\<close>

type_synonym environment = "string \<Rightarrow> string option"

definition finite_limit :: int where
  "finite_limit = 2 ^ 1024 - 2 ^ 970"

definition sign_split :: "string \<Rightarrow> bool \<times> string" where
  "sign_split s =
     (case s of
        [] \<Rightarrow> (False, [])
      | c # cs \<Rightarrow> if c = CHR ''-'' then (True, cs) else if c = CHR ''+'' then (False, cs) else (False, s))"

definition parseInt10 :: "string \<Rightarrow> int option" where
  "parseInt10 s =
     (let (neg, u) = sign_split (dropWhile is_ws s); ds = takeWhile is_digit u;
          v = int (digits_val ds)
      in if ds = [] \<or> v \<ge> finite_limit then None else Some (if neg then - v else v))"

definition exponent_part :: "string \<Rightarrow> int" where
  "exponent_part s =
     (case s of
        [] \<Rightarrow> 0
      | c # cs \<Rightarrow>
          if c = CHR ''e'' \<or> c = CHR ''E'' then
            (let (neg, u) = sign_split cs; ds = takeWhile is_digit u; v = int (digits_val ds)
             in if neg then - v else v)
          else 0)"

definition fraction_part :: "string \<Rightarrow> string \<times> string" where
  "fraction_part s =
     (case s of
        c # cs \<Rightarrow> if c = CHR ''.'' then (takeWhile is_digit cs, dropWhile is_digit cs) else ([], s)
      | [] \<Rightarrow> ([], []))"

definition parseFloat :: "string \<Rightarrow> rat option" where
  "parseFloat s =
     (let (neg, u) = sign_split (dropWhile is_ws s);
          ip = takeWhile is_digit u; (fp, rest) = fraction_part (dropWhile is_digit u);
          e = exponent_part rest - int (length fp);
          m = rat_of_nat (digits_val (ip @ fp));
          v = (if 0 \<le> e then m * 10 ^ nat e else m / 10 ^ nat (- e))
      in if (ip = [] \<and> fp = []) \<or> v \<ge> of_int finite_limit then None
         else Some (if neg then - v else v))"

definition bool_of :: "string option \<Rightarrow> bool \<Rightarrow> bool" where
  "bool_of value fallback =
     (case value of
        None \<Rightarrow> fallback
      | Some v \<Rightarrow> if v = [] then fallback
                 else toLowerCase v \<in> set [''1'', ''true'', ''yes'', ''on''])"

definition int_of :: "string option \<Rightarrow> int \<Rightarrow> int" where
  "int_of value fallback = orElse (parseInt10 (orElse value [])) fallback"

definition float_of :: "string option \<Rightarrow> rat \<Rightarrow> rat" where
  "float_of value fallback = orElse (parseFloat (orElse value [])) fallback"

datatype strategy = NoLock | Pessimistic | Optimistic

definition strategy_name :: "strategy \<Rightarrow> string" where
  "strategy_name s = (case s of NoLock \<Rightarrow> ''none'' | Pessimistic \<Rightarrow> ''pessimistic'' | Optimistic \<Rightarrow> ''optimistic'')"

definition lock_strategy_of :: "string option \<Rightarrow> err + strategy" where
  "lock_strategy_of value =
     (let normalized = toLowerCase (orElse value ''pessimistic'') in
      if normalized = ''none'' then Inr NoLock
      else if normalized = ''pessimistic'' then Inr Pessimistic
      else if normalized = ''optimistic'' then Inr Optimistic
      else Inl (JsError (''BOOKING_LOCK_STRATEGY must be one of none|pessimistic|optimistic, got '' @ [CHR 0x22] @ orElse value [] @ [CHR 0x22])))"

record config =
  app_env :: string
  app_port :: int
  app_logLevel :: string
  app_instanceId :: string
  app_shutdownDrainMs :: int
  db_host :: string
  db_port :: int
  db_username :: string
  db_password :: string
  db_name :: string
  db_poolMax :: int
  redis_host :: string
  redis_port :: int
  kafka_brokers :: "string list"
  kafka_clientId :: string
  kafka_consumerGroup :: string
  topics_booking :: string
  topics_retry :: string
  topics_dlq :: string
  kafka_consumerEnabled :: bool
  booking_lockStrategy :: strategy
  booking_optimisticMaxRetries :: int
  cache_enabled :: bool
  cache_ttlSeconds :: int
  cache_ttlJitterSeconds :: int
  cache_stampedeProtection :: bool
  cache_lockTtlMs :: int
  cache_staleSeconds :: int
  outbox_enabled :: bool
  outbox_relayEnabled :: bool
  outbox_pollIntervalMs :: int
  outbox_batchSize :: int
  outbox_maxAttempts :: int
  outbox_directPublishMode :: bool
  outbox_crashAfterCommit :: bool
  notifications_failureRate :: rat
  notifications_maxAttempts :: int
  notifications_retryBaseMs :: int
  notifications_retryMaxMs :: int
  notifications_concurrency :: int
  rateLimit_enabled :: bool
  rateLimit_capacity :: int
  rateLimit_refillPerSecond :: rat

definition configuration :: "environment \<Rightarrow> string \<Rightarrow> err + config" where
  "configuration env hostname =
     (case lock_strategy_of (env ''BOOKING_LOCK_STRATEGY'') of
        Inl e \<Rightarrow> Inl e
      | Inr strategy \<Rightarrow> Inr \<lparr>
          app_env = orElse (env ''NODE_ENV'') ''development'',
          app_port = int_of (env ''PORT'') 3000,
          app_logLevel = orElse (env ''LOG_LEVEL'') ''info'',
          app_instanceId = orElse (nonempty (orElse (env ''INSTANCE_ID'') [])) hostname,
          app_shutdownDrainMs = int_of (env ''SHUTDOWN_DRAIN_MS'') 5000,
          db_host = orElse (env ''DB_HOST'') ''localhost'',
          db_port = int_of (env ''DB_PORT'') 5432,
          db_username = orElse (env ''DB_USERNAME'') ''overbook'',
          db_password = orElse (env ''DB_PASSWORD'') ''overbook'',
          db_name = orElse (env ''DB_NAME'') ''overbook'',
          db_poolMax = int_of (env ''DB_POOL_MAX'') 10,
          redis_host = orElse (env ''REDIS_HOST'') ''localhost'',
          redis_port = int_of (env ''REDIS_PORT'') 6379,
          kafka_brokers = map trim (split_on (CHR '','') (orElse (env ''KAFKA_BROKERS'') ''localhost:9092'')),
          kafka_clientId = orElse (env ''KAFKA_CLIENT_ID'') ''overbook'',
          kafka_consumerGroup = orElse (env ''KAFKA_CONSUMER_GROUP'') ''overbook-notifications'',
          topics_booking = orElse (env ''KAFKA_TOPIC_BOOKING'') ''booking.events'',
          topics_retry = orElse (env ''KAFKA_TOPIC_RETRY'') ''booking.events.retry'',
          topics_dlq = orElse (env ''KAFKA_TOPIC_DLQ'') ''booking.events.dlq'',
          kafka_consumerEnabled = bool_of (env ''CONSUMER_ENABLED'') True,
          booking_lockStrategy = strategy,
          booking_optimisticMaxRetries = int_of (env ''BOOKING_OPTIMISTIC_MAX_RETRIES'') 5,
          cache_enabled = bool_of (env ''CACHE_ENABLED'') True,
          cache_ttlSeconds = int_of (env ''CACHE_TTL_SECONDS'') 30,
          cache_ttlJitterSeconds = int_of (env ''CACHE_TTL_JITTER_SECONDS'') 10,
          cache_stampedeProtection = bool_of (env ''CACHE_STAMPEDE_PROTECTION'') True,
          cache_lockTtlMs = int_of (env ''CACHE_LOCK_TTL_MS'') 5000,
          cache_staleSeconds = int_of (env ''CACHE_STALE_SECONDS'') 60,
          outbox_enabled = bool_of (env ''OUTBOX_ENABLED'') True,
          outbox_relayEnabled = bool_of (env ''OUTBOX_RELAY_ENABLED'') True,
          outbox_pollIntervalMs = int_of (env ''OUTBOX_POLL_INTERVAL_MS'') 1000,
          outbox_batchSize = int_of (env ''OUTBOX_BATCH_SIZE'') 100,
          outbox_maxAttempts = int_of (env ''OUTBOX_MAX_ATTEMPTS'') 10,
          outbox_directPublishMode = bool_of (env ''DIRECT_PUBLISH_MODE'') False,
          outbox_crashAfterCommit = bool_of (env ''FAULT_CRASH_AFTER_BOOKING_COMMIT'') False,
          notifications_failureRate = float_of (env ''NOTIFICATION_FAILURE_RATE'') 0,
          notifications_maxAttempts = int_of (env ''NOTIFICATION_MAX_ATTEMPTS'') 3,
          notifications_retryBaseMs = int_of (env ''NOTIFICATION_RETRY_BASE_MS'') 500,
          notifications_retryMaxMs = int_of (env ''NOTIFICATION_RETRY_MAX_MS'') 30000,
          notifications_concurrency = int_of (env ''NOTIFICATION_CONCURRENCY'') 10,
          rateLimit_enabled = bool_of (env ''RATE_LIMIT_ENABLED'') True,
          rateLimit_capacity = int_of (env ''RATE_LIMIT_CAPACITY'') 20,
          rateLimit_refillPerSecond = float_of (env ''RATE_LIMIT_REFILL_PER_SECOND'') 10\<rparr>)"

subsection \<open>Reading back what was printed\<close>

lemma takeWhile_all: "list_all P xs \<Longrightarrow> takeWhile P xs = xs"
  by (simp add: list_all_iff takeWhile_eq_all_conv)

lemma dropWhile_all: "list_all P xs \<Longrightarrow> dropWhile P xs = []"
  by (simp add: list_all_iff)

lemma is_ws_not_digit: "is_ws c \<Longrightarrow> \<not> is_digit c"
  by (auto simp: is_ws_def is_digit_def)

lemma nat_str_Cons:
  obtains c cs where "nat_str n = c # cs" "is_digit c" "list_all is_digit (c # cs)"
  using nat_str_digits [of n] by (cases "nat_str n") auto

lemma is_digit_plus: "is_digit c \<Longrightarrow> c \<noteq> CHR ''+''"
  by (auto simp: is_digit_def)

lemma sign_split_int_str:
  "sign_split (dropWhile is_ws (int_str i)) = (i < 0, nat_str (nat \<bar>i\<bar>))"
proof -
  obtain c cs where n: "nat_str (nat \<bar>i\<bar>) = c # cs" "is_digit c" by (rule nat_str_Cons)
  then have "\<not> is_ws c" using is_ws_not_digit by blast
  with n show ?thesis
    by (auto simp: int_str_def sign_split_def is_ws_def is_digit_minus is_digit_plus abs_if)
qed

lemma parseInt10_int_str:
  "\<bar>i\<bar> < finite_limit \<Longrightarrow> parseInt10 (int_str i) = Some i"
  by (simp add: parseInt10_def sign_split_int_str takeWhile_all nat_str_digits Let_def)

lemma parseFloat_int_str:
  assumes "\<bar>i\<bar> < finite_limit"
  shows "parseFloat (int_str i) = Some (of_int i)"
proof -
  have v: "rat_of_nat (nat \<bar>i\<bar>) = of_int \<bar>i\<bar>" by simp
  have "\<not> of_int finite_limit \<le> (of_int \<bar>i\<bar> :: rat)" using assms by (simp del: of_int_abs)
  then show ?thesis
    by (simp add: parseFloat_def sign_split_int_str takeWhile_all dropWhile_all nat_str_digits
        fraction_part_def exponent_part_def v Let_def del: of_int_abs of_nat_nat)
       (simp add: abs_if)
qed

text \<open>
  The number readers are exact on what a process would print: every integer up to the largest
  finite double reads back as itself, by \<open>int\<close> and by \<open>float\<close>, whatever the fallback; an absent
  variable and one without a leading number give the fallback.
\<close>

theorem config_numbers_read_back:
  assumes "\<bar>i\<bar> < finite_limit"
  shows "int_of (Some (int_str i)) d = i \<and> float_of (Some (int_str i)) r = of_int i
    \<and> int_of None d = d \<and> float_of None r = r \<and> int_of (Some ''abc'') d = d"
  using assms
  by (simp add: int_of_def float_of_def parseInt10_int_str parseFloat_int_str)
     (simp add: parseInt10_def parseFloat_def sign_split_def fraction_part_def is_ws_def is_digit_def Let_def)

theorem config_numbers_read_back_witness: "int_of (Some (int_str (- 42))) 5 = - 42"
proof -
  have "\<bar>- 42\<bar> < finite_limit" by (simp add: finite_limit_def)
  from config_numbers_read_back [OF this] show ?thesis by simp
qed

text \<open>
  The configuration is total but for one variable: it throws exactly when
  \<open>BOOKING_LOCK_STRATEGY\<close> is set to something other than the three strategies (in any case), and
  the message names the variable; no other variable, however malformed, can stop the process, and
  the strategy it returns is the one whose name was given.
\<close>

theorem configuration_throws_only_on_strategy:
  "(\<exists>c. configuration env h = Inr c
        \<and> toLowerCase (orElse (env ''BOOKING_LOCK_STRATEGY'') ''pessimistic'')
            = strategy_name (booking_lockStrategy c))
   \<or> ((\<exists>m. configuration env h = Inl (JsError m) \<and> take 21 m = ''BOOKING_LOCK_STRATEGY'')
        \<and> toLowerCase (orElse (env ''BOOKING_LOCK_STRATEGY'') ''pessimistic'')
            \<notin> range strategy_name)"
proof -
  have names: "range strategy_name = {''none'', ''pessimistic'', ''optimistic''}"
    by (auto simp: strategy_name_def image_iff split: strategy.splits intro: exI [of _ NoLock]
        exI [of _ Pessimistic] exI [of _ Optimistic])
  show ?thesis
    by (auto simp: configuration_def lock_strategy_of_def Let_def names)
       (auto simp: strategy_name_def)
qed

subsection \<open>The configuration of an empty environment\<close>

definition default_config :: "strategy \<Rightarrow> config" where
  "default_config strategy = \<lparr>
     app_env = ''development'', app_port = 3000, app_logLevel = ''info'', app_instanceId = ''api-1'',
     app_shutdownDrainMs = 5000, db_host = ''localhost'', db_port = 5432, db_username = ''overbook'',
     db_password = ''overbook'', db_name = ''overbook'', db_poolMax = 10, redis_host = ''localhost'',
     redis_port = 6379, kafka_brokers = [''localhost:9092''], kafka_clientId = ''overbook'',
     kafka_consumerGroup = ''overbook-notifications'', topics_booking = ''booking.events'',
     topics_retry = ''booking.events.retry'', topics_dlq = ''booking.events.dlq'',
     kafka_consumerEnabled = True, booking_lockStrategy = strategy, booking_optimisticMaxRetries = 5,
     cache_enabled = True, cache_ttlSeconds = 30, cache_ttlJitterSeconds = 10,
     cache_stampedeProtection = True, cache_lockTtlMs = 5000, cache_staleSeconds = 60,
     outbox_enabled = True, outbox_relayEnabled = True, outbox_pollIntervalMs = 1000,
     outbox_batchSize = 100, outbox_maxAttempts = 10, outbox_directPublishMode = False,
     outbox_crashAfterCommit = False, notifications_failureRate = 0, notifications_maxAttempts = 3,
     notifications_retryBaseMs = 500, notifications_retryMaxMs = 30000, notifications_concurrency = 10,
     rateLimit_enabled = True, rateLimit_capacity = 20, rateLimit_refillPerSecond = 10\<rparr>"

lemma configuration_empty_environment:
  "configuration (\<lambda>_. None) ''api-1'' = Inr (default_config Pessimistic)"
  by code_simp

end
