(* ===== verification/Trace.thy ===== *)
theory Trace
  imports Prelude
begin

section \<open>Trace ids\<close>

text \<open>
  \<open>common/trace/resolve-trace-id.ts\<close> and \<open>common/trace/trace-id.middleware.ts\<close>. A header is a
  string, a list of strings when it was sent twice, or undefined. The id that \<open>randomUUID()\<close>
  would return is an argument.
\<close>

datatype hval = HStr string | HArr "string list"

type_synonym headers = "string \<Rightarrow> hval option"

definition TRACE_HEADER :: string where
  "TRACE_HEADER = ''x-request-id''"

definition TRACE_HEADER_ALT :: string where
  "TRACE_HEADER_ALT = ''x-trace-id''"

definition MAX_LENGTH :: nat where
  "MAX_LENGTH = 128"

definition safe_char :: "char \<Rightarrow> bool" where
  "safe_char c = (let n = (of_char c :: nat) in
     (65 \<le> n \<and> n \<le> 90) \<or> (97 \<le> n \<and> n \<le> 122) \<or> is_digit c \<or> c \<in> set ''._:-'')"

text \<open>The regular expression \<open>^[A-Za-z0-9._:-]+$\<close>.\<close>

definition SAFE :: "string \<Rightarrow> bool" where
  "SAFE s \<longleftrightarrow> s \<noteq> [] \<and> list_all safe_char s"

definition pick :: "hval option \<Rightarrow> string option" where
  "pick value =
     (case value of
        Some (HArr xs) \<Rightarrow> (case xs of [] \<Rightarrow> None | x # _ \<Rightarrow> nonempty (trim x))
      | Some (HStr s) \<Rightarrow> nonempty (trim s)
      | None \<Rightarrow> None)"

definition resolveTraceId :: "headers option \<Rightarrow> uuid \<Rightarrow> string" where
  "resolveTraceId hs randomUUID =
     (let header = (\<lambda>n. case hs of None \<Rightarrow> None | Some h \<Rightarrow> h n);
          candidate = (case pick (header TRACE_HEADER) of
                         Some c \<Rightarrow> Some c | None \<Rightarrow> pick (header TRACE_HEADER_ALT))
      in case candidate of
           Some c \<Rightarrow> if length c \<le> MAX_LENGTH \<and> SAFE c then c else randomUUID
         | None \<Rightarrow> randomUUID)"

record request_headers =
  rq_headers :: headers
  rq_traceId :: "string option"
  rs_headers :: "string \<Rightarrow> string option"

text \<open>\<open>TraceIdMiddleware.use\<close>: the id goes to the request, its headers and the response.\<close>

definition use_trace :: "request_headers \<Rightarrow> uuid \<Rightarrow> request_headers" where
  "use_trace r randomUUID =
     (let traceId = resolveTraceId (Some (rq_headers r)) randomUUID
      in r\<lparr>rq_traceId := Some traceId,
           rq_headers := (rq_headers r)(TRACE_HEADER := Some (HStr traceId)),
           rs_headers := (rs_headers r)(TRACE_HEADER := Some traceId)\<rparr>)"

subsection \<open>Safe ids\<close>

lemma safe_char_not_ws: "safe_char c \<Longrightarrow> \<not> is_ws c"
  by (auto simp: safe_char_def is_ws_def is_digit_def Let_def)

lemma dropWhile_id: "(\<And>x. x \<in> set xs \<Longrightarrow> \<not> P x) \<Longrightarrow> dropWhile P xs = xs"
  by (cases xs) auto

lemma trim_SAFE: "SAFE s \<Longrightarrow> trim s = s"
proof -
  assume "SAFE s"
  then have "\<And>c. c \<in> set s \<Longrightarrow> \<not> is_ws c"
    by (auto simp: SAFE_def list_all_iff safe_char_not_ws)
  then have "dropWhile is_ws s = s" and "dropWhile is_ws (rev s) = rev s"
    by (auto intro: dropWhile_id)
  then show ?thesis by (simp add: trim_def)
qed

lemma pick_SAFE: "SAFE s \<Longrightarrow> pick (Some (HStr s)) = Some s"
  by (simp add: pick_def trim_SAFE nonempty_def SAFE_def)

definition accepted :: "string \<Rightarrow> bool" where
  "accepted s \<longleftrightarrow> SAFE s \<and> length s \<le> MAX_LENGTH"

lemma resolve_accepted: "accepted u \<Longrightarrow> accepted (resolveTraceId hs u)"
  by (auto simp: resolveTraceId_def accepted_def Let_def split: option.splits)

lemma resolve_keeps:
  "h TRACE_HEADER = Some (HStr s) \<Longrightarrow> accepted s \<Longrightarrow> resolveTraceId (Some h) u = s"
  by (simp add: resolveTraceId_def accepted_def pick_SAFE)

text \<open>
  C39. No inbound header, however it is shaped, reaches logs or downstream messages unchecked: given
  that \<open>randomUUID\<close> is well formed, the trace id consists of letters, digits and \<open>. _ : -\<close>
  (in particular no line break), is not empty and at most 128 characters long; it is the same on the
  request, on its headers and on the response; and resolving the request again, whatever is
  drawn then, yields the same id.
\<close>

theorem trace_id_safe_and_stable:
  assumes "accepted u"
  shows "\<exists>i. rq_traceId (use_trace r u) = Some i \<and> accepted i \<and> CHR 0x0A \<notin> set i
    \<and> rs_headers (use_trace r u) TRACE_HEADER = Some i
    \<and> resolveTraceId (Some (rq_headers (use_trace r u))) v = i"
proof -
  let ?i = "resolveTraceId (Some (rq_headers r)) u"
  have acc: "accepted ?i" by (rule resolve_accepted [OF assms])
  then have "CHR 0x0A \<notin> set ?i"
    using safe_char_not_ws [of "CHR 0x0A"]
    by (auto simp: accepted_def SAFE_def list_all_iff is_ws_def)
  with acc show ?thesis by (auto simp: use_trace_def Let_def resolve_keeps)
qed

definition injected :: request_headers where
  "injected = \<lparr>rq_headers = (\<lambda>n. if n = TRACE_HEADER then Some (HStr (''bad'' @ [CHR 0x0A] @ ''id'')) else None),
     rq_traceId = None, rs_headers = (\<lambda>_. None)\<rparr>"

theorem trace_id_safe_and_stable_witness:
  "rq_traceId (use_trace injected ''0-1'') = Some ''0-1''
   \<and> resolveTraceId (Some (rq_headers (use_trace injected ''0-1''))) ''other'' = ''0-1''"
proof -
  have acc: "accepted ''0-1''"
    by (simp add: accepted_def SAFE_def safe_char_def is_digit_def MAX_LENGTH_def)
  have "rq_traceId (use_trace injected ''0-1'') = Some ''0-1''"
    by (simp add: injected_def use_trace_def resolveTraceId_def pick_def trim_def is_ws_def
        nonempty_def SAFE_def safe_char_def is_digit_def Let_def)
  with trace_id_safe_and_stable [OF acc, of injected "''other''"] show ?thesis by simp
qed

text \<open>
  A well-formed inbound id is honoured, so a trace spans hops: \<open>x-request-id\<close> wins whenever it is
  sent and not blank, and \<open>x-trace-id\<close> is read only when it is absent or blank.
\<close>

theorem trace_id_honours_inbound:
  assumes "accepted s"
  shows "(h TRACE_HEADER = Some (HStr s) \<longrightarrow> resolveTraceId (Some h) u = s)
    \<and> (h TRACE_HEADER = Some (HArr (s # others)) \<longrightarrow> resolveTraceId (Some h) u = s)
    \<and> (pick (h TRACE_HEADER) = None \<and> h TRACE_HEADER_ALT = Some (HStr s)
        \<longrightarrow> resolveTraceId (Some h) u = s)
    \<and> (pick (h TRACE_HEADER) = Some c \<and> \<not> accepted c \<longrightarrow> resolveTraceId (Some h) u = u)"
  using assms pick_SAFE [of s]
  by (auto simp: resolveTraceId_def accepted_def pick_def)

theorem trace_id_honours_inbound_witness:
  "resolveTraceId (Some (\<lambda>n. if n = TRACE_HEADER then Some (HStr ''abc-123'') else None)) ''u'' = ''abc-123''"
proof -
  have "accepted ''abc-123''"
    by (simp add: accepted_def SAFE_def safe_char_def is_digit_def MAX_LENGTH_def)
  from trace_id_honours_inbound [OF this] show ?thesis by simp
qed

end
