(* ===== verification/Semaphore.thy ===== *)
theory Semaphore
  imports Prelude
begin

section \<open>The semaphore behind the consumer's backpressure\<close>

text \<open>
  \<open>common/concurrency/semaphore.ts\<close>. A semaphore is its permit count, the permits not handed
  out, and the queue of waiting \<open>acquire\<close> calls; a waiter (the \<open>resolve\<close> callback of its
  promise) is identified by the task that waits. The second half runs tasks through
  \<open>run\<close>: a task starts by acquiring and, whether its body returns or throws, ends by releasing.
\<close>

record 'w semaphore =
  permits :: int
  available :: int
  waiters :: "'w list"

definition mkSemaphore :: "int \<Rightarrow> err + 'w semaphore" where
  "mkSemaphore n =
     (if n < 1 then Inl (JsError ''Semaphore needs at least one permit'')
      else Inr \<lparr>permits = n, available = n, waiters = []\<rparr>)"

definition inFlight :: "'w semaphore \<Rightarrow> int" where
  "inFlight s = permits s - available s"

definition queued :: "'w semaphore \<Rightarrow> int" where
  "queued s = int (length (waiters s))"

text \<open>\<open>acquire\<close> tells whether it returned at once; otherwise the caller's promise is queued.\<close>

definition acquire :: "'w \<Rightarrow> 'w semaphore \<Rightarrow> bool \<times> 'w semaphore" where
  "acquire w s =
     (if available s > 0 then (True, s\<lparr>available := available s - 1\<rparr>)
      else (False, s\<lparr>waiters := waiters s @ [w]\<rparr>))"

text \<open>\<open>release\<close> tells which waiter, if any, was handed the permit.\<close>

definition release :: "'w semaphore \<Rightarrow> 'w option \<times> 'w semaphore" where
  "release s =
     (case waiters s of
        next # rest \<Rightarrow> (Some next, s\<lparr>waiters := rest\<rparr>)
      | [] \<Rightarrow> (None, if available s < permits s then s\<lparr>available := available s + 1\<rparr> else s))"

definition sem_ok :: "'w semaphore \<Rightarrow> bool" where
  "sem_ok s \<longleftrightarrow> 1 \<le> permits s \<and> 0 \<le> available s \<and> available s \<le> permits s
     \<and> (waiters s \<noteq> [] \<longrightarrow> available s = 0)"

lemma mkSemaphore_ok [inv_intros]: "mkSemaphore n = Inr s \<Longrightarrow> sem_ok s"
  by (auto simp: mkSemaphore_def sem_ok_def split: if_splits)

lemma acquire_ok [inv_intros]: "sem_ok s \<Longrightarrow> sem_ok (snd (acquire w s))"
  by (auto simp: acquire_def sem_ok_def)

lemma release_ok [inv_intros]: "sem_ok s \<Longrightarrow> sem_ok (snd (release s))"
  by (auto simp: release_def sem_ok_def split: list.splits)

lemma permits_frame [frame_simps]:
  "permits (snd (acquire w s)) = permits s" "permits (snd (release s)) = permits s"
  by (auto simp: acquire_def release_def split: list.splits)

subsection \<open>Tasks run through the semaphore\<close>

text \<open>
  \<open>run(fn)\<close> acquires, awaits \<open>fn\<close> and releases in \<open>finally\<close>. \<open>running\<close> lists the tasks that
  hold a permit, latest first.
\<close>

record 'w pool =
  sem :: "'w semaphore"
  running :: "'w list"

definition run_begin :: "'w \<Rightarrow> 'w pool \<Rightarrow> 'w pool" where
  "run_begin w p =
     (case acquire w (sem p) of
        (True, s) \<Rightarrow> p\<lparr>sem := s, running := w # running p\<rparr>
      | (False, s) \<Rightarrow> p\<lparr>sem := s\<rparr>)"

text \<open>The \<open>finally\<close> branch, taken when the body returned and when it threw.\<close>

definition run_end :: "'w \<Rightarrow> 'w pool \<Rightarrow> 'w pool" where
  "run_end w p =
     (case release (sem p) of
        (Some next, s) \<Rightarrow> p\<lparr>sem := s, running := next # remove1 w (running p)\<rparr>
      | (None, s) \<Rightarrow> p\<lparr>sem := s, running := remove1 w (running p)\<rparr>)"

text \<open>
  Tasks begin and end in any order. A step is labelled with the number of tasks that ended in it,
  the task that had to queue and the task that was handed a permit.
\<close>

inductive pool_step :: "'w pool \<Rightarrow> nat \<Rightarrow> 'w list \<Rightarrow> 'w list \<Rightarrow> 'w pool \<Rightarrow> bool" where
  task_begin: "w \<notin> set (running p) \<union> set (waiters (sem p)) \<Longrightarrow>
     pool_step p 0 (if fst (acquire w (sem p)) then [] else [w]) [] (run_begin w p)"
| task_end: "w \<in> set (running p) \<Longrightarrow>
     pool_step p 1 [] (case fst (release (sem p)) of None \<Rightarrow> [] | Some v \<Rightarrow> [v]) (run_end w p)"

inductive pool_steps :: "'w pool \<Rightarrow> nat \<Rightarrow> 'w list \<Rightarrow> 'w list \<Rightarrow> 'w pool \<Rightarrow> bool" where
  pool_refl: "pool_steps p 0 [] [] p"
| pool_more: "pool_steps p n as hs q \<Longrightarrow> pool_step q k a h r \<Longrightarrow> pool_steps p (n + k) (as @ a) (hs @ h) r"

definition pool_init :: "'w semaphore \<Rightarrow> 'w pool" where
  "pool_init s = \<lparr>sem = s, running = []\<rparr>"

definition pool_ok :: "'w pool \<Rightarrow> bool" where
  "pool_ok p \<longleftrightarrow> sem_ok (sem p) \<and> inFlight (sem p) = int (length (running p))
     \<and> distinct (running p @ waiters (sem p))"

lemma run_begin_eq:
  "run_begin w p =
     (if available (sem p) > 0
      then p\<lparr>sem := (sem p)\<lparr>available := available (sem p) - 1\<rparr>, running := w # running p\<rparr>
      else p\<lparr>sem := (sem p)\<lparr>waiters := waiters (sem p) @ [w]\<rparr>\<rparr>)"
  by (simp add: run_begin_def acquire_def)

lemma run_end_eq:
  "run_end w p =
     (case waiters (sem p) of
        next # rest \<Rightarrow>
          p\<lparr>sem := (sem p)\<lparr>waiters := rest\<rparr>, running := next # remove1 w (running p)\<rparr>
      | [] \<Rightarrow> p\<lparr>sem := snd (release (sem p)), running := remove1 w (running p)\<rparr>)"
  by (simp add: run_end_def release_def split: list.splits)

lemma pool_init_ok [inv_intros]: "mkSemaphore n = Inr s \<Longrightarrow> pool_ok (pool_init s)"
  by (auto simp: mkSemaphore_def pool_init_def pool_ok_def sem_ok_def inFlight_def split: if_splits)

lemma run_begin_ok [inv_intros]:
  "pool_ok p \<Longrightarrow> w \<notin> set (running p) \<union> set (waiters (sem p)) \<Longrightarrow> pool_ok (run_begin w p)"
  by (auto simp: run_begin_eq pool_ok_def sem_ok_def inFlight_def)

lemma run_end_ok [inv_intros]:
  assumes "pool_ok p" and "w \<in> set (running p)"
  shows "pool_ok (run_end w p)"
proof -
  have pos: "0 < length (running p)" by (rule length_pos_if_in_set [OF assms(2)])
  then have len: "int (length (remove1 w (running p))) = int (length (running p)) - 1"
    using assms(2) by (simp add: length_remove1 of_nat_diff Suc_le_eq)
  have sub: "set (remove1 w (running p)) \<subseteq> set (running p)" by (rule set_remove1_subset)
  show ?thesis
    using assms len pos sub
    by (auto simp: run_end_eq release_def pool_ok_def sem_ok_def inFlight_def
        simp del: length_0_conv length_greater_0_conv split: list.splits)
qed

lemma pool_step_ok: "pool_step p k a h q \<Longrightarrow> pool_ok p \<Longrightarrow> pool_ok q"
  by (auto elim!: pool_step.cases intro: inv_intros)

lemma pool_steps_ok: "pool_steps p n as hs q \<Longrightarrow> pool_ok p \<Longrightarrow> pool_ok q"
  by (induction rule: pool_steps.induct) (auto dest: pool_step_ok)

lemma pool_step_permits: "pool_step p k a h q \<Longrightarrow> permits (sem q) = permits (sem p)"
  by (erule pool_step.cases) (auto simp: run_begin_eq run_end_eq release_def split: list.splits)

lemma pool_steps_permits: "pool_steps p n as hs q \<Longrightarrow> permits (sem q) = permits (sem p)"
  by (induction rule: pool_steps.induct) (auto dest: pool_step_permits)

lemma mkSemaphore_permits: "mkSemaphore n = Inr s \<Longrightarrow> permits s = n"
  by (auto simp: mkSemaphore_def split: if_splits)

lemma pool_reach:
  assumes "mkSemaphore n = Inr s" and "pool_steps (pool_init s) k as hs p"
  shows "pool_ok p" and "permits (sem p) = n"
  using pool_steps_ok [OF assms(2)] pool_steps_permits [OF assms(2)] assms(1)
  by (auto intro: inv_intros dest: mkSemaphore_permits simp: pool_init_def [symmetric])
     (simp add: pool_init_def mkSemaphore_permits)

subsection \<open>First come, first served\<close>

lemma pool_step_queue: "pool_step p k a h q \<Longrightarrow> h @ waiters (sem q) = waiters (sem p) @ a"
  by (erule pool_step.cases)
     (auto simp: run_begin_eq run_end_eq acquire_def release_def split: list.splits)

lemma pool_steps_queue: "pool_steps p n as hs q \<Longrightarrow> hs @ waiters (sem q) = waiters (sem p) @ as"
proof (induction rule: pool_steps.induct)
  case (pool_more p n as hs q k a h r)
  then show ?case using pool_step_queue [OF pool_more.hyps(2)] by (metis append.assoc)
qed simp

lemma pool_step_handed:
  "pool_step p k a h q \<Longrightarrow> waiters (sem p) \<noteq> [] \<Longrightarrow> length h = k"
  by (erule pool_step.cases) (auto simp: release_def neq_Nil_conv)

lemma pool_steps_handed:
  "pool_steps p n as hs q \<Longrightarrow> min n (length (waiters (sem p))) \<le> length hs"
proof (induction rule: pool_steps.induct)
  case (pool_more p n as hs q k a h r)
  show ?case
  proof (cases "waiters (sem q) = []")
    case True
    then have "hs = waiters (sem p) @ as" using pool_steps_queue [OF pool_more.hyps(1)] by simp
    then show ?thesis by simp
  next
    case False
    then show ?thesis
      using pool_more.IH pool_step_handed [OF pool_more.hyps(2)] by simp
  qed
qed simp

text \<open>
  Whatever tasks start and finish, and however they interleave, no more than the constructor's
  \<open>permits\<close> tasks hold a permit at once, \<open>inFlight\<close> counts exactly those tasks, tasks
  wait only while every permit is out, and once nothing runs every permit is back.
\<close>

theorem semaphore_bounds_concurrency:
  assumes "mkSemaphore n = Inr s" and "pool_steps (pool_init s) k as hs p"
  shows "int (length (running p)) \<le> n \<and> inFlight (sem p) = int (length (running p))
    \<and> (queued (sem p) > 0 \<longrightarrow> int (length (running p)) = n)
    \<and> (running p = [] \<longrightarrow> available (sem p) = n \<and> waiters (sem p) = [])"
  using pool_reach [OF assms] by (auto simp: pool_ok_def sem_ok_def inFlight_def queued_def)

text \<open>Two tasks on one permit: the second waits.\<close>

definition two_tasks :: "nat pool" where
  "two_tasks = run_begin 8 (run_begin 7 (pool_init \<lparr>permits = 1, available = 1, waiters = []\<rparr>))"

lemma begin_granted:
  "w \<notin> set (running p) \<union> set (waiters (sem p)) \<Longrightarrow> available (sem p) > 0 \<Longrightarrow>
     pool_step p 0 [] [] (run_begin w p)"
  using task_begin [of w p] by (simp add: acquire_def)

lemma begin_queued:
  "w \<notin> set (running p) \<union> set (waiters (sem p)) \<Longrightarrow> \<not> available (sem p) > 0 \<Longrightarrow>
     pool_step p 0 [w] [] (run_begin w p)"
  using task_begin [of w p] by (simp add: acquire_def)

lemma two_tasks_run:
  "pool_steps (pool_init \<lparr>permits = 1, available = 1, waiters = []\<rparr>) (0 + 0 + 0)
     (([] @ []) @ [8]) (([] @ []) @ []) two_tasks"
  unfolding two_tasks_def
  by (rule pool_more [OF pool_more [OF pool_refl begin_granted] begin_queued])
     (simp_all add: pool_init_def run_begin_eq)

theorem semaphore_bounds_concurrency_witness:
  "int (length (running two_tasks)) \<le> 1 \<and> inFlight (sem two_tasks) = 1 \<and> waiters (sem two_tasks) = [8]"
proof -
  have "mkSemaphore 1 = Inr \<lparr>permits = 1, available = 1, waiters = [] :: nat list\<rparr>"
    by (simp add: mkSemaphore_def)
  from semaphore_bounds_concurrency [OF this two_tasks_run]
  show ?thesis by (simp add: two_tasks_def pool_init_def run_begin_eq)
qed

text \<open>
  The queue is first come, first served: over any run, the tasks handed a permit followed by
  those still queued are exactly those that were queued at the start followed by those that queued
  since, in that order; and each finished task serves one of the waiting ones as long as any wait,
  so the task at position \<open>i\<close> has its permit once \<open>i + 1\<close> tasks have finished.
\<close>

theorem semaphore_fifo:
  assumes "pool_steps p n as hs q"
  shows "hs @ waiters (sem q) = waiters (sem p) @ as
    \<and> (\<forall>i < min n (length (waiters (sem p))). hs ! i = waiters (sem p) ! i)"
proof -
  have eq: "hs @ waiters (sem q) = waiters (sem p) @ as" by (rule pool_steps_queue [OF assms])
  have "hs ! i = waiters (sem p) ! i" if "i < min n (length (waiters (sem p)))" for i
    using that pool_steps_handed [OF assms] arg_cong [OF eq, of "\<lambda>xs. xs ! i"]
    by (simp add: nth_append split: if_splits)
  with eq show ?thesis by blast
qed

theorem semaphore_fifo_witness:
  "waiters (sem (run_end 7 two_tasks)) = [] \<and> running (run_end 7 two_tasks) = [8]
     \<and> [8] @ waiters (sem (run_end 7 two_tasks)) = waiters (sem two_tasks) @ []"
proof -
  have "pool_step two_tasks 1 []
      (case fst (release (sem two_tasks)) of None \<Rightarrow> [] | Some v \<Rightarrow> [v]) (run_end 7 two_tasks)"
    by (rule task_end) (simp add: two_tasks_def pool_init_def run_begin_eq)
  then have "pool_step two_tasks 1 [] [8] (run_end 7 two_tasks)"
    by (simp add: two_tasks_def pool_init_def run_begin_eq release_def)
  then have "pool_steps two_tasks (0 + 1) ([] @ []) ([] @ [8]) (run_end 7 two_tasks)"
    by (rule pool_more [OF pool_refl])
  from semaphore_fifo [OF this] show ?thesis
    by (simp add: two_tasks_def pool_init_def run_begin_eq run_end_eq release_def)
qed

end
