(* ===== verification/Backoff.thy ===== *)
theory Backoff
  imports Prelude
begin

section \<open>Jittered delays: retry backoff and cache lifetimes\<close>

text \<open>
  \<open>notifications/retry-policy.ts\<close> and \<open>redis/cache-ttl.ts\<close>. The random source is an argument:
  \<open>rnd\<close> is the number \<open>random()\<close> returned, a rational in \<open>[0, 1)\<close>. An attempt number comes
  from a message header through \<open>Number\<close>, so it is a \<open>jsnum\<close>.
\<close>

text \<open>The window \<open>Math.min(maxMs, baseMs * 2 ** Math.max(0, attempt - 1))\<close>.\<close>

definition exponential :: "int \<Rightarrow> int \<Rightarrow> int \<Rightarrow> int" where
  "exponential attempt baseMs maxMs = min maxMs (baseMs * 2 ^ nat (max 0 (attempt - 1)))"

definition js_floor_mult :: "rat \<Rightarrow> int \<Rightarrow> int" where
  "js_floor_mult rnd n = \<lfloor>rnd * of_int n\<rfloor>"

fun computeBackoffMs :: "jsnum \<Rightarrow> int \<Rightarrow> int \<Rightarrow> rat \<Rightarrow> jsnum" where
  "computeBackoffMs (Fin attempt) baseMs maxMs rnd =
     Fin (js_floor_mult rnd (exponential attempt baseMs maxMs))"
| "computeBackoffMs NegInf baseMs maxMs rnd = Fin (js_floor_mult rnd (min maxMs baseMs))"
| "computeBackoffMs PosInf baseMs maxMs rnd =
     (if baseMs = 0 then NaN
      else if baseMs > 0 then Fin (js_floor_mult rnd maxMs)
      else if rnd = 0 then NaN else NegInf)"
| "computeBackoffMs NaN baseMs maxMs rnd = NaN"

definition shouldDeadLetter :: "jsnum \<Rightarrow> int \<Rightarrow> bool" where
  "shouldDeadLetter attempts maxAttempts = js_ge attempts maxAttempts"

definition ttlWithJitter :: "int \<Rightarrow> int \<Rightarrow> rat \<Rightarrow> int" where
  "ttlWithJitter baseSeconds jitterSeconds rnd =
     (if jitterSeconds \<le> 0 then max 1 baseSeconds
      else let offset = js_floor_mult rnd (jitterSeconds + 1) in max 1 (baseSeconds + offset))"

subsection \<open>A uniform pick from a window\<close>

lemma js_floor_mult_range:
  assumes "0 \<le> rnd" "rnd < 1" "0 < n"
  shows "0 \<le> js_floor_mult rnd n" "js_floor_mult rnd n < n"
proof -
  have "rnd * of_int n < 1 * (of_int n :: rat)"
    using assms by (intro mult_strict_right_mono) auto
  then show "js_floor_mult rnd n < n" by (simp add: js_floor_mult_def floor_less_iff)
  show "0 \<le> js_floor_mult rnd n" using assms by (simp add: js_floor_mult_def)
qed

lemma js_floor_mult_0 [simp]: "js_floor_mult rnd 0 = 0"
  by (simp add: js_floor_mult_def)

lemma js_floor_mult_onto:
  assumes "0 \<le> v" "v < n"
  shows "\<exists>rnd. 0 \<le> rnd \<and> rnd < 1 \<and> js_floor_mult rnd n = v"
proof (intro exI conjI)
  let ?r = "of_int v / of_int n :: rat"
  show "0 \<le> ?r" "?r < 1" using assms by (simp_all add: divide_less_eq)
  show "js_floor_mult ?r n = v" using assms by (simp add: js_floor_mult_def)
qed

lemma exponential_first: "attempt \<le> 1 \<Longrightarrow> exponential attempt b m = min m b"
  by (simp add: exponential_def max_def)

lemma exponential_doubles:
  assumes "1 \<le> attempt" "0 \<le> m" "0 \<le> b"
  shows "exponential (attempt + 1) b m = min m (2 * exponential attempt b m)"
proof -
  have "nat attempt = Suc (nat (attempt - 1))" using assms(1) by simp
  then have "b * 2 ^ nat attempt = 2 * (b * 2 ^ nat (attempt - 1))" by simp
  moreover have "min m (2 * x) = min m (2 * min m x)" if "0 \<le> x" for x
    using that assms(2) by (auto simp: min_def)
  ultimately have "min m (b * 2 ^ nat attempt) = min m (2 * min m (b * 2 ^ nat (attempt - 1)))"
    using assms(3) by (metis mult_nonneg_nonneg zero_le_numeral zero_le_power)
  moreover have "nat (max 0 (attempt + 1 - 1)) = nat attempt"
    and "nat (max 0 (attempt - 1)) = nat (attempt - 1)"
    using assms(1) by simp_all
  ultimately show ?thesis by (simp only: exponential_def)
qed

lemma exponential_nonneg: "0 \<le> b \<Longrightarrow> 0 \<le> m \<Longrightarrow> 0 \<le> exponential a b m"
  by (simp add: exponential_def)

text \<open>
  Retry delays are exponential with full jitter: the window is the base for the first attempt,
  doubles with every attempt and is cut off at the ceiling; the delay lies in the window whatever
  \<open>random()\<close> returns, never passes the ceiling, and every whole millisecond of the window is hit
  by some value of \<open>random()\<close>.
\<close>

theorem backoff_full_jitter:
  assumes "1 \<le> attempt" "0 < b" "0 < m" "0 \<le> rnd" "rnd < 1"
  shows "exponential 1 b m = min m b
    \<and> exponential (attempt + 1) b m = min m (2 * exponential attempt b m)
    \<and> (\<exists>d. computeBackoffMs (Fin attempt) b m rnd = Fin d \<and> 0 \<le> d
         \<and> d < exponential attempt b m \<and> d < m)
    \<and> {d. \<exists>r. 0 \<le> r \<and> r < 1 \<and> computeBackoffMs (Fin attempt) b m r = Fin d}
        = {0 ..< exponential attempt b m}"
proof -
  have pos: "0 < exponential attempt b m" using assms by (simp add: exponential_def)
  have le: "exponential attempt b m \<le> m" by (simp add: exponential_def)
  have rng: "0 \<le> js_floor_mult r (exponential attempt b m) \<and>
      js_floor_mult r (exponential attempt b m) < exponential attempt b m"
    if "0 \<le> r" "r < 1" for r using js_floor_mult_range [OF that pos] by blast
  have "{d. \<exists>r. 0 \<le> r \<and> r < 1 \<and> computeBackoffMs (Fin attempt) b m r = Fin d}
      = {0 ..< exponential attempt b m}"
    using rng js_floor_mult_onto by (auto simp: set_eq_iff)
  then show ?thesis
    using exponential_first [of 1 b m] exponential_doubles [OF assms(1)] assms rng [of rnd] le by auto
qed

theorem backoff_full_jitter_witness:
  "computeBackoffMs (Fin 3) 500 30000 (1 / 2) = Fin 1000 \<and> exponential (3 + 1) 500 30000 = 4000"
proof -
  have "exponential 3 500 30000 = 2000" by (simp add: exponential_def)
  with backoff_full_jitter [of 3 500 30000 "1 / 2"] show ?thesis
    by (simp add: js_floor_mult_def)
qed

text \<open>
  A cached entry's lifetime is spread over exactly \<open>[base, base + jitter]\<close>, and is never below
  one second, so the \<open>EX\<close> argument sent to Redis is always positive.
\<close>

theorem ttl_jitter_window:
  assumes "0 \<le> rnd" "rnd < 1"
  shows "1 \<le> ttlWithJitter b j rnd
    \<and> (1 \<le> b \<and> 0 \<le> j \<longrightarrow> b \<le> ttlWithJitter b j rnd \<and> ttlWithJitter b j rnd \<le> b + j
        \<and> {t. \<exists>r. 0 \<le> r \<and> r < 1 \<and> ttlWithJitter b j r = t} = {b .. b + j})"
proof -
  have one: "1 \<le> ttlWithJitter b j rnd" by (simp add: ttlWithJitter_def Let_def)
  have win: "b \<le> ttlWithJitter b j r \<and> ttlWithJitter b j r \<le> b + j"
    if "1 \<le> b" "0 \<le> j" "0 \<le> r" "r < 1" for r
    using that js_floor_mult_range [of r "j + 1"] by (auto simp: ttlWithJitter_def Let_def)
  have onto: "\<exists>r. 0 \<le> r \<and> r < 1 \<and> ttlWithJitter b j r = t"
    if h: "1 \<le> b" "0 \<le> j" "b \<le> t" "t \<le> b + j" for t
  proof (cases "j = 0")
    case True
    with h show ?thesis by (auto simp: ttlWithJitter_def intro!: exI [of _ 0])
  next
    case False
    obtain r where "0 \<le> r" "r < 1" "js_floor_mult r (j + 1) = t - b"
      using js_floor_mult_onto [of "t - b" "j + 1"] h by auto
    with False h show ?thesis by (auto simp: ttlWithJitter_def Let_def)
  qed
  have "{t. \<exists>r. 0 \<le> r \<and> r < 1 \<and> ttlWithJitter b j r = t} = {b .. b + j}" if "1 \<le> b" "0 \<le> j"
    using win [OF that] onto [OF that] by (auto simp: set_eq_iff)
  with one win assms show ?thesis by blast
qed

theorem ttl_jitter_window_witness:
  "1 \<le> ttlWithJitter 30 10 (999 / 1000) \<and> ttlWithJitter 30 10 (999 / 1000) \<le> 30 + 10
     \<and> ttlWithJitter 30 10 (999 / 1000) = 40"
proof -
  have "ttlWithJitter 30 10 (999 / 1000) = 40"
    by (simp add: ttlWithJitter_def js_floor_mult_def floor_eq_iff)
  with ttl_jitter_window [of "999 / 1000" 30 10] show ?thesis by simp
qed

end
