(* ===== verification/Json.thy ===== *)
theory Json
  imports Prelude
begin

section \<open>JSON text\<close>

text \<open>
  \<open>JSON.stringify\<close> and \<open>JSON.parse\<close>, which the sources use for message values, cache entries and request
  fingerprints. Text is UTF-8; an escaped UTF-16 code unit stands for its encoding, a surrogate on its own.
  Numbers are exact: printing writes the decimal expansion, up to 17 places, without an exponent. Objects keep
  the order in which their fields were written.
\<close>

subsection \<open>Printing\<close>

primrec frac_digits :: "nat \<Rightarrow> rat \<Rightarrow> string" where
  "frac_digits 0 q = []"
| "frac_digits (Suc n) q =
     (if q = 0 then [] else digit_char (nat \<lfloor>10 * q\<rfloor>) # frac_digits n (10 * q - of_int \<lfloor>10 * q\<rfloor>))"

definition num_str :: "rat \<Rightarrow> string" where
  "num_str r =
     (let a = \<bar>r\<bar>; i = \<lfloor>a\<rfloor> in
      (if r < 0 then ''-'' else []) @ nat_str (nat i) @ (if a = of_int i then [] else ''.'' @ frac_digits 17 (a - of_int i)))"

definition hex_char :: "nat \<Rightarrow> char" where
  "hex_char n = (if n < 10 then digit_char n else char_of (87 + n))"

definition esc :: "char \<Rightarrow> string" where
  "esc c =
     (if c = CHR 0x22 then [CHR 0x5C, CHR 0x22] else if c = CHR 0x5C then [CHR 0x5C, CHR 0x5C]
      else if c = CHR 0x08 then [CHR 0x5C, CHR ''b''] else if c = CHR 0x09 then [CHR 0x5C, CHR ''t'']
      else if c = CHR 0x0A then [CHR 0x5C, CHR ''n''] else if c = CHR 0x0C then [CHR 0x5C, CHR ''f'']
      else if c = CHR 0x0D then [CHR 0x5C, CHR ''r'']
      else let n = (of_char c :: nat) in
        if n < 32 then CHR 0x5C # ''u00'' @ [hex_char (n div 16), hex_char (n mod 16)] else [c])"

definition quote :: "string \<Rightarrow> string" where
  "quote s = CHR 0x22 # concat (map esc s) @ [CHR 0x22]"

lemma size_field: "(k, v) \<in> set fs \<Longrightarrow> size (v :: jsval) < Suc (size_list (size_prod (\<lambda>_. 0) size) fs)"
  by (induction fs) auto

text \<open>Undefined fields are left out, undefined elements become null.\<close>

function JSON_stringify :: "jsval \<Rightarrow> string" where
  "JSON_stringify JUndef = ''null''"
| "JSON_stringify JNull = ''null''"
| "JSON_stringify (JBool b) = (if b then ''true'' else ''false'')"
| "JSON_stringify (JNum r) = num_str r"
| "JSON_stringify (JStr s) = quote s"
| "JSON_stringify (JArr vs) = ''['' @ join_with '','' (map JSON_stringify vs) @ '']''"
| "JSON_stringify (JObj fs) = ''{'' @ join_with '',''
     (map (\<lambda>(k, v). quote k @ '':'' @ JSON_stringify v) (filter (\<lambda>(k, v). v \<noteq> JUndef) fs)) @ ''}''"
  by pat_completeness auto

termination
proof (relation "measure size")
  fix vs :: "jsval list" and v assume "v \<in> set vs"
  then show "(v, JArr vs) \<in> measure size" by (simp add: size_list_estimation' less_Suc_eq_le)
next
  fix fs :: "(string \<times> jsval) list" and x k v
  assume "x \<in> set (filter (\<lambda>(k, v). v \<noteq> JUndef) fs)" and "(k, v) = x"
  then show "(v, JObj fs) \<in> measure size" using size_field [of k v fs] by auto
qed simp

subsection \<open>Parsing\<close>

definition json_ws :: "char \<Rightarrow> bool" where
  "json_ws c \<longleftrightarrow> c = CHR '' '' \<or> c = CHR 0x09 \<or> c = CHR 0x0A \<or> c = CHR 0x0D"

abbreviation skip_ws :: "string \<Rightarrow> string" where
  "skip_ws \<equiv> dropWhile json_ws"

definition parse_int :: "string \<Rightarrow> (rat \<times> string) option" where
  "parse_int s = (let ds = takeWhile is_digit s in
     if ds = [] \<or> (hd ds = CHR ''0'' \<and> 1 < length ds) then None
     else Some (of_nat (digits_val ds), dropWhile is_digit s))"

definition parse_frac :: "string \<Rightarrow> (rat \<times> string) option" where
  "parse_frac s = (case s of
       c # r \<Rightarrow>
         if c = CHR ''.'' then (let ds = takeWhile is_digit r in
           if ds = [] then None else Some (of_nat (digits_val ds) / 10 ^ length ds, dropWhile is_digit r))
         else Some (0, s)
     | [] \<Rightarrow> Some (0, s))"

definition parse_exp :: "string \<Rightarrow> (rat \<times> string) option" where
  "parse_exp s = (case s of
       c # r \<Rightarrow>
         if c = CHR ''e'' \<or> c = CHR ''E'' then
           (let (neg, r1) = (case r of x # r1 \<Rightarrow>
                  if x = CHR ''-'' then (True, r1) else if x = CHR ''+'' then (False, r1) else (False, r)
                | [] \<Rightarrow> (False, r));
                ds = takeWhile is_digit r1; p = 10 ^ digits_val ds in
            if ds = [] then None else Some (if neg then 1 / p else p, dropWhile is_digit r1))
         else Some (1, s)
     | [] \<Rightarrow> Some (1, s))"

definition parse_number :: "string \<Rightarrow> (rat \<times> string) option" where
  "parse_number s =
     (let (neg, s1) = (case s of c # r \<Rightarrow> if c = CHR ''-'' then (True, r) else (False, s) | [] \<Rightarrow> (False, s)) in
      case parse_int s1 of None \<Rightarrow> None | Some (i, s2) \<Rightarrow>
      (case parse_frac s2 of None \<Rightarrow> None | Some (f, s3) \<Rightarrow>
      (case parse_exp s3 of None \<Rightarrow> None | Some (e, s4) \<Rightarrow>
        Some ((if neg then - 1 else 1) * (i + f) * e, s4))))"

definition hex_val :: "char \<Rightarrow> nat option" where
  "hex_val c = (let n = (of_char c :: nat) in
     if 48 \<le> n \<and> n \<le> 57 then Some (n - 48) else if 97 \<le> n \<and> n \<le> 102 then Some (n - 87)
     else if 65 \<le> n \<and> n \<le> 70 then Some (n - 55) else None)"

definition utf8 :: "nat \<Rightarrow> string" where
  "utf8 n =
     (if n < 128 then [char_of n]
      else if n < 2048 then [char_of (192 + n div 64), char_of (128 + n mod 64)]
      else [char_of (224 + n div 4096), char_of (128 + n div 64 mod 64), char_of (128 + n mod 64)])"

definition hex4 :: "char \<Rightarrow> char \<Rightarrow> char \<Rightarrow> char \<Rightarrow> nat option" where
  "hex4 a b c d =
     (case (hex_val a, hex_val b, hex_val c, hex_val d) of
        (Some w, Some x, Some y, Some z) \<Rightarrow> Some (4096 * w + 256 * x + 16 * y + z)
      | _ \<Rightarrow> None)"

definition unesc :: "char \<Rightarrow> char option" where
  "unesc e =
     (if e = CHR 0x22 \<or> e = CHR 0x5C \<or> e = CHR ''/'' then Some e
      else if e = CHR ''b'' then Some (CHR 0x08) else if e = CHR ''t'' then Some (CHR 0x09)
      else if e = CHR ''n'' then Some (CHR 0x0A) else if e = CHR ''f'' then Some (CHR 0x0C)
      else if e = CHR ''r'' then Some (CHR 0x0D) else None)"

text \<open>A string after its opening quote.\<close>

fun parse_str :: "string \<Rightarrow> (string \<times> string) option" where
  "parse_str [] = None"
| "parse_str (c # cs) =
     (if c = CHR 0x22 then Some ([], cs)
      else if c = CHR 0x5C then
        (case cs of
           [] \<Rightarrow> None
         | e # r \<Rightarrow>
             if e = CHR ''u'' then
               (case r of
                  h1 # h2 # h3 # h4 # r' \<Rightarrow>
                    (case hex4 h1 h2 h3 h4 of None \<Rightarrow> None
                     | Some n \<Rightarrow> map_option (\<lambda>(t, z). (utf8 n @ t, z)) (parse_str r'))
                | _ \<Rightarrow> None)
             else (case unesc e of None \<Rightarrow> None | Some x \<Rightarrow> map_option (\<lambda>(t, z). (x # t, z)) (parse_str r)))
      else if (of_char c :: nat) < 32 then None
      else map_option (\<lambda>(t, z). (c # t, z)) (parse_str cs))"

text \<open>A repeated key overwrites the value where the key was first written.\<close>

fun obj_put :: "string \<times> jsval \<Rightarrow> (string \<times> jsval) list \<Rightarrow> (string \<times> jsval) list" where
  "obj_put (k, v) [] = [(k, v)]"
| "obj_put (k, v) ((k', v') # fs) = (if k' = k then (k, v) # fs else (k', v') # obj_put (k, v) fs)"

definition obj_of :: "(string \<times> jsval) list \<Rightarrow> jsval" where
  "obj_of fs = JObj (fold obj_put fs [])"

text \<open>The fuel bounds the depth of the calls.\<close>

fun parse_value :: "nat \<Rightarrow> string \<Rightarrow> (jsval \<times> string) option"
  and parse_elems :: "nat \<Rightarrow> string \<Rightarrow> (jsval list \<times> string) option"
  and parse_fields :: "nat \<Rightarrow> string \<Rightarrow> ((string \<times> jsval) list \<times> string) option"
where
  "parse_value 0 s = None"
| "parse_value (Suc n) s =
     (case skip_ws s of
        [] \<Rightarrow> None
      | c # cs \<Rightarrow>
          if c = CHR 0x22 then map_option (\<lambda>(t, r). (JStr t, r)) (parse_str cs)
          else if c = CHR ''['' then
            (if take 1 (skip_ws cs) = '']'' then Some (JArr [], tl (skip_ws cs))
             else map_option (\<lambda>(vs, r). (JArr vs, r)) (parse_elems n cs))
          else if c = CHR 0x7B then
            (if take 1 (skip_ws cs) = ''}'' then Some (JObj [], tl (skip_ws cs))
             else map_option (\<lambda>(fs, r). (obj_of fs, r)) (parse_fields n cs))
          else if take 4 (c # cs) = ''null'' then Some (JNull, drop 3 cs)
          else if take 4 (c # cs) = ''true'' then Some (JBool True, drop 3 cs)
          else if take 5 (c # cs) = ''false'' then Some (JBool False, drop 4 cs)
          else map_option (\<lambda>(q, r). (JNum q, r)) (parse_number (c # cs)))"
| "parse_elems 0 s = None"
| "parse_elems (Suc n) s =
     (case parse_value n s of None \<Rightarrow> None | Some (v, r) \<Rightarrow>
     (case skip_ws r of
        [] \<Rightarrow> None
      | c # r' \<Rightarrow>
          if c = CHR '','' then map_option (\<lambda>(vs, z). (v # vs, z)) (parse_elems n r')
          else if c = CHR '']'' then Some ([v], r') else None))"
| "parse_fields 0 s = None"
| "parse_fields (Suc n) s =
     (case skip_ws s of
        [] \<Rightarrow> None
      | q # cs \<Rightarrow>
          if q \<noteq> CHR 0x22 then None
          else case parse_str cs of None \<Rightarrow> None | Some (k, r) \<Rightarrow>
            (case skip_ws r of
               [] \<Rightarrow> None
             | c # r1 \<Rightarrow>
                 if c \<noteq> CHR '':'' then None
                 else case parse_value n r1 of None \<Rightarrow> None | Some (v, r2) \<Rightarrow>
                   (case skip_ws r2 of
                      [] \<Rightarrow> None
                    | d # r3 \<Rightarrow>
                        if d = CHR '','' then map_option (\<lambda>(fs, z). ((k, v) # fs, z)) (parse_fields n r3)
                        else if d = CHR 0x7D then Some ([(k, v)], r3) else None)))"

definition JSON_parse :: "string \<Rightarrow> jsval option" where
  "JSON_parse s =
     (case parse_value (2 * length s + 2) s of
        Some (v, r) \<Rightarrow> if skip_ws r = [] then Some v else None
      | None \<Rightarrow> None)"

end
