(* ===== verification/JsonRoundTrip.thy ===== *)
theory JsonRoundTrip
  imports Json
begin

section \<open>JSON text is read back\<close>

text \<open>
  The parser needs no more fuel than \<open>JSON_parse\<close> gives it (\<open>parse_fuel\<close>), and reads back what the printer of
  \<open>Json\<close> wrote (\<open>json_round_trip\<close>).
\<close>

subsection \<open>Numbers\<close>

definition stops_digits :: "string \<Rightarrow> bool" where
  "stops_digits rest \<longleftrightarrow> rest = [] \<or> \<not> is_digit (hd rest)"

lemma span_digits:
  assumes "list_all is_digit ds" "stops_digits rest"
  shows "takeWhile is_digit (ds @ rest) = ds" "dropWhile is_digit (ds @ rest) = rest"
  using assms by (cases rest; simp add: stops_digits_def list_all_iff takeWhile_append dropWhile_append)+

lemma digits_val_foldl: "foldl (\<lambda>a c. 10 * a + digit_val c) n s = n * 10 ^ length s + digits_val s"
proof (induction s arbitrary: n)
  case (Cons c s)
  show ?case using Cons [of "10 * n + digit_val c"] Cons [of "digit_val c"] by (simp add: digits_val_def algebra_simps)
qed (simp add: digits_val_def)

lemma digits_val_Cons: "digits_val (c # s) = digit_val c * 10 ^ length s + digits_val s"
  using digits_val_foldl [of "digit_val c" s] by (simp add: digits_val_def)

lemma ten_times:
  fixes q :: rat assumes "0 \<le> q" "q < 1"
  shows "0 \<le> \<lfloor>10 * q\<rfloor>" "\<lfloor>10 * q\<rfloor> < 10" "0 \<le> 10 * q - of_int \<lfloor>10 * q\<rfloor>" "10 * q - of_int \<lfloor>10 * q\<rfloor> < 1"
proof -
  show "0 \<le> \<lfloor>10 * q\<rfloor>" using assms by simp
  show "\<lfloor>10 * q\<rfloor> < 10" using assms by (simp add: floor_less_iff)
  show "0 \<le> 10 * q - of_int \<lfloor>10 * q\<rfloor>" by simp
  show "10 * q - of_int \<lfloor>10 * q\<rfloor> < 1" by linarith
qed

lemma frac_digits_props:
  fixes q :: rat assumes "0 \<le> q" "q < 1"
  shows "list_all is_digit (frac_digits n q)" "frac_digits (Suc n) q = [] \<longleftrightarrow> q = 0"
    "10 ^ n * q \<in> \<int> \<Longrightarrow> of_nat (digits_val (frac_digits n q)) = q * 10 ^ length (frac_digits n q)"
proof -
  show "frac_digits (Suc n) q = [] \<longleftrightarrow> q = 0" by simp
  show "list_all is_digit (frac_digits n q)"
    using assms
  proof (induction n arbitrary: q)
    case (Suc n)
    note t = ten_times [OF Suc.prems]
    have "nat \<lfloor>10 * q\<rfloor> < 10" using t by linarith
    with Suc.IH [OF t(3,4)] show ?case by (simp add: is_digit_digit_char)
  qed simp
  show "of_nat (digits_val (frac_digits n q)) = q * 10 ^ length (frac_digits n q)" if "10 ^ n * q \<in> \<int>"
    using assms that
  proof (induction n arbitrary: q)
    case 0
    then have "q = 0" by (auto elim!: Ints_cases)
    then show ?case by simp
  next
    case (Suc n)
    show ?case
    proof (cases "q = 0")
      case False
      note t = ten_times [OF Suc.prems(1,2)]
      let ?d = "\<lfloor>10 * q\<rfloor>" and ?q = "10 * q - of_int \<lfloor>10 * q\<rfloor>"
      have "10 ^ n * ?q = 10 ^ Suc n * q - of_int (10 ^ n * ?d)" by (simp add: algebra_simps)
      also have "\<dots> \<in> \<int>" by (rule Ints_diff [OF Suc.prems(3) Ints_of_int])
      finally have ih: "of_nat (digits_val (frac_digits n ?q)) = ?q * 10 ^ length (frac_digits n ?q)"
        by (rule Suc.IH [OF t(3,4)])
      have "digit_val (digit_char (nat ?d)) = nat ?d" using t by (intro digit_val_digit_char) linarith
      moreover have "(of_nat (nat ?d) :: rat) = of_int ?d" using t(1) by simp
      ultimately show ?thesis using False ih by (simp add: digits_val_Cons algebra_simps)
    qed simp
  qed
qed

lemma nat_str_leading: "nat_str n = CHR ''0'' # cs \<Longrightarrow> cs = []"
proof (induction n arbitrary: cs rule: nat_str.induct)
  case (1 n)
  show ?case
  proof (cases "n < 10")
    case True
    then show ?thesis using 1(2) by (simp add: nat_str.simps)
  next
    case False
    obtain d ds where d: "nat_str (n div 10) = d # ds" by (cases "nat_str (n div 10)") auto
    then have "d = CHR ''0''" using 1(2) False by (simp add: nat_str.simps [of n])
    with 1(1) [OF False] d have "ds = []" by simp
    with d \<open>d = CHR ''0''\<close> have "digits_val (nat_str (n div 10)) = 0" by (simp add: digits_val_def digit_val_def)
    with False show ?thesis by simp
  qed
qed

definition decimal :: "rat \<Rightarrow> bool" where
  "decimal r \<longleftrightarrow> 10 ^ 17 * r \<in> \<int>"

text \<open>What may follow a number.\<close>

definition ends_number :: "string \<Rightarrow> bool" where
  "ends_number rest \<longleftrightarrow> rest = [] \<or> hd rest \<in> {CHR '','', CHR '']'', CHR 0x7D}"

lemma ends_number_stops: "ends_number rest \<Longrightarrow> stops_digits rest"
  by (auto simp: ends_number_def stops_digits_def is_digit_def)

lemma parse_int_nat_str:
  assumes "stops_digits rest"
  shows "parse_int (nat_str n @ rest) = Some (of_nat n, rest)"
proof -
  obtain c cs where n: "nat_str n = c # cs" by (cases "nat_str n") auto
  then have "\<not> (hd (nat_str n) = CHR ''0'' \<and> 1 < length (nat_str n))" using nat_str_leading [of n cs] by auto
  then show ?thesis by (simp add: parse_int_def Let_def span_digits [OF nat_str_digits assms])
qed

lemma parse_frac_none: "ends_number rest \<Longrightarrow> parse_frac rest = Some (0, rest)"
  by (auto simp: parse_frac_def ends_number_def split: list.splits)

lemma parse_exp_none: "ends_number rest \<Longrightarrow> parse_exp rest = Some (1, rest)"
  by (auto simp: parse_exp_def ends_number_def split: list.splits)

lemma parse_frac_digits:
  assumes "0 < q" "q < 1" "10 ^ 17 * q \<in> \<int>" "stops_digits rest"
  shows "parse_frac (CHR ''.'' # frac_digits 17 q @ rest) = Some (q, rest)"
proof -
  have q: "0 \<le> q" using assms by simp
  note p = frac_digits_props [OF q assms(2)]
  have "frac_digits 17 q \<noteq> []" using p(2) [of 16] assms(1) by simp
  then show ?thesis
    using p(3) [OF assms(3)] by (simp add: parse_frac_def Let_def span_digits [OF p(1) assms(4)])
qed

lemma parse_unsigned:
  assumes "0 \<le> a" "10 ^ 17 * a \<in> \<int>" "ends_number rest"
  shows "parse_int (nat_str (nat \<lfloor>a\<rfloor>) @ (if a = of_int \<lfloor>a\<rfloor> then [] else ''.'' @ frac_digits 17 (a - of_int \<lfloor>a\<rfloor>)) @ rest)
      = Some (of_int \<lfloor>a\<rfloor>, (if a = of_int \<lfloor>a\<rfloor> then [] else ''.'' @ frac_digits 17 (a - of_int \<lfloor>a\<rfloor>)) @ rest)"
    and "parse_frac ((if a = of_int \<lfloor>a\<rfloor> then [] else ''.'' @ frac_digits 17 (a - of_int \<lfloor>a\<rfloor>)) @ rest)
      = Some (a - of_int \<lfloor>a\<rfloor>, rest)"
proof -
  have "stops_digits ((if a = of_int \<lfloor>a\<rfloor> then [] else ''.'' @ frac_digits 17 (a - of_int \<lfloor>a\<rfloor>)) @ rest)"
    using ends_number_stops [OF assms(3)] by (simp add: stops_digits_def is_digit_def)
  moreover have "(of_nat (nat \<lfloor>a\<rfloor>) :: rat) = of_int \<lfloor>a\<rfloor>" using assms(1) by simp
  ultimately show "parse_int (nat_str (nat \<lfloor>a\<rfloor>) @ (if a = of_int \<lfloor>a\<rfloor> then [] else ''.'' @ frac_digits 17 (a - of_int \<lfloor>a\<rfloor>)) @ rest)
      = Some (of_int \<lfloor>a\<rfloor>, (if a = of_int \<lfloor>a\<rfloor> then [] else ''.'' @ frac_digits 17 (a - of_int \<lfloor>a\<rfloor>)) @ rest)"
    by (simp only: parse_int_nat_str)
  show "parse_frac ((if a = of_int \<lfloor>a\<rfloor> then [] else ''.'' @ frac_digits 17 (a - of_int \<lfloor>a\<rfloor>)) @ rest)
      = Some (a - of_int \<lfloor>a\<rfloor>, rest)"
  proof (cases "a = of_int \<lfloor>a\<rfloor>")
    case True
    then have "a - of_int \<lfloor>a\<rfloor> = 0" by linarith
    then show ?thesis using parse_frac_none [OF assms(3)] True by simp
  next
    case False
    have "0 < a - of_int \<lfloor>a\<rfloor>" "a - of_int \<lfloor>a\<rfloor> < 1" using False by linarith+
    moreover have "10 ^ 17 * (a - of_int \<lfloor>a\<rfloor>) \<in> \<int>"
      using Ints_diff [OF assms(2) Ints_of_int [of "10 ^ 17 * \<lfloor>a\<rfloor>"]] by (simp add: algebra_simps)
    ultimately show ?thesis
      using parse_frac_digits [OF _ _ _ ends_number_stops [OF assms(3)]] False by simp
  qed
qed

lemma decimal_abs: "decimal r \<Longrightarrow> 10 ^ 17 * \<bar>r\<bar> \<in> \<int>"
  by (cases "0 \<le> r") (auto simp: decimal_def)

lemma unsigned_nat_str:
  "(case nat_str n @ x of c # y \<Rightarrow> if c = CHR ''-'' then (True, y) else (False, nat_str n @ x)
    | [] \<Rightarrow> (False, nat_str n @ x)) = (False, nat_str n @ x)"
proof -
  obtain c cs where c: "nat_str n = c # cs" by (cases "nat_str n") auto
  then have "is_digit c" using nat_str_digits [of n] by simp
  then show ?thesis using is_digit_minus by (simp add: c)
qed

lemma parse_number_num_str:
  assumes "decimal r" "ends_number rest"
  shows "parse_number (num_str r @ rest) = Some (r, rest)"
proof -
  let ?a = "\<bar>r\<bar>"
  let ?t = "(if ?a = of_int \<lfloor>?a\<rfloor> then [] else ''.'' @ frac_digits 17 (?a - of_int \<lfloor>?a\<rfloor>)) @ rest"
  let ?s = "nat_str (nat \<lfloor>?a\<rfloor>) @ ?t"
  note u = parse_unsigned [OF abs_ge_zero decimal_abs [OF assms(1)] assms(2)]
  have s: "num_str r @ rest = (if r < 0 then CHR ''-'' # ?s else ?s)"
    by (simp add: num_str_def Let_def)
  have sum: "of_int \<lfloor>?a\<rfloor> + (?a - of_int \<lfloor>?a\<rfloor>) = ?a" by simp
  show ?thesis
  proof (cases "r < 0")
    case True
    then have "parse_number (num_str r @ rest) = Some (- 1 * (of_int \<lfloor>?a\<rfloor> + (?a - of_int \<lfloor>?a\<rfloor>)) * 1, rest)"
      by (simp only: s if_True parse_number_def list.case if_True refl Let_def prod.case u option.case parse_exp_none [OF assms(2)])
    then show ?thesis using True by (simp only: sum) simp
  next
    case False
    then have "parse_number (num_str r @ rest) = Some (1 * (of_int \<lfloor>?a\<rfloor> + (?a - of_int \<lfloor>?a\<rfloor>)) * 1, rest)"
      by (simp only: s if_False parse_number_def unsigned_nat_str Let_def prod.case u option.case parse_exp_none [OF assms(2)])
    then show ?thesis using False by (simp only: sum) simp
  qed
qed

subsection \<open>Strings\<close>

lemma hex_val_char: "n < 16 \<Longrightarrow> hex_val (hex_char n) = Some n"
  by (auto simp: hex_val_def hex_char_def digit_char_def Let_def)

lemma parse_str_step: "parse_str (esc c @ r) = map_option (\<lambda>(t, z). (c # t, z)) (parse_str r)"
proof (cases "c \<in> {CHR 0x22, CHR 0x5C, CHR 0x08, CHR 0x09, CHR 0x0A, CHR 0x0C, CHR 0x0D}")
  case True
  then show ?thesis by (auto simp: esc_def unesc_def)
next
  case False
  let ?n = "of_char c :: nat"
  show ?thesis
  proof (cases "?n < 32")
    case True
    have "hex4 (CHR ''0'') (CHR ''0'') (hex_char (?n div 16)) (hex_char (?n mod 16)) = Some ?n"
      using True by (simp add: hex4_def hex_val_char) (simp add: hex_val_def)
    moreover have "utf8 ?n = [c]" using True by (simp add: utf8_def)
    ultimately show ?thesis using True False by (simp add: esc_def Let_def)
  next
    case False
    with \<open>c \<notin> _\<close> show ?thesis by (simp add: esc_def Let_def)
  qed
qed

lemma parse_str_quoted: "parse_str (concat (map esc s) @ CHR 0x22 # r) = Some (s, r)"
  by (induction s) (simp_all add: parse_str_step)


subsection \<open>Enough fuel\<close>

lemma skip_ws_length: "length (skip_ws s) \<le> length s"
  by (rule length_dropWhile_le)

lemma skip_ws_Cons: "skip_ws s = c # cs \<Longrightarrow> length cs < length s"
  using skip_ws_length [of s] by simp

lemma parse_str_shorter: "parse_str s = Some (t, r) \<Longrightarrow> length r < length s"
proof (induction s arbitrary: t r rule: parse_str.induct)
  case (2 c cs)
  show ?case
  proof (cases "c = CHR 0x5C")
    case True
    then obtain e x where e: "cs = e # x" using 2(4) by (cases cs) auto
    show ?thesis
    proof (cases "e = CHR ''u''")
      case u: True
      then obtain h1 h2 h3 h4 x' n where h: "x = h1 # h2 # h3 # h4 # x'" "hex4 h1 h2 h3 h4 = Some n"
        using 2(4) True e by (auto split: list.splits option.splits)
      then obtain t' where p: "parse_str x' = Some (t', r)" using 2(4) True e u by auto
      have "length r < length x'" by (rule 2(1) [OF _ True e u h(1) refl refl refl h(2) p]) (simp add: True)
      then show ?thesis by (simp add: e h)
    next
      case False
      then obtain y t' where y: "unesc e = Some y" "parse_str x = Some (t', r)"
        using 2(4) True e by (auto split: option.splits)
      with 2(2) [OF _ True e False y] True show ?thesis by (simp add: e)
    qed
  next
    case False
    then show ?thesis using 2(3,4) by (auto split: if_splits simp: less_Suc_eq)
  qed
qed simp

lemma parse_int_shorter: "parse_int s = Some (q, r) \<Longrightarrow> length r < length s"
proof -
  assume a: "parse_int s = Some (q, r)"
  then have "takeWhile is_digit s \<noteq> []" "r = dropWhile is_digit s" by (auto simp: parse_int_def Let_def split: if_splits)
  moreover have "length (takeWhile is_digit s) + length (dropWhile is_digit s) = length s"
    by (metis length_append takeWhile_dropWhile_id)
  ultimately show ?thesis by (cases "takeWhile is_digit s") auto
qed

lemma parse_frac_shorter: "parse_frac s = Some (q, r) \<Longrightarrow> length r \<le> length s"
  using length_dropWhile_le [of is_digit] by (auto simp: parse_frac_def Let_def le_SucI split: list.splits if_splits)

lemma parse_exp_shorter: "parse_exp s = Some (q, r) \<Longrightarrow> length r \<le> length s"
proof (cases s)
  case (Cons c x)
  assume "parse_exp s = Some (q, r)"
  with Cons show ?thesis
    using length_dropWhile_le [of is_digit x] length_dropWhile_le [of is_digit "tl x"]
    by (auto simp: parse_exp_def Let_def split: list.splits if_splits)
qed (simp add: parse_exp_def)

lemma parse_number_shorter: "parse_number s = Some (q, r) \<Longrightarrow> length r < length s"
  by (auto simp: parse_number_def Let_def split: list.splits if_splits option.splits
      dest!: parse_int_shorter parse_frac_shorter parse_exp_shorter)

lemma parse_shorter:
  "parse_value n s = Some (v, r) \<Longrightarrow> length r < length s"
  "parse_elems n s = Some (vs, r) \<Longrightarrow> length r < length s"
  "parse_fields n s = Some (fs, r) \<Longrightarrow> length r < length s"
proof (induction n s and n s and n s arbitrary: v r and vs r and fs r rule: parse_value_parse_elems_parse_fields.induct)
  case (2 n s)
  obtain c cs where s: "skip_ws s = c # cs" using 2(3) by (cases "skip_ws s") auto
  note less = skip_ws_Cons [OF s]
  have drops: "length (drop 3 cs) \<le> length cs" "length (drop 4 cs) \<le> length cs" "length (tl (skip_ws cs)) \<le> length cs"
    using skip_ws_length [of cs] by auto
  consider "c = CHR 0x22" | "c = CHR ''[''" | "c = CHR 0x7B" | "c \<noteq> CHR 0x22" "c \<noteq> CHR ''[''" "c \<noteq> CHR 0x7B" by blast
  then show ?case
  proof cases
    case 1
    then show ?thesis using 2(3) s less by (auto dest!: parse_str_shorter)
  next
    case b: 2
    then show ?thesis using 2(3) 2(1) [OF s] s less drops by (auto split: if_splits)
  next
    case b: 3
    then show ?thesis using 2(3) 2(2) [OF s] s less drops by (auto split: if_splits)
  next
    case b: 4
    then show ?thesis using 2(3) s less drops by (auto split: if_splits dest!: parse_number_shorter)
  qed
next
  case (4 n s)
  obtain v r1 where v: "parse_value n s = Some (v, r1)" using 4(3) by (auto split: option.splits)
  obtain c r' where c: "skip_ws r1 = c # r'" using 4(3) v by (auto split: list.splits)
  note less = 4(1) [OF v] skip_ws_Cons [OF c]
  show ?case using 4(3) 4(2) [OF v refl c] less by (fastforce simp: v c split: if_splits)
next
  case (6 n s)
  obtain q cs where q: "skip_ws s = q # cs" "q = CHR 0x22" using 6(3) by (auto split: list.splits if_splits)
  obtain k r1 where k: "parse_str cs = Some (k, r1)" using 6(3) q by (auto split: option.splits)
  obtain r2 where c: "skip_ws r1 = CHR '':'' # r2" using 6(3) q k by (auto split: list.splits if_splits)
  obtain v r3 where v: "parse_value n r2 = Some (v, r3)" using 6(3) q k c by (auto split: option.splits)
  obtain d r4 where d: "skip_ws r3 = d # r4" using 6(3) q k c v by (auto split: list.splits)
  have nq: "\<not> q \<noteq> CHR 0x22" and nc: "\<not> CHR '':'' \<noteq> CHR '':''" using q by simp_all
  have iv: "length r3 < length r2" by (rule 6(1) [OF q(1) nq k refl c nc v])
  note less = skip_ws_Cons [OF q(1)] parse_str_shorter [OF k] skip_ws_Cons [OF c] iv skip_ws_Cons [OF d]
  have "length r < length r4 \<or> r = r4"
    using 6(3) 6(2) [OF q(1) nq k refl c nc v refl d] by (fastforce simp: q k c v d split: if_splits)
  with less show ?case by auto
qed simp_all


lemma parse_value_fuel:
  assumes "\<And>cs. length cs < length s \<Longrightarrow> parse_elems n cs = parse_elems m cs"
    and "\<And>cs. length cs < length s \<Longrightarrow> parse_fields n cs = parse_fields m cs"
  shows "parse_value (Suc n) s = parse_value (Suc m) s"
proof (cases "skip_ws s")
  case (Cons c cs)
  from assms [OF skip_ws_Cons [OF Cons]] show ?thesis by (simp add: Cons)
qed (simp del: dropWhile_eq_Nil_conv)

lemma parse_elems_fuel:
  assumes "parse_value n s = parse_value m s"
    and "\<And>r. length r < length s \<Longrightarrow> parse_elems n r = parse_elems m r"
  shows "parse_elems (Suc n) s = parse_elems (Suc m) s"
proof (cases "parse_value m s")
  case (Some x)
  then obtain v r where x: "parse_value m s = Some (v, r)" by (cases x) auto
  show ?thesis
  proof (cases "skip_ws r")
    case (Cons c r')
    then have "length r' < length s" using skip_ws_Cons [OF Cons] parse_shorter(1) [OF x] by simp
    from assms(2) [OF this] show ?thesis by (simp add: assms(1) x Cons)
  qed (simp add: assms(1) x del: dropWhile_eq_Nil_conv)
qed (simp add: assms(1) del: dropWhile_eq_Nil_conv)

lemma parse_fields_fuel:
  assumes "\<And>r. length r < length s \<Longrightarrow> parse_value n r = parse_value m r"
    and "\<And>r. length r < length s \<Longrightarrow> parse_fields n r = parse_fields m r"
  shows "parse_fields (Suc n) s = parse_fields (Suc m) s"
proof (cases "skip_ws s")
  case (Cons q cs)
  show ?thesis
  proof (cases "parse_str cs")
    case (Some x)
    then obtain k r where k: "parse_str cs = Some (k, r)" by (cases x) auto
    show ?thesis
    proof (cases "skip_ws r")
      case c: (Cons c r1)
      have r1: "length r1 < length s"
        using skip_ws_Cons [OF Cons] parse_str_shorter [OF k] skip_ws_Cons [OF c] by simp
      note v = assms(1) [OF r1]
      show ?thesis
      proof (cases "parse_value m r1")
        case (Some y)
        then obtain v r2 where y: "parse_value m r1 = Some (v, r2)" by (cases y) auto
        show ?thesis
        proof (cases "skip_ws r2")
          case d: (Cons d r3)
          then have "length r3 < length s" using skip_ws_Cons [OF d] parse_shorter(1) [OF y] r1 by simp
          from assms(2) [OF this] show ?thesis by (simp add: Cons k c v y d)
        qed (simp add: Cons k c v y del: dropWhile_eq_Nil_conv)
      qed (simp add: Cons k c v del: dropWhile_eq_Nil_conv)
    qed (simp add: Cons k del: dropWhile_eq_Nil_conv)
  qed (simp add: Cons del: dropWhile_eq_Nil_conv)
qed (simp del: dropWhile_eq_Nil_conv)

lemma parse_fuel:
  "2 * length s < n \<Longrightarrow> parse_value (n + j) s = parse_value n s"
  "2 * length s + 1 < n \<Longrightarrow> parse_elems (n + j) s = parse_elems n s"
  "2 * length s + 1 < n \<Longrightarrow> parse_fields (n + j) s = parse_fields n s"
proof (induction n arbitrary: s)
  case (Suc n)
  { case 1
    show ?case unfolding add_Suc by (rule parse_value_fuel; rule Suc.IH) (use 1 in simp_all)
  next
    case 2
    show ?case unfolding add_Suc by (rule parse_elems_fuel; rule Suc.IH) (use 2 in simp_all)
  next
    case 3
    show ?case unfolding add_Suc by (rule parse_fields_fuel; rule Suc.IH) (use 3 in simp_all) }
qed simp_all

subsection \<open>Round trip\<close>

text \<open>The values that have a JSON text: nothing undefined, printable numbers, no repeated key.\<close>

inductive json_ok :: "jsval \<Rightarrow> bool" where
  jo_null: "json_ok JNull"
| jo_bool: "json_ok (JBool b)"
| jo_num: "decimal r \<Longrightarrow> json_ok (JNum r)"
| jo_str: "json_ok (JStr s)"
| jo_arr: "(\<And>v. v \<in> set vs \<Longrightarrow> json_ok v) \<Longrightarrow> json_ok (JArr vs)"
| jo_obj: "distinct (map fst fs) \<Longrightarrow> (\<And>k v. (k, v) \<in> set fs \<Longrightarrow> json_ok v) \<Longrightarrow> json_ok (JObj fs)"

inductive_simps json_ok_simps [simp]:
  "json_ok JUndef" "json_ok JNull" "json_ok (JBool b)" "json_ok (JNum r)" "json_ok (JStr s)"
  "json_ok (JArr vs)" "json_ok (JObj fs)"

definition reads :: "string \<Rightarrow> jsval \<Rightarrow> string \<Rightarrow> bool" where
  "reads s v r \<longleftrightarrow> (\<exists>n. \<forall>m \<ge> n. parse_value m s = Some (v, r))"

lemma reads_parse: "reads s v r \<Longrightarrow> parse_value (2 * length s + 2) s = Some (v, r)"
proof -
  assume "reads s v r"
  then obtain n where "\<forall>m \<ge> n. parse_value m s = Some (v, r)" unfolding reads_def by blast
  then have "parse_value (2 * length s + 2 + n) s = Some (v, r)" by (simp del: parse_value.simps)
  then show ?thesis using parse_fuel(1) [of s "2 * length s + 2" n] by (simp del: parse_value.simps)
qed

lemma readsI: "(\<And>m. parse_value (Suc m) s = Some (v, r)) \<Longrightarrow> reads s v r"
  unfolding reads_def by (rule exI [of _ 1]) (metis Suc_le_D One_nat_def)

lemma num_str_head: "\<exists>c cs. num_str r = c # cs \<and> (is_digit c \<or> c = CHR ''-'')"
proof -
  obtain c cs where "nat_str (nat \<lfloor>\<bar>r\<bar>\<rfloor>) = c # cs" by (cases "nat_str (nat \<lfloor>\<bar>r\<bar>\<rfloor>)") auto
  then show ?thesis using nat_str_digits [of "nat \<lfloor>\<bar>r\<bar>\<rfloor>"] by (auto simp: num_str_def Let_def)
qed

text \<open>The first character of a text: no blank, no closing bracket.\<close>

lemma stringify_head: "\<exists>c cs. JSON_stringify v = c # cs \<and> \<not> json_ws c \<and> c \<noteq> CHR '']''"
proof (cases v)
  case (JNum r)
  then show ?thesis using num_str_head [of r] by (auto simp: json_ws_def is_digit_def)
qed (auto simp: json_ws_def quote_def)

lemma skip_ws_stringify [simp]: "skip_ws (JSON_stringify v @ r) = JSON_stringify v @ r"
  using stringify_head [of v] by auto

lemma reads_num:
  assumes "decimal r" "ends_number rest"
  shows "reads (num_str r @ rest) (JNum r) rest"
proof (rule readsI)
  fix m
  obtain c cs where c: "num_str r = c # cs" "is_digit c \<or> c = CHR ''-''" using num_str_head [of r] by blast
  then have "\<not> json_ws c" "c \<noteq> CHR 0x22" "c \<noteq> CHR ''[''" "c \<noteq> CHR 0x7B" "c \<noteq> CHR ''n''" "c \<noteq> CHR ''t''" "c \<noteq> CHR ''f''"
    by (auto simp: json_ws_def is_digit_def)
  then show "parse_value (Suc m) (num_str r @ rest) = Some (JNum r, rest)"
    using parse_number_num_str [OF assms] by (simp add: c)
qed

lemma reads_str: "reads (quote s @ rest) (JStr s) rest"
  by (rule readsI) (simp add: quote_def json_ws_def parse_str_quoted)


lemma ends_number_bracket [simp]:
  "ends_number (CHR '','' # x)" "ends_number (CHR '']'' # x)" "ends_number (CHR 0x7D # x)" "ends_number []"
  by (simp_all add: ends_number_def)

definition reads_back :: "jsval \<Rightarrow> bool" where
  "reads_back v \<longleftrightarrow> (\<forall>rest. ends_number rest \<longrightarrow> reads (JSON_stringify v @ rest) v rest)"

lemma reads_backD: "reads_back v \<Longrightarrow> ends_number rest \<Longrightarrow> \<exists>n. \<forall>m \<ge> n. parse_value m (JSON_stringify v @ rest) = Some (v, rest)"
  by (simp add: reads_back_def reads_def)

lemma reads_elems:
  assumes "vs \<noteq> []" "\<And>v. v \<in> set vs \<Longrightarrow> reads_back v"
  shows "\<exists>n. \<forall>m \<ge> n. parse_elems m (join_with '','' (map JSON_stringify vs) @ CHR '']'' # rest) = Some (vs, rest)"
  using assms
proof (induction vs)
  case (Cons v vs)
  show ?case
  proof (cases vs)
    case Nil
    obtain n where n: "\<forall>m \<ge> n. parse_value m (JSON_stringify v @ CHR '']'' # rest) = Some (v, CHR '']'' # rest)"
      using reads_backD [OF Cons.prems(2), of v "CHR '']'' # rest"] by auto
    have "parse_elems m (JSON_stringify v @ CHR '']'' # rest) = Some ([v], rest)" if m: "Suc n \<le> m" for m
    proof -
      obtain k where k: "m = Suc k" "n \<le> k" using m by (cases m) auto
      then show ?thesis using n by (simp add: json_ws_def)
    qed
    with Nil show ?thesis by auto
  next
    case (Cons w ws)
    let ?tail = "join_with '','' (map JSON_stringify vs) @ CHR '']'' # rest"
    obtain n1 where n1: "\<forall>m \<ge> n1. parse_value m (JSON_stringify v @ CHR '','' # ?tail) = Some (v, CHR '','' # ?tail)"
      using reads_backD [OF Cons.prems(2), of v "CHR '','' # ?tail"] by auto
    obtain n2 where n2: "\<forall>m \<ge> n2. parse_elems m ?tail = Some (vs, rest)"
      using Cons.IH Cons.prems(2) \<open>vs = w # ws\<close> by auto
    have "parse_elems m (JSON_stringify v @ CHR '','' # ?tail) = Some (v # vs, rest)" if m: "Suc (max n1 n2) \<le> m" for m
    proof -
      obtain k where k: "m = Suc k" "n1 \<le> k" "n2 \<le> k" using m by (cases m) auto
      with n1 n2 have "parse_value k (JSON_stringify v @ CHR '','' # ?tail) = Some (v, CHR '','' # ?tail)"
        "parse_elems k ?tail = Some (vs, rest)" by blast+
      then show ?thesis by (simp add: k json_ws_def)
    qed
    with Cons show ?thesis by auto
  qed
qed simp

abbreviation field_text :: "string \<times> jsval \<Rightarrow> string" where
  "field_text \<equiv> \<lambda>(k, v). quote k @ '':'' @ JSON_stringify v"

lemma parse_key: "parse_str (tl (quote k) @ r) = Some (k, r)"
  by (simp add: quote_def parse_str_quoted)

lemma reads_field:
  assumes "parse_value n (JSON_stringify v @ d # r) = Some (v, d # r)" "\<not> json_ws d"
  shows "parse_fields (Suc n) (field_text (k, v) @ d # r) =
    (if d = CHR '','' then map_option (\<lambda>(fs, z). ((k, v) # fs, z)) (parse_fields n r)
     else if d = CHR 0x7D then Some ([(k, v)], r) else None)"
proof -
  have "parse_str (concat (map esc k) @ CHR 0x22 # CHR '':'' # JSON_stringify v @ d # r)
      = Some (k, CHR '':'' # JSON_stringify v @ d # r)" by (rule parse_str_quoted)
  then show ?thesis using assms by (simp add: quote_def json_ws_def)
qed

lemma reads_fields:
  assumes "fs \<noteq> []" "\<And>k v. (k, v) \<in> set fs \<Longrightarrow> reads_back v"
  shows "\<exists>n. \<forall>m \<ge> n. parse_fields m (join_with '','' (map field_text fs) @ CHR 0x7D # rest) = Some (fs, rest)"
  using assms
proof (induction fs)
  case (Cons x fs)
  obtain k v where x: "x = (k, v)" by (cases x)
  have v: "reads_back v" using Cons.prems(2) x by auto
  show ?case
  proof (cases fs)
    case Nil
    obtain n where n: "\<forall>m \<ge> n. parse_value m (JSON_stringify v @ CHR 0x7D # rest) = Some (v, CHR 0x7D # rest)"
      using reads_backD [OF v, of "CHR 0x7D # rest"] by auto
    have "parse_fields m (field_text x @ CHR 0x7D # rest) = Some ([x], rest)" if m: "Suc n \<le> m" for m
    proof -
      obtain j where j: "m = Suc j" "n \<le> j" using m by (cases m) auto
      with n have "parse_value j (JSON_stringify v @ CHR 0x7D # rest) = Some (v, CHR 0x7D # rest)" by blast
      from reads_field [OF this, of k] show ?thesis by (simp add: x j(1) json_ws_def del: parse_fields.simps)
    qed
    with Nil show ?thesis by (auto simp del: parse_fields.simps)
  next
    case (Cons y ys)
    let ?tail = "join_with '','' (map field_text fs) @ CHR 0x7D # rest"
    obtain n1 where n1: "\<forall>m \<ge> n1. parse_value m (JSON_stringify v @ CHR '','' # ?tail) = Some (v, CHR '','' # ?tail)"
      using reads_backD [OF v, of "CHR '','' # ?tail"] by auto
    obtain n2 where n2: "\<forall>m \<ge> n2. parse_fields m ?tail = Some (fs, rest)"
      using Cons.IH Cons.prems(2) \<open>fs = y # ys\<close> by auto
    have "parse_fields m (field_text x @ CHR '','' # ?tail) = Some (x # fs, rest)" if m: "Suc (max n1 n2) \<le> m" for m
    proof -
      obtain j where j: "m = Suc j" "n1 \<le> j" "n2 \<le> j" using m by (cases m) auto
      with n1 n2 have p: "parse_value j (JSON_stringify v @ CHR '','' # ?tail) = Some (v, CHR '','' # ?tail)"
        "parse_fields j ?tail = Some (fs, rest)" by blast+
      from reads_field [OF p(1), of k] p(2) show ?thesis by (simp add: x j(1) json_ws_def del: parse_fields.simps)
    qed
    with Cons show ?thesis by (auto simp del: parse_fields.simps)
  qed
qed simp

lemma obj_put_new: "fst x \<notin> fst ` set fs \<Longrightarrow> obj_put x fs = fs @ [x]"
  by (cases x) (induction x fs rule: obj_put.induct, auto)

lemma fold_obj_put: "distinct (map fst (gs @ fs)) \<Longrightarrow> fold obj_put fs gs = gs @ fs"
proof (induction fs arbitrary: gs)
  case (Cons x fs)
  then show ?case using obj_put_new [of x gs] Cons.IH [of "gs @ [x]"] by auto
qed simp

lemma obj_of_distinct: "distinct (map fst fs) \<Longrightarrow> obj_of fs = JObj fs"
  using fold_obj_put [of "[]" fs] by (simp add: obj_of_def)

lemma json_ok_reads_back: "json_ok v \<Longrightarrow> reads_back v"
proof (induction rule: json_ok.induct)
  case (jo_arr vs)
  show ?case unfolding reads_back_def
  proof (intro allI impI)
    fix rest
    show "reads (JSON_stringify (JArr vs) @ rest) (JArr vs) rest"
    proof (cases "vs = []")
      case True
      then show ?thesis by (intro readsI) (simp add: json_ws_def)
    next
      case False
      let ?t = "join_with '','' (map JSON_stringify vs)"
      obtain n where n: "\<forall>m \<ge> n. parse_elems m (?t @ CHR '']'' # rest) = Some (vs, rest)"
        using reads_elems [OF False jo_arr.IH] by blast
      have "\<exists>c cs. ?t = c # cs \<and> \<not> json_ws c \<and> c \<noteq> CHR '']''"
        using False stringify_head [of "hd vs"] by (cases vs rule: remdups_adj.cases) auto
      then obtain c cs where c: "?t = c # cs" "\<not> json_ws c" "c \<noteq> CHR '']''" by blast
      have "parse_value m (JSON_stringify (JArr vs) @ rest) = Some (JArr vs, rest)" if m: "Suc n \<le> m" for m
      proof -
        obtain j where j: "m = Suc j" "n \<le> j" using m by (cases m) auto
        with n have "parse_elems j (c # cs @ CHR '']'' # rest) = Some (vs, rest)" by (simp add: c del: parse_elems.simps)
        with c show ?thesis by (simp add: j(1) json_ws_def del: parse_elems.simps)
      qed
      then show ?thesis unfolding reads_def by blast
    qed
  qed
next
  case (jo_obj fs)
  have defined: "filter (\<lambda>(k, v). v \<noteq> JUndef) fs = fs"
    using jo_obj.hyps(2) by (fastforce intro!: filter_True)
  show ?case unfolding reads_back_def
  proof (intro allI impI)
    fix rest
    show "reads (JSON_stringify (JObj fs) @ rest) (JObj fs) rest"
    proof (cases "fs = []")
      case True
      then show ?thesis by (intro readsI) (simp add: json_ws_def)
    next
      case False
      let ?t = "join_with '','' (map field_text fs)"
      obtain n where n: "\<forall>m \<ge> n. parse_fields m (?t @ CHR 0x7D # rest) = Some (fs, rest)"
        using reads_fields [OF False] jo_obj.IH by blast
      have "\<exists>cs. ?t = CHR 0x22 # cs"
        using False by (cases fs rule: remdups_adj.cases) (auto simp: quote_def)
      then obtain cs where c: "?t = CHR 0x22 # cs" by blast
      have "parse_value m (JSON_stringify (JObj fs) @ rest) = Some (JObj fs, rest)" if m: "Suc n \<le> m" for m
      proof -
        obtain j where j: "m = Suc j" "n \<le> j" using m by (cases m) auto
        have "parse_fields j ((CHR 0x22 # cs) @ CHR 0x7D # rest) = Some (fs, rest)"
          using n j(2) unfolding c by blast
        with c show ?thesis
          by (simp add: j(1) json_ws_def defined obj_of_distinct [OF jo_obj.hyps(1)] del: parse_fields.simps)
      qed
      then show ?thesis unfolding reads_def by blast
    qed
  qed
qed (auto simp: reads_back_def reads_num reads_str json_ws_def intro: readsI)

lemma json_ok_reads:
  assumes "json_ok v"
  shows "JSON_parse (JSON_stringify v) = Some v"
proof -
  have "reads (JSON_stringify v @ []) v []"
    using json_ok_reads_back [OF assms] unfolding reads_back_def by (metis ends_number_bracket(4))
  from reads_parse [OF this] show ?thesis by (simp add: JSON_parse_def del: parse_value.simps)
qed

text \<open>
  What \<open>JSON.stringify\<close> printed, \<open>JSON.parse\<close> reads back: for every value without undefined parts,
  repeated keys or numbers of more than 17 decimals.
\<close>

theorem json_round_trip:
  assumes "json_ok v"
  shows "JSON_parse (JSON_stringify v) = Some v"
  by (rule json_ok_reads [OF assms])

theorem json_round_trip_witness:
  "JSON_parse (JSON_stringify (JObj [(''v'', JArr [JNum (5/2), JNull, JStr ''a\"b'']), (''t'', JBool True)]))
     = Some (JObj [(''v'', JArr [JNum (5/2), JNull, JStr ''a\"b'']), (''t'', JBool True)])"
proof (rule json_round_trip)
  have "(10 ^ 17 * (5 / 2) :: rat) = of_int 250000000000000000" by simp
  then have "decimal (5 / 2)" unfolding decimal_def by (metis Ints_of_int)
  then show "json_ok (JObj [(''v'', JArr [JNum (5/2), JNull, JStr ''a\"b'']), (''t'', JBool True)])" by auto
qed

lemma stringify_not_Nil [simp]: "JSON_stringify v \<noteq> []"
  using stringify_head [of v] by auto

lemma decimal_of_int [simp]: "decimal (of_int i)"
  using Ints_of_int [of "10 ^ 17 * i"] by (simp add: decimal_def)

end
