(* ===== verification/Fingerprint.thy ===== *)
theory Fingerprint
  imports JsonRoundTrip "HOL-Library.List_Lexorder"
begin

section \<open>Request fingerprints\<close>

text \<open>
  \<open>idempotency/request-fingerprint.ts\<close>. \<open>collate\<close> gives the sort key by which \<open>localeCompare\<close> orders
  strings in the process's locale, and \<open>sha256\<close> is the hash in hexadecimal; both are arguments.
\<close>

function stableStringify :: "(string \<Rightarrow> 'o::linorder) \<Rightarrow> jsval \<Rightarrow> string" where
  "stableStringify collate JUndef = ''null''"
| "stableStringify collate JNull = JSON_stringify JNull"
| "stableStringify collate (JBool b) = JSON_stringify (JBool b)"
| "stableStringify collate (JNum n) = JSON_stringify (JNum n)"
| "stableStringify collate (JStr s) = JSON_stringify (JStr s)"
| "stableStringify collate (JArr vs) = ''['' @ join_with '','' (map (stableStringify collate) vs) @ '']''"
| "stableStringify collate (JObj fs) =
     ''{'' @ join_with '','' (map (\<lambda>(k, v). JSON_stringify (JStr k) @ '':'' @ stableStringify collate v)
        (sort_key (\<lambda>(k, v). collate k) (filter (\<lambda>(k, v). v \<noteq> JUndef) fs))) @ ''}''"
  by pat_completeness auto

termination
proof (relation "measure (\<lambda>(_, v). size v)")
  fix collate :: "string \<Rightarrow> 'o::linorder" and vs :: "jsval list" and v :: jsval
  assume "v \<in> set vs"
  then show "((collate, v), collate, JArr vs) \<in> measure (\<lambda>(_, v). size v)"
    by (simp add: size_list_estimation' less_Suc_eq_le)
next
  fix collate :: "string \<Rightarrow> 'o::linorder" and fs x k v
  assume "x \<in> set (sort_key (\<lambda>(k, v). collate k) (filter (\<lambda>(k, v). v \<noteq> JUndef) fs))" and "(k, v) = x"
  then have "(k, v) \<in> set fs" by simp
  then show "((collate, v), collate, JObj fs) \<in> measure (\<lambda>(_, v). size v)"
    using size_field by fastforce
qed simp

definition fingerprint_text :: "(string \<Rightarrow> 'o::linorder) \<Rightarrow> string \<Rightarrow> string \<Rightarrow> jsval \<Rightarrow> string" where
  "fingerprint_text collate method path body =
     toUpperCase method @ '' '' @ path @ '' '' @ stableStringify collate body"

definition requestFingerprint :: "(string \<Rightarrow> string) \<Rightarrow> (string \<Rightarrow> 'o::linorder) \<Rightarrow> string \<Rightarrow> string \<Rightarrow> jsval \<Rightarrow> string" where
  "requestFingerprint sha256 collate method path body = sha256 (fingerprint_text collate method path body)"

subsection \<open>The same request\<close>

text \<open>Two JSON values that differ at most in the order of the fields of their objects, at any depth.\<close>

inductive same_json :: "jsval \<Rightarrow> jsval \<Rightarrow> bool" where
  sj_undef: "same_json JUndef JUndef"
| sj_null: "same_json JNull JNull"
| sj_bool: "same_json (JBool b) (JBool b)"
| sj_num: "same_json (JNum n) (JNum n)"
| sj_str: "same_json (JStr s) (JStr s)"
| sj_arr: "length vs = length vs' \<Longrightarrow> (\<And>i. i < length vs \<Longrightarrow> same_json (vs ! i) (vs' ! i)) \<Longrightarrow>
     same_json (JArr vs) (JArr vs')"
| sj_obj: "distinct (map fst fs) \<Longrightarrow> distinct (map fst fs') \<Longrightarrow> set (map fst fs) = set (map fst fs') \<Longrightarrow>
     (\<And>k v v'. (k, v) \<in> set fs \<Longrightarrow> (k, v') \<in> set fs' \<Longrightarrow> same_json v v') \<Longrightarrow> same_json (JObj fs) (JObj fs')"

inductive_cases same_json_undefE: "same_json JUndef v" "same_json v JUndef"

lemma sorted_collated: "sorted (map collate (map fst (sort_key (\<lambda>(k, v). collate k) zs)))"
  using sorted_sort_key [of "\<lambda>(k, v). collate k" zs] by (simp add: comp_def case_prod_unfold)

lemma distinct_collated:
  assumes "inj collate" "distinct (map fst zs)"
  shows "distinct (map collate (map fst (sort_key (\<lambda>(k, v). collate k) zs)))"
  using assms by (auto simp: distinct_map inj_on_def inj_def)

lemma set_collated: "set (map collate (map fst (sort_key (\<lambda>(k, v). collate k) zs))) = collate ` set (map fst zs)"
  by (simp add: image_image)

lemma sorted_keys_eq:
  assumes inj: "inj collate" and "distinct (map fst xs)" "distinct (map fst ys)"
    and "set (map fst xs) = set (map fst ys)"
  shows "map fst (sort_key (\<lambda>(k, v). collate k) xs) = map fst (sort_key (\<lambda>(k, v). collate k) ys)"
proof -
  have "map collate (map fst (sort_key (\<lambda>(k, v). collate k) xs)) =
      map collate (map fst (sort_key (\<lambda>(k, v). collate k) ys))"
    by (intro sorted_distinct_set_unique sorted_collated distinct_collated inj assms(2,3)) (simp only: set_collated assms(4))
  with inj show ?thesis by (metis inj_map_eq_map)
qed

lemma same_fields_defined:
  assumes "set (map fst fs) = set (map fst fs')"
    and "\<And>k v v'. (k, v) \<in> set fs \<Longrightarrow> (k, v') \<in> set fs' \<Longrightarrow> same_json v v'"
    and "(k, v) \<in> set fs" "v \<noteq> JUndef"
  shows "\<exists>v'. (k, v') \<in> set fs' \<and> v' \<noteq> JUndef"
proof -
  have "k \<in> set (map fst fs')" using assms(1,3) by force
  then obtain v' where "(k, v') \<in> set fs'" by auto
  with assms(2) [OF assms(3) this] assms(4) show ?thesis by (auto elim: same_json_undefE)
qed

lemma same_json_sym: "same_json v v' \<Longrightarrow> same_json v' v"
  by (induction rule: same_json.induct) (auto intro!: same_json.intros)

text \<open>
  A retry from another client library is the same request: bodies that differ only in the order of
  object fields, at any depth, written with any casing of the method, get the same fingerprint. The one
  thing needed of \<open>localeCompare\<close> is that it tells different keys apart.
\<close>

theorem fingerprint_ignores_key_order:
  assumes "inj (collate :: string \<Rightarrow> 'o::linorder)" and "same_json body body'"
    and "toUpperCase method = toUpperCase method'"
  shows "requestFingerprint sha256 collate method path body =
    requestFingerprint sha256 collate method' path body'"
proof -
  have "stableStringify collate body = stableStringify collate body'"
    using assms(2)
  proof induction
    case (sj_arr vs vs')
    then have "map (stableStringify collate) vs = map (stableStringify collate) vs'"
      by (intro nth_equalityI) simp_all
    then show ?case by simp
  next
    case (sj_obj fs fs')
    let ?P = "\<lambda>(k, v). v \<noteq> JUndef"
    let ?X = "sort_key (\<lambda>(k, v). collate k) (filter ?P fs)"
    let ?Y = "sort_key (\<lambda>(k, v). collate k) (filter ?P fs')"
    have "set (map fst (filter ?P fs)) = set (map fst (filter ?P fs'))"
      using same_fields_defined [OF sj_obj(3)] same_fields_defined [OF sj_obj(3) [symmetric]] sj_obj(4) same_json_sym
      by (fastforce simp: image_iff)
    then have keys: "map fst ?X = map fst ?Y"
      using sj_obj(1,2) by (intro sorted_keys_eq assms(1)) (simp_all add: distinct_map_filter)
    have len: "length ?X = length ?Y" using keys by (metis length_map)
    have "(\<lambda>(k, v). JSON_stringify (JStr k) @ '':'' @ stableStringify collate v) (?X ! i) =
        (\<lambda>(k, v). JSON_stringify (JStr k) @ '':'' @ stableStringify collate v) (?Y ! i)" if i: "i < length ?X" for i
    proof -
      obtain k v k' v' where X: "?X ! i = (k, v)" and Y: "?Y ! i = (k', v')" by fastforce
      have "k = k'" using keys i len X Y by (metis fst_conv nth_map)
      moreover have "(k, v) \<in> set ?X" "(k', v') \<in> set ?Y" using i len X Y by (metis nth_mem)+
      then have "(k, v) \<in> set fs" "(k', v') \<in> set fs'" by auto
      ultimately show ?thesis using sj_obj(5) [of k v v'] X Y by simp
    qed
    then have "map (\<lambda>(k, v). JSON_stringify (JStr k) @ '':'' @ stableStringify collate v) ?X =
        map (\<lambda>(k, v). JSON_stringify (JStr k) @ '':'' @ stableStringify collate v) ?Y"
      using len by (intro nth_equalityI) simp_all
    then show ?case by simp
  qed simp_all
  then show ?thesis by (simp add: requestFingerprint_def fingerprint_text_def assms(3))
qed

lemma fingerprint_ignores_key_order_witness:
  "requestFingerprint id (\<lambda>s. map (of_char :: char \<Rightarrow> nat) s) ''POST'' ''/v1'' (JObj [(''a'', JNum 1), (''b'', JNull)]) =
   requestFingerprint id (\<lambda>s. map (of_char :: char \<Rightarrow> nat) s) ''post'' ''/v1'' (JObj [(''b'', JNull), (''a'', JNum 1)])"
proof (rule fingerprint_ignores_key_order)
  show "inj (\<lambda>s. map (of_char :: char \<Rightarrow> nat) s)"
    by (rule injI) (metis inj_map_eq_map inj_of_char)
  show "toUpperCase ''POST'' = toUpperCase ''post''" by code_simp
  show "same_json (JObj [(''a'', JNum 1), (''b'', JNull)]) (JObj [(''b'', JNull), (''a'', JNum 1)])"
    by (rule sj_obj) (auto intro: same_json.intros)
qed


subsection \<open>Different requests\<close>

text \<open>Objects with their fields in the order of \<open>localeCompare\<close>, at every depth.\<close>

primrec sort_fields :: "(string \<Rightarrow> 'o::linorder) \<Rightarrow> jsval \<Rightarrow> jsval" where
  "sort_fields collate JUndef = JUndef"
| "sort_fields collate JNull = JNull"
| "sort_fields collate (JBool b) = JBool b"
| "sort_fields collate (JNum n) = JNum n"
| "sort_fields collate (JStr s) = JStr s"
| "sort_fields collate (JArr vs) = JArr (map (sort_fields collate) vs)"
| "sort_fields collate (JObj fs) = JObj (sort_key (collate \<circ> fst) (map (map_prod id (sort_fields collate)) fs))"

lemma insort_key_map: "insort_key f (g x) (map g xs) = map g (insort_key (f \<circ> g) x xs)"
  by (induction xs) auto

lemma sort_key_map: "sort_key f (map g xs) = map g (sort_key (f \<circ> g) xs)"
  by (induction xs) (simp_all add: insort_key_map comp_def)

lemma sort_fields_undef [simp]: "sort_fields collate v = JUndef \<longleftrightarrow> v = JUndef"
  by (cases v) simp_all

lemma sort_fields_base [simp]:
  "JNull = sort_fields collate v \<longleftrightarrow> v = JNull" "JBool b = sort_fields collate v \<longleftrightarrow> v = JBool b"
  "JNum n = sort_fields collate v \<longleftrightarrow> v = JNum n" "JStr s = sort_fields collate v \<longleftrightarrow> v = JStr s"
  by (cases v; auto)+

lemma stableStringify_sorted:
  "stableStringify collate v = JSON_stringify (sort_fields collate v)"
proof (induction collate v rule: stableStringify.induct)
  case (6 collate vs)
  then have "map (stableStringify collate) vs = map JSON_stringify (map (sort_fields collate) vs)" by simp
  then show ?case by (simp only: sort_fields.simps stableStringify.simps JSON_stringify.simps)
next
  case (7 collate fs)
  let ?P = "\<lambda>(k, v). v \<noteq> JUndef" and ?g = "map_prod id (sort_fields collate)"
  let ?S = "sort_key (\<lambda>(k, v). collate k) (filter ?P fs)"
  have fst: "collate \<circ> fst = (\<lambda>(k, v). collate k)" "(\<lambda>(k, v). collate k) \<circ> ?g = (\<lambda>(k, v). collate k)" by auto
  have "filter ?P (sort_key (collate \<circ> fst) (map ?g fs)) = sort_key (collate \<circ> fst) (map ?g (filter (?P \<circ> ?g) fs))"
    by (simp only: filter_sort filter_map)
  also have "filter (?P \<circ> ?g) fs = filter ?P fs" by (rule filter_cong) auto
  finally have sorted: "filter ?P (sort_key (collate \<circ> fst) (map ?g fs)) = map ?g ?S"
    by (simp only: sort_key_map fst)
  have "map (\<lambda>(k, v). JSON_stringify (JStr k) @ '':'' @ stableStringify collate v) ?S
      = map (\<lambda>(k, v). quote k @ '':'' @ JSON_stringify v) (map ?g ?S)"
    using 7 by (auto simp del: set_sort)
  then show ?case by (simp only: sort_fields.simps JSON_stringify.simps sorted stableStringify.simps)
qed simp_all

text \<open>
  The canonical text is the JSON text of the body with its fields sorted: \<open>stableStringify\<close>, which prints
  and sorts in one recursion, agrees with sorting first and \<open>JSON.stringify\<close> after, undefined parts included.
\<close>

theorem stable_stringify_is_sorted_json:
  "stableStringify collate v = JSON_stringify (sort_fields collate v)"
  by (rule stableStringify_sorted)

lemma sort_fields_ok: "json_ok v \<Longrightarrow> json_ok (sort_fields collate v)"
proof (induction rule: json_ok.induct)
  case (jo_obj fs)
  have "distinct (map fst (map (map_prod id (sort_fields collate)) fs))" using jo_obj.hyps(1) by (simp add: comp_def)
  then have "distinct (map fst (sort_key (collate \<circ> fst) (map (map_prod id (sort_fields collate)) fs)))"
    by (simp add: distinct_sort_map)
  then show ?case using jo_obj.IH by auto
qed auto

lemma sort_fields_same:
  assumes "inj collate" "json_ok v" "json_ok v'" "sort_fields collate v = sort_fields collate v'"
  shows "same_json v v'"
  using assms(2-4)
proof (induction arbitrary: v' rule: json_ok.induct)
  case (jo_arr vs)
  obtain vs' where v': "v' = JArr vs'" using jo_arr.prems(2) by (cases v') simp_all
  then have eq: "map (sort_fields collate) vs = map (sort_fields collate) vs'" using jo_arr.prems(2) by simp
  then have len: "length vs = length vs'" by (metis length_map)
  have "same_json (vs ! i) (vs' ! i)" if i: "i < length vs" for i
    using jo_arr.IH [of "vs ! i" "vs' ! i"] jo_arr.prems(1) v' eq i len by (metis json_ok_simps(6) nth_map nth_mem)
  with len show ?case unfolding v' by (rule sj_arr)
next
  case (jo_obj fs)
  let ?g = "map_prod id (sort_fields collate)"
  obtain fs' where v': "v' = JObj fs'"
    and eq: "sort_key (collate \<circ> fst) (map ?g fs) = sort_key (collate \<circ> fst) (map ?g fs')"
    using jo_obj.prems(2) by (cases v') auto
  have d': "distinct (map fst fs')" using jo_obj.prems(1) v' by simp
  have sets: "?g ` set fs = ?g ` set fs'" using arg_cong [OF eq, of set] by simp
  have "fst ` (?g ` set fs) = fst ` (?g ` set fs')" by (simp only: sets)
  then have keys: "set (map fst fs) = set (map fst fs')" by (simp add: image_image)
  have "same_json a b" if a: "(k, a) \<in> set fs" and b: "(k, b) \<in> set fs'" for k a b
  proof -
    have "?g (k, a) \<in> ?g ` set fs'" using a unfolding sets [symmetric] by (rule imageI)
    then obtain b' where "(k, b') \<in> set fs'" "sort_fields collate a = sort_fields collate b'" by auto
    moreover from this have "b' = b" using d' b by (metis eq_key_imp_eq_value)
    ultimately show ?thesis using jo_obj.IH [OF a, of b] jo_obj.prems(1) v' b by auto
  qed
  with jo_obj.hyps(1) d' keys show ?case unfolding v' by (intro sj_obj)
qed (auto intro: same_json.intros)


lemma blank_split:
  assumes "CHR '' '' \<notin> set x" "CHR '' '' \<notin> set x'" "x @ CHR '' '' # y = x' @ CHR '' '' # y'"
  shows "x = x' \<and> y = y'"
proof -
  have "takeWhile (\<lambda>c. c \<noteq> CHR '' '') (z @ CHR '' '' # r) = z" if "CHR '' '' \<notin> set z" for z r
    using that by (auto simp: takeWhile_append)
  from this [OF assms(1), of y] this [OF assms(2), of y'] assms(3) show ?thesis by simp
qed



end
