(* ===== verification/Specs.thy ===== *)
theory Specs
  imports Config Trace Semaphore Backoff Fingerprint
begin

section \<open>The repository's own specifications\<close>

text \<open>
  What the \<open>*.spec.ts\<close> files beside the sources expect, evaluated on the model: each lemma is one
  \<open>expect\<close> or one \<open>it\<close>, with the inputs of the test. Random draws, generated ids and the hash are
  given as the tests give them or, where they leave them open, for any value.
\<close>

subsection \<open>\<open>config/configuration.spec.ts\<close>\<close>

lemma spec_booleans:
  "bool_of (Some ''FALSE'') True = False" "bool_of (Some ''yes'') True = True" "bool_of None True = True"
  by (simp_all add: bool_of_def toLowerCase_def) code_simp+

text \<open>An unknown lock strategy is rejected instead of silently defaulting.\<close>

lemma spec_unknown_strategy:
  "env ''BOOKING_LOCK_STRATEGY'' = Some ''mutex'' \<Longrightarrow> \<exists>m. configuration env host = Inl (JsError m)"
proof -
  assume "env ''BOOKING_LOCK_STRATEGY'' = Some ''mutex''"
  moreover have "toLowerCase ''mutex'' = ''mutex''" by code_simp
  ultimately show ?thesis by (simp add: configuration_def lock_strategy_of_def Let_def)
qed

lemma spec_broker_list: "map trim (split_on (CHR '','') ''a:9092, b:9092'') = [''a:9092'', ''b:9092'']"
  by code_simp

subsection \<open>\<open>common/trace/*.spec.ts\<close>\<close>

definition inbound :: "string \<Rightarrow> string \<Rightarrow> headers option" where
  "inbound n v = Some [n \<mapsto> HStr v]"

lemma spec_trace_reused:
  "resolveTraceId (inbound ''x-request-id'' ''abc-123'') u = ''abc-123''"
  "resolveTraceId (inbound ''x-trace-id'' ''trace:9'') u = ''trace:9''"
proof -
  have safe: "SAFE ''abc-123''" "SAFE ''trace:9''" by code_simp+
  show "resolveTraceId (inbound ''x-request-id'' ''abc-123'') u = ''abc-123''"
    by (simp add: resolveTraceId_def inbound_def TRACE_HEADER_def pick_SAFE safe MAX_LENGTH_def)
  have "pick None = None" by (simp add: pick_def)
  then show "resolveTraceId (inbound ''x-trace-id'' ''trace:9'') u = ''trace:9''"
    by (simp add: resolveTraceId_def inbound_def TRACE_HEADER_def TRACE_HEADER_ALT_def pick_SAFE safe MAX_LENGTH_def)
qed

lemma spec_trace_fresh:
  "resolveTraceId None u = u" "resolveTraceId (inbound ''x-request-id'' ''   '') u = u"
proof -
  have "nonempty (trim ''   '') = None" by code_simp
  then show "resolveTraceId None u = u" "resolveTraceId (inbound ''x-request-id'' ''   '') u = u"
    by (simp_all add: resolveTraceId_def inbound_def TRACE_HEADER_def TRACE_HEADER_ALT_def pick_def)
qed

lemma spec_trace_refused:
  "resolveTraceId (inbound ''x-request-id'' (''bad id'' @ [CHR 0x0A] @ ''INJECTED'')) u = u"
  "resolveTraceId (inbound ''x-request-id'' (replicate 200 (CHR ''x''))) u = u"
proof -
  have "nonempty (trim (''bad id'' @ [CHR 0x0A] @ ''INJECTED'')) = Some (''bad id'' @ [CHR 0x0A] @ ''INJECTED'')"
    and "\<not> SAFE (''bad id'' @ [CHR 0x0A] @ ''INJECTED'')" by code_simp+
  then show "resolveTraceId (inbound ''x-request-id'' (''bad id'' @ [CHR 0x0A] @ ''INJECTED'')) u = u"
    by (simp add: resolveTraceId_def inbound_def TRACE_HEADER_def pick_def)
  have "safe_char (CHR ''x'')" by code_simp
  then have "SAFE (replicate 200 (CHR ''x''))" by (simp add: SAFE_def list_all_iff)
  then have "pick (Some (HStr (replicate 200 (CHR ''x'')))) = Some (replicate 200 (CHR ''x''))" by (rule pick_SAFE)
  then show "resolveTraceId (inbound ''x-request-id'' (replicate 200 (CHR ''x''))) u = u"
    by (simp add: resolveTraceId_def inbound_def TRACE_HEADER_def MAX_LENGTH_def)
qed

text \<open>A header that a proxy sent twice.\<close>

lemma spec_trace_first: "resolveTraceId (Some [''x-request-id'' \<mapsto> HArr [''first'', ''second'']]) u = ''first''"
proof -
  have "nonempty (trim ''first'') = Some ''first''" "SAFE ''first''" by code_simp+
  then show ?thesis by (simp add: resolveTraceId_def TRACE_HEADER_def pick_def MAX_LENGTH_def)
qed

lemma spec_trace_middleware:
  "rq_traceId (use_trace r u) = Some (resolveTraceId (Some (rq_headers r)) u)
   \<and> rq_headers (use_trace r u) ''x-request-id'' = Some (HStr (resolveTraceId (Some (rq_headers r)) u))
   \<and> rs_headers (use_trace r u) ''x-request-id'' = Some (resolveTraceId (Some (rq_headers r)) u)"
  by (simp add: use_trace_def TRACE_HEADER_def Let_def)

subsection \<open>\<open>common/concurrency/semaphore.spec.ts\<close>\<close>

text \<open>Five tasks on two permits: the others wait, each release hands a permit on, and all permits come back.\<close>

definition five_tasks :: "nat pool list" where
  "five_tasks = (case mkSemaphore 2 of
     Inr s \<Rightarrow> map (\<lambda>n. fold (\<lambda>f p. f p) (take n (map run_begin [0, 1, 2, 3, 4] @ map run_end [0, 1, 2, 3, 4])) (pool_init s)) [0..<11]
   | Inl _ \<Rightarrow> [])"

lemma spec_semaphore_peak:
  "map (\<lambda>p. length (running p)) five_tasks = [0, 1, 2, 2, 2, 2, 2, 2, 2, 1, 0]"
  "map (\<lambda>p. inFlight (sem p)) five_tasks = [0, 1, 2, 2, 2, 2, 2, 2, 2, 1, 0]"
  "map (\<lambda>p. queued (sem p)) five_tasks = [0, 0, 0, 1, 2, 3, 2, 1, 0, 0, 0]"
  by code_simp+

lemma spec_semaphore_needs_permits: "\<exists>m. mkSemaphore 0 = Inl (JsError m)"
  by (simp add: mkSemaphore_def)

subsection \<open>\<open>notifications/retry-policy.spec.ts\<close>, \<open>redis/cache-ttl.spec.ts\<close>\<close>

lemma spec_backoff_doubles:
  "computeBackoffMs (Fin 1) 500 30000 (999999 / 1000000) = Fin 499"
  "computeBackoffMs (Fin 2) 500 30000 (999999 / 1000000) = Fin 999"
  "computeBackoffMs (Fin 3) 500 30000 (999999 / 1000000) = Fin 1999"
  "computeBackoffMs (Fin 20) 500 30000 (999999 / 1000000) = Fin 29999"
  by (simp_all add: js_floor_mult_def exponential_def floor_eq_iff)

lemma spec_backoff_spreads:
  "computeBackoffMs (Fin 3) 500 30000 0 = Fin 0" "computeBackoffMs (Fin 3) 500 30000 (1 / 2) = Fin 1000"
  by (simp_all add: js_floor_mult_def exponential_def)

lemma spec_dead_letter:
  "\<not> shouldDeadLetter (Fin 2) 3" "shouldDeadLetter (Fin 3) 3" "shouldDeadLetter (Fin 4) 3"
  by (simp_all add: shouldDeadLetter_def)

lemma spec_ttl:
  "ttlWithJitter 30 10 0 = 30" "ttlWithJitter 30 10 (999 / 1000) = 40" "ttlWithJitter 30 0 rnd = 30"
  "ttlWithJitter 0 0 rnd = 1" "ttlWithJitter (- 5) 0 rnd = 1"
  by (simp_all add: ttlWithJitter_def js_floor_mult_def floor_eq_iff)

subsection \<open>\<open>idempotency/request-fingerprint.spec.ts\<close>\<close>

text \<open>With strings in the order of their code units, as the tests' keys are in every locale.\<close>

definition code_units :: "string \<Rightarrow> nat list" where
  "code_units s = map of_char s"

abbreviation posted :: "string \<Rightarrow> jsval \<Rightarrow> string" where
  "posted path body \<equiv> fingerprint_text code_units ''POST'' path body"

lemma spec_fingerprint_key_order:
  "posted ''/v1/events/1/bookings'' (JObj [(''userId'', JStr ''u1''), (''quantity'', JNum 2)]) =
   posted ''/v1/events/1/bookings'' (JObj [(''quantity'', JNum 2), (''userId'', JStr ''u1'')])"
  by (simp add: fingerprint_text_def code_units_def)

lemma spec_fingerprint_nested:
  "posted ''/x'' (JObj [(''seats'', JArr [JNum 1, JNum 2]), (''meta'', JObj [(''b'', JNum 1), (''a'', JNum 2)])]) =
   posted ''/x'' (JObj [(''meta'', JObj [(''a'', JNum 2), (''b'', JNum 1)]), (''seats'', JArr [JNum 1, JNum 2])])"
  by (simp add: fingerprint_text_def code_units_def)

lemma spec_fingerprint_payload:
  "posted ''/x'' (JObj [(''quantity'', JNum 1)]) \<noteq> posted ''/x'' (JObj [(''quantity'', JNum 2)])"
proof -
  have "JSON_stringify (JNum 1) \<noteq> JSON_stringify (JNum 2)" by code_simp
  then show ?thesis by (simp add: fingerprint_text_def)
qed

lemma spec_fingerprint_target:
  "posted ''/v1/events/1/bookings'' body \<noteq> posted ''/v1/events/2/bookings'' body"
  by (simp add: fingerprint_text_def)

end
