(* ===== verification/Player.thy ===== *)
theory Player
  imports Prelude
begin

section \<open>The player of the milestone pages\<close>

text \<open>
  \<open>visualizations/shared/milestone-player.js\<close>, which animates the scenarios of the pages that explain the
  system. The document is the record \<open>page\<close> of the elements the script writes, with their text and class;
  headings, markup that never changes and the quotation marks of the hint are left out. The browser keeps the intervals that are alive; a click on
  a disabled button is none. Percentages are rationals.
\<close>

subsection \<open>The data of a milestone\<close>

record flow_node =
  fn_name :: string
  fn_value :: string
  fn_description :: string

record concept =
  cn_q :: string
  cn_title :: string
  cn_state :: string
  cn_copy :: string
  cn_tone :: string

text \<open>\<open>tones\<close>, \<open>values\<close> and \<open>paths\<close> may be missing, which reads as an object without fields.\<close>

record frame =
  fr_active :: "nat set"
  fr_paths :: "nat set"
  fr_tones :: "nat \<Rightarrow> string option"
  fr_status :: "nat \<Rightarrow> string option"
  fr_values :: "nat \<Rightarrow> string option"
  fr_metrics :: "string list"
  fr_note :: string

record outcome =
  oc_tone :: string
  oc_title :: string
  oc_copy :: string

record scenario =
  md_label :: string
  md_tone :: string
  md_startCopy :: string
  md_concepts :: "concept list"
  md_metrics :: "(string \<times> string) list"
  md_frames :: "frame list"
  md_result :: outcome

record milestone =
  ms_flow :: "flow_node list"
  ms_modes :: "scenario list"

subsection \<open>The document\<close>

record stage_node =
  sn_class :: string
  sn_index :: string
  sn_name :: string
  sn_value :: string
  sn_status :: string

datatype play_label = PlayAnimation | Playing | Replay

text \<open>The text of a metric is \<open>None\<close> while it shows the dash.\<close>

record page =
  pg_flow :: "(string \<times> string \<times> string) list"
  pg_modes :: "(string \<times> string \<times> bool) list"
  pg_concepts :: "(string \<times> concept) list"
  pg_nodes :: "stage_node list"
  pg_arrows :: "string list"
  pg_metrics :: "(string \<times> string option) list"
  pg_step :: "nat \<times> nat"
  pg_narration :: string
  pg_progress :: rat
  pg_live :: string
  pg_result_class :: string
  pg_result_title :: string
  pg_result_copy :: string
  pg_play_disabled :: bool
  pg_play_text :: play_label

record player =
  pl_page :: page
  pl_modeIndex :: nat
  pl_frameIndex :: int
  pl_timer :: "nat option"
  pl_alive :: "nat set"
  pl_next :: nat

definition clearInterval :: "nat option \<Rightarrow> player \<Rightarrow> player" where
  "clearInterval t p = p\<lparr>pl_alive := pl_alive p - set_option t\<rparr>"

definition setInterval :: "player \<Rightarrow> player" where
  "setInterval p = p\<lparr>pl_timer := Some (pl_next p), pl_alive := insert (pl_next p) (pl_alive p), pl_next := pl_next p + 1\<rparr>"

text \<open>The cards of a flow, plain and animated; there is an arrow behind every node but the last.\<close>

definition flowMarkup :: "flow_node list \<Rightarrow> (string \<times> string \<times> string) list" where
  "flowMarkup ns = map (\<lambda>n. (fn_name n, fn_value n, fn_description n)) ns"

definition stageMarkup :: "flow_node list \<Rightarrow> stage_node list \<times> string list" where
  "stageMarkup ns =
     (map (\<lambda>i. \<lparr>sn_class = ''stage-node'', sn_index = ''0'' @ nat_str (i + 1), sn_name = fn_name (ns ! i),
        sn_value = fn_value (ns ! i), sn_status = ''Idle''\<rparr>) [0..<length ns],
      replicate (length ns - 1) ''stage-arrow'')"

definition modesMarkup :: "scenario list \<Rightarrow> (string \<times> string \<times> bool) list" where
  "modesMarkup ms = map (\<lambda>i. (md_label (ms ! i), md_tone (ms ! i), i = 0)) [0..<length ms]"

definition selectedMode :: "milestone \<Rightarrow> player \<Rightarrow> scenario option" where
  "selectedMode M p = (if pl_modeIndex p < length (ms_modes M) then Some (ms_modes M ! pl_modeIndex p) else None)"

definition type_error :: err where
  "type_error = JsError ''TypeError''"

text \<open>\<open>renderConcepts\<close>, and what \<open>reset\<close> writes after it.\<close>

definition renderConcepts :: "scenario \<Rightarrow> page \<Rightarrow> page" where
  "renderConcepts mode g = g\<lparr>pg_concepts := map (\<lambda>c. (''concept '' @ cn_tone c, c)) (md_concepts mode)\<rparr>"

definition reset_page :: "milestone \<Rightarrow> scenario \<Rightarrow> page \<Rightarrow> page" where
  "reset_page M mode g = (renderConcepts mode g)
     \<lparr>pg_nodes := map2 (\<lambda>f n. n\<lparr>sn_class := ''stage-node'', sn_value := fn_value f, sn_status := ''Idle''\<rparr>)
        (ms_flow M) (pg_nodes g),
      pg_arrows := map (\<lambda>_. ''stage-arrow'') (pg_arrows g),
      pg_metrics := map (\<lambda>(label, _). (label, None)) (md_metrics mode),
      pg_step := (0, length (md_frames mode)),
      pg_narration := ''Select Play animation to run this scenario.'',
      pg_progress := 0, pg_result_class := ''result'', pg_result_title := ''Not started'',
      pg_result_copy := md_startCopy mode, pg_play_disabled := False, pg_play_text := PlayAnimation\<rparr>"

text \<open>A function of the script answers what it has thrown, if anything, beside what it has done by then.\<close>

definition reset :: "milestone \<Rightarrow> player \<Rightarrow> err option \<times> player" where
  "reset M p =
     (let p = (clearInterval (pl_timer p) p)\<lparr>pl_timer := None, pl_frameIndex := - 1\<rparr> in
      case selectedMode M p of
        None \<Rightarrow> (Some type_error, p)
      | Some mode \<Rightarrow> (None, p\<lparr>pl_page := reset_page M mode (pl_page p)\<rparr>))"

text \<open>What \<open>drawFrame\<close> writes; the last frame shows the result.\<close>

definition draw_node :: "frame \<Rightarrow> nat \<Rightarrow> stage_node \<Rightarrow> stage_node" where
  "draw_node frame i n =
     n\<lparr>sn_class := trim (''stage-node '' @ (if i \<in> fr_active frame then ''active'' else []) @ '' '' @ orElse (fr_tones frame i) []),
       sn_status := orElse (fr_status frame i) ''Idle'', sn_value := orElse (fr_values frame i) (sn_value n)\<rparr>"

definition draw_steps :: "scenario \<Rightarrow> nat \<Rightarrow> frame \<Rightarrow> page \<Rightarrow> page" where
  "draw_steps mode index frame g = g
     \<lparr>pg_nodes := map2 (draw_node frame) [0..<length (pg_nodes g)] (pg_nodes g),
      pg_arrows := map (\<lambda>i. ''stage-arrow '' @ (if i \<in> fr_paths frame then ''active'' else [])) [0..<length (pg_arrows g)],
      pg_metrics := map (\<lambda>i. (fst (pg_metrics g ! i), Some (if i < length (fr_metrics frame) then fr_metrics frame ! i else [])))
        [0..<length (pg_metrics g)],
      pg_step := (index + 1, length (md_frames mode)), pg_narration := fr_note frame,
      pg_progress := (of_nat (index + 1) / of_nat (length (md_frames mode))) * 100, pg_live := fr_note frame\<rparr>"

definition draw_result :: "outcome \<Rightarrow> page \<Rightarrow> page" where
  "draw_result r g = g
     \<lparr>pg_result_class := ''result '' @ oc_tone r, pg_result_title := oc_title r, pg_result_copy := oc_copy r,
      pg_play_disabled := False, pg_play_text := Replay\<rparr>"

text \<open>A frame that is not there is noticed where its fields are read first.\<close>

definition drawFrame :: "milestone \<Rightarrow> nat \<Rightarrow> player \<Rightarrow> err option \<times> player" where
  "drawFrame M index p =
     (case selectedMode M p of
        None \<Rightarrow> (Some type_error, p)
      | Some mode \<Rightarrow>
          if index < length (md_frames mode) then
            let frame = md_frames mode ! index; p = p\<lparr>pl_page := draw_steps mode index frame (pl_page p)\<rparr> in
            if index = length (md_frames mode) - 1
            then (None, (clearInterval (pl_timer p) (p\<lparr>pl_page := draw_result (md_result mode) (pl_page p)\<rparr>))\<lparr>pl_timer := None\<rparr>)
            else (None, p)
          else if pg_nodes (pl_page p) = [] \<and> pg_metrics (pl_page p) = []
          then (Some type_error, p\<lparr>pl_page := (pl_page p)\<lparr>pg_step := (index + 1, length (md_frames mode))\<rparr>\<rparr>)
          else (Some type_error, p))"

definition play :: "milestone \<Rightarrow> player \<Rightarrow> err option \<times> player" where
  "play M p =
     (case reset M p of
        (Some e, p) \<Rightarrow> (Some e, p)
      | (None, p) \<Rightarrow>
          let p = p\<lparr>pl_page := (pl_page p)\<lparr>pg_play_disabled := True, pg_play_text := Playing\<rparr>, pl_frameIndex := 0\<rparr> in
          case drawFrame M 0 p of
            (Some e, p) \<Rightarrow> (Some e, p)
          | (None, p) \<Rightarrow> (None, setInterval p))"

text \<open>The callback of the interval.\<close>

definition tick :: "milestone \<Rightarrow> player \<Rightarrow> err option \<times> player" where
  "tick M p =
     (let p = p\<lparr>pl_frameIndex := pl_frameIndex p + 1\<rparr> in
      case selectedMode M p of
        None \<Rightarrow> (Some type_error, p)
      | Some mode \<Rightarrow> if pl_frameIndex p < int (length (md_frames mode)) then drawFrame M (nat (pl_frameIndex p)) p else (None, p))"

definition choose_mode :: "milestone \<Rightarrow> nat \<Rightarrow> player \<Rightarrow> err option \<times> player" where
  "choose_mode M i p =
     reset M (p\<lparr>pl_modeIndex := i, pl_page := (pl_page p)\<lparr>pg_modes :=
       map (\<lambda>j. case pg_modes (pl_page p) ! j of (label, tone, _) \<Rightarrow> (label, tone, j = i)) [0..<length (pg_modes (pl_page p))]\<rparr>\<rparr>)"

text \<open>The script when it is loaded; without data for the page it throws.\<close>

definition load_player :: "milestone option \<Rightarrow> err + err option \<times> player" where
  "load_player data =
     (case data of
        None \<Rightarrow> Inl (JsError ''Missing visualization data'')
      | Some M \<Rightarrow> Inr (reset M
          \<lparr>pl_page = \<lparr>pg_flow = flowMarkup (ms_flow M), pg_modes = modesMarkup (ms_modes M), pg_concepts = [],
             pg_nodes = fst (stageMarkup (ms_flow M)), pg_arrows = snd (stageMarkup (ms_flow M)), pg_metrics = [],
             pg_step = (0, 0), pg_narration = [], pg_progress = 0, pg_live = [], pg_result_class = ''result'',
             pg_result_title = [], pg_result_copy = [], pg_play_disabled = False, pg_play_text = PlayAnimation\<rparr>,
           pl_modeIndex = 0, pl_frameIndex = - 1, pl_timer = None, pl_alive = {}, pl_next = 0\<rparr>))"

text \<open>What can happen to a loaded page.\<close>

inductive player_step :: "milestone \<Rightarrow> player \<Rightarrow> player \<Rightarrow> bool" for M where
  on_mode: "i < length (pg_modes (pl_page p)) \<Longrightarrow> player_step M p (snd (choose_mode M i p))"
| on_play: "\<not> pg_play_disabled (pl_page p) \<Longrightarrow> player_step M p (snd (play M p))"
| on_tick: "t \<in> pl_alive p \<Longrightarrow> player_step M p (snd (tick M p))"

inductive player_run :: "milestone \<Rightarrow> player \<Rightarrow> bool" for M where
  loaded: "load_player (Some M) = Inr (x, p) \<Longrightarrow> player_run M p"
| moved: "player_run M p \<Longrightarrow> player_step M p p' \<Longrightarrow> player_run M p'"

subsection \<open>One animation at a time\<close>

definition frames_of :: "milestone \<Rightarrow> player \<Rightarrow> frame list" where
  "frames_of M p = (case selectedMode M p of Some mode \<Rightarrow> md_frames mode | None \<Rightarrow> [])"

definition in_progress :: "milestone \<Rightarrow> player \<Rightarrow> bool" where
  "in_progress M p \<longleftrightarrow> pg_play_disabled (pl_page p) \<and> 0 \<le> pl_frameIndex p \<and> pl_frameIndex p + 1 < int (length (frames_of M p))"

definition player_ok :: "milestone \<Rightarrow> player \<Rightarrow> bool" where
  "player_ok M p \<longleftrightarrow> pl_modeIndex p < length (ms_modes M) \<and> length (pg_modes (pl_page p)) = length (ms_modes M)
     \<and> pl_alive p = set_option (pl_timer p)
     \<and> (if pl_timer p = None then \<not> pg_play_disabled (pl_page p) else in_progress M p)"

lemma page_frames [simp]:
  "pg_modes (reset_page M mode g) = pg_modes g" "pg_modes (draw_steps mode i f g) = pg_modes g"
  "pg_modes (draw_result r g) = pg_modes g" "pg_play_disabled (reset_page M mode g) = False"
  "pg_play_disabled (draw_steps mode i f g) = pg_play_disabled g" "pg_play_disabled (draw_result r g) = False"
  by (simp_all add: reset_page_def renderConcepts_def draw_steps_def draw_result_def)

lemma reset_selected:
  assumes "pl_modeIndex p < length (ms_modes M)" and "pl_alive p = set_option (pl_timer p)"
  shows "reset M p = (None, p\<lparr>pl_alive := {}, pl_timer := None, pl_frameIndex := - 1,
     pl_page := reset_page M (ms_modes M ! pl_modeIndex p) (pl_page p)\<rparr>)"
  using assms by (simp add: reset_def clearInterval_def selectedMode_def)

lemma draw_selected:
  assumes "pl_modeIndex p < length (ms_modes M)" and "md_frames (ms_modes M ! pl_modeIndex p) = fs" and "i < length fs"
  shows "drawFrame M i p =
    (let g = draw_steps (ms_modes M ! pl_modeIndex p) i (fs ! i) (pl_page p) in
     if i = length fs - 1
     then (None, p\<lparr>pl_page := draw_result (md_result (ms_modes M ! pl_modeIndex p)) g, pl_timer := None,
            pl_alive := pl_alive p - set_option (pl_timer p)\<rparr>)
     else (None, p\<lparr>pl_page := g\<rparr>))"
  using assms by (simp add: drawFrame_def selectedMode_def clearInterval_def Let_def)

text \<open>Every scenario has at least two frames, as those of the pages have.\<close>

definition animated :: "milestone \<Rightarrow> bool" where
  "animated M \<longleftrightarrow> ms_modes M \<noteq> [] \<and> (\<forall>m \<in> set (ms_modes M). 2 \<le> length (md_frames m))"

lemma animated_frames:
  assumes "animated M" "i < length (ms_modes M)"
  shows "2 \<le> length (md_frames (ms_modes M ! i))"
  using assms by (simp add: animated_def)

lemma play_starts:
  assumes "animated M" "player_ok M p"
  defines "mode \<equiv> ms_modes M ! pl_modeIndex p"
  shows "play M p = (None, p\<lparr>pl_frameIndex := 0, pl_timer := Some (pl_next p), pl_alive := {pl_next p},
    pl_next := pl_next p + 1,
    pl_page := draw_steps mode 0 (md_frames mode ! 0)
      ((reset_page M mode (pl_page p))\<lparr>pg_play_disabled := True, pg_play_text := Playing\<rparr>)\<rparr>)"
proof -
  have i: "pl_modeIndex p < length (ms_modes M)" and a: "pl_alive p = set_option (pl_timer p)"
    using assms(2) by (simp_all add: player_ok_def)
  have two: "2 \<le> length (md_frames mode)" unfolding mode_def by (rule animated_frames [OF assms(1) i])
  then have last: "0 \<noteq> length (md_frames mode) - 1" and z: "0 < length (md_frames mode)" by linarith+
  let ?q = "p\<lparr>pl_alive := {}, pl_timer := None, pl_frameIndex := 0,
     pl_page := (reset_page M mode (pl_page p))\<lparr>pg_play_disabled := True, pg_play_text := Playing\<rparr>\<rparr>"
  have "drawFrame M 0 ?q = (None, ?q\<lparr>pl_page := draw_steps mode 0 (md_frames mode ! 0) (pl_page ?q)\<rparr>)"
    using draw_selected [of ?q M "md_frames mode" 0] i z last by (simp add: mode_def Let_def)
  then show ?thesis
    unfolding play_def reset_selected [OF i a] mode_def by (cases p) (simp add: setInterval_def Let_def)
qed

text \<open>The state after a tick that draws frame \<open>k\<close>.\<close>

definition ticked :: "scenario \<Rightarrow> nat \<Rightarrow> player \<Rightarrow> player" where
  "ticked mode k p =
     (let g = draw_steps mode k (md_frames mode ! k) (pl_page p) in
      if k = length (md_frames mode) - 1
      then p\<lparr>pl_page := draw_result (md_result mode) g, pl_frameIndex := int k, pl_timer := None, pl_alive := {}\<rparr>
      else p\<lparr>pl_page := g, pl_frameIndex := int k\<rparr>)"

lemma tick_draws:
  assumes "player_ok M p" and "pl_timer p = Some t" and "pl_frameIndex p + 1 = int k"
  shows "tick M p = (None, ticked (ms_modes M ! pl_modeIndex p) k p)"
proof -
  let ?mode = "ms_modes M ! pl_modeIndex p"
  have i: "pl_modeIndex p < length (ms_modes M)" and a: "pl_alive p = {t}"
    and run: "in_progress M p" using assms(1,2) by (simp_all add: player_ok_def)
  then have k: "k < length (md_frames ?mode)"
    using assms(3) by (simp add: in_progress_def frames_of_def selectedMode_def)
  have "tick M p = drawFrame M k (p\<lparr>pl_frameIndex := int k\<rparr>)"
    using i k by (simp add: tick_def selectedMode_def assms(3))
  also have "\<dots> = (None, ticked ?mode k p)"
    using draw_selected [of "p\<lparr>pl_frameIndex := int k\<rparr>" M "md_frames ?mode" k] i k a assms(2)
    by (cases p) (simp add: ticked_def Let_def)
  finally show ?thesis .
qed

lemma choose_mode_ok:
  assumes "player_ok M p" "i < length (pg_modes (pl_page p))"
  shows "player_ok M (snd (choose_mode M i p))"
  using assms by (simp add: choose_mode_def reset_selected player_ok_def)

lemma play_ok:
  assumes "animated M" "player_ok M p"
  shows "player_ok M (snd (play M p))"
proof -
  have i: "pl_modeIndex p < length (ms_modes M)" using assms(2) by (simp add: player_ok_def)
  from animated_frames [OF assms(1) i] assms(2) show ?thesis
    by (simp add: play_starts [OF assms] player_ok_def in_progress_def frames_of_def selectedMode_def)
qed

lemma tick_ok:
  assumes "player_ok M p" "t \<in> pl_alive p"
  shows "player_ok M (snd (tick M p))"
proof -
  have t: "pl_timer p = Some t" using assms by (auto simp: player_ok_def)
  then have run: "in_progress M p" and i: "pl_modeIndex p < length (ms_modes M)"
    using assms(1) by (simp_all add: player_ok_def)
  then obtain k where k: "pl_frameIndex p + 1 = int k"
    by (metis in_progress_def add_nonneg_nonneg nonneg_int_cases zero_le_one)
  show ?thesis
    using assms(1) run i t k
    by (auto simp: tick_draws [OF assms(1) t k] ticked_def Let_def player_ok_def in_progress_def frames_of_def selectedMode_def)
qed

lemma load_ok: "ms_modes M \<noteq> [] \<Longrightarrow> load_player (Some M) = Inr (x, p) \<Longrightarrow> player_ok M p"
  by (auto simp: load_player_def reset_selected player_ok_def modesMarkup_def)

lemma player_run_ok: "player_run M p \<Longrightarrow> animated M \<Longrightarrow> player_ok M p"
proof (induction rule: player_run.induct)
  case (loaded x p)
  then show ?case by (auto intro: load_ok simp: animated_def)
next
  case (moved p p')
  from moved(2) show ?case
    using moved(3) [OF moved(4)] by cases (auto intro: choose_mode_ok play_ok moved(4) dest: tick_ok)
qed

text \<open>
  At most one interval is alive, and the button can be clicked exactly when none is: however modes are chosen
  and the animation is started, two animations never run into each other.
\<close>

theorem one_animation:
  assumes "animated M" and "player_run M p"
  shows "pl_alive p = set_option (pl_timer p) \<and> (pg_play_disabled (pl_page p) \<longleftrightarrow> pl_timer p \<noteq> None)"
  using player_run_ok [OF assms(2,1)] by (auto simp: player_ok_def in_progress_def split: if_splits)

subsection \<open>All frames, and then the result\<close>

definition ticks :: "milestone \<Rightarrow> nat \<Rightarrow> player \<Rightarrow> player" where
  "ticks M k p = ((\<lambda>p. snd (tick M p)) ^^ k) p"

definition play_page :: "milestone \<Rightarrow> scenario \<Rightarrow> page \<Rightarrow> page" where
  "play_page M mode g = (reset_page M mode g)\<lparr>pg_play_disabled := True, pg_play_text := Playing\<rparr>"

definition frames_drawn :: "scenario \<Rightarrow> nat \<Rightarrow> page \<Rightarrow> page" where
  "frames_drawn mode k g = fold (\<lambda>i. draw_steps mode i (md_frames mode ! i)) [0..<k] g"

lemma frames_drawn_Suc: "frames_drawn mode (Suc k) g = draw_steps mode k (md_frames mode ! k) (frames_drawn mode k g)"
  by (simp add: frames_drawn_def)

lemma frames_drawn_modes [simp]:
  "pg_modes (frames_drawn mode k g) = pg_modes g" "pg_play_disabled (frames_drawn mode k g) = pg_play_disabled g"
  by (induction k) (simp_all add: frames_drawn_Suc, simp_all add: frames_drawn_def)

text \<open>What is shown after \<open>k\<close> ticks.\<close>

lemma ticks_draw:
  assumes "animated M" "player_ok M p" and "k + 1 < length (md_frames (ms_modes M ! pl_modeIndex p))"
  defines "mode \<equiv> ms_modes M ! pl_modeIndex p"
  shows "ticks M k (snd (play M p)) = p\<lparr>pl_frameIndex := int k, pl_timer := Some (pl_next p), pl_alive := {pl_next p},
    pl_next := pl_next p + 1, pl_page := frames_drawn mode (k + 1) (play_page M mode (pl_page p))\<rparr>"
  using assms(3)
proof (induction k)
  case 0
  then show ?case
    by (simp add: ticks_def play_starts [OF assms(1,2)] mode_def play_page_def frames_drawn_def)
next
  case (Suc k)
  let ?q = "p\<lparr>pl_frameIndex := int k, pl_timer := Some (pl_next p), pl_alive := {pl_next p},
    pl_next := pl_next p + 1, pl_page := frames_drawn mode (k + 1) (play_page M mode (pl_page p))\<rparr>"
  have q: "ticks M k (snd (play M p)) = ?q" using Suc by simp
  have ok: "player_ok M ?q"
    using assms(2) Suc.prems
    by (simp add: player_ok_def in_progress_def frames_of_def selectedMode_def play_page_def mode_def)
  have "tick M ?q = (None, ticked mode (Suc k) ?q)"
    using tick_draws [OF ok, of "pl_next p" "Suc k"] by (simp add: mode_def)
  then have "ticks M (Suc k) (snd (play M p)) = ticked mode (Suc k) ?q" using q by (simp add: ticks_def)
  with Suc.prems show ?case by (cases p) (simp add: ticked_def frames_drawn_Suc mode_def Let_def)
qed

text \<open>
  One click on the button plays the whole scenario: with \<open>n\<close> frames, the first is drawn at once and one more
  with each of \<open>n - 1\<close> ticks; then the result is shown, the button is back and no interval is left.
\<close>

theorem play_shows_every_frame:
  assumes "animated M" and "player_run M p" and "selectedMode M p = Some mode"
  shows "ticks M (length (md_frames mode) - 1) (snd (play M p)) =
    p\<lparr>pl_frameIndex := int (length (md_frames mode)) - 1, pl_timer := None, pl_alive := {}, pl_next := pl_next p + 1,
      pl_page := draw_result (md_result mode)
        (frames_drawn mode (length (md_frames mode)) (play_page M mode (pl_page p)))\<rparr>"
proof -
  have ok: "player_ok M p" by (rule player_run_ok [OF assms(2,1)])
  then have mode: "mode = ms_modes M ! pl_modeIndex p" and i: "pl_modeIndex p < length (ms_modes M)"
    using assms(3) by (auto simp: player_ok_def selectedMode_def split: if_splits)
  from animated_frames [OF assms(1) i] obtain k where n: "length (md_frames mode) = Suc (Suc k)"
    by (metis mode add_2_eq_Suc le_Suc_ex)
  let ?q = "p\<lparr>pl_frameIndex := int k, pl_timer := Some (pl_next p), pl_alive := {pl_next p},
    pl_next := pl_next p + 1, pl_page := frames_drawn mode (k + 1) (play_page M mode (pl_page p))\<rparr>"
  have q: "ticks M k (snd (play M p)) = ?q" using ticks_draw [OF assms(1) ok, of k] n by (simp add: mode)
  have okq: "player_ok M ?q"
    using ok n by (simp add: player_ok_def in_progress_def frames_of_def selectedMode_def play_page_def mode)
  have "tick M ?q = (None, ticked mode (Suc k) ?q)"
    using tick_draws [OF okq, of "pl_next p" "Suc k"] by (simp add: mode)
  then have "ticks M (Suc k) (snd (play M p)) = ticked mode (Suc k) ?q" using q by (simp add: ticks_def)
  then show ?thesis by (cases p) (simp add: n ticked_def frames_drawn_Suc Let_def)
qed

text \<open>
  With a single frame the result is drawn before the interval is set, and nothing clears it: it ticks on,
  without effect on the page, until a scenario is chosen or played.
\<close>

theorem single_frame_keeps_ticking:
  assumes i: "pl_modeIndex p < length (ms_modes M)" and one: "length (md_frames (ms_modes M ! pl_modeIndex p)) = 1"
    and a: "pl_alive p = set_option (pl_timer p)"
  shows "pl_alive (ticks M k (snd (play M p))) = {pl_next p}
    \<and> pl_page (ticks M k (snd (play M p))) = pl_page (snd (play M p)) \<and> \<not> pg_play_disabled (pl_page (snd (play M p)))"
proof -
  let ?mode = "ms_modes M ! pl_modeIndex p"
  let ?p = "p\<lparr>pl_alive := {}, pl_timer := None, pl_frameIndex := 0,
     pl_page := (reset_page M ?mode (pl_page p))\<lparr>pg_play_disabled := True, pg_play_text := Playing\<rparr>\<rparr>"
  define q where "q = snd (play M p)"
  have d: "drawFrame M 0 ?p = (None, ?p\<lparr>pl_page :=
      draw_result (md_result ?mode) (draw_steps ?mode 0 (md_frames ?mode ! 0) (pl_page ?p))\<rparr>)"
    using draw_selected [of ?p M "md_frames ?mode" 0] i one length_greater_0_conv [of "md_frames ?mode"]
    by (cases p) (simp add: Let_def)
  have "play M p = (None, setInterval (snd (drawFrame M 0 ?p)))"
    unfolding play_def reset_selected [OF i a] using d by (cases p) (simp add: Let_def)
  then have q: "pl_alive q = {pl_next p}" "pl_frameIndex q = 0" "pl_modeIndex q = pl_modeIndex p"
      "\<not> pg_play_disabled (pl_page q)"
    by (simp_all add: q_def d setInterval_def)
  have "ticks M k q = q\<lparr>pl_frameIndex := int k\<rparr>"
  proof (induction k)
    case 0
    with q show ?case by (simp add: ticks_def)
  next
    case (Suc k)
    with q i one show ?case by (simp add: ticks_def tick_def selectedMode_def)
  qed
  with q show ?thesis by (simp add: q_def)
qed

end
