(* ===== verification/Store.thy ===== *)
theory Store
  imports Prelude
begin

section \<open>The tables\<close>

text \<open>
  The rows of \<open>*.entity.ts\<close>, the constraints of \<open>migrations/\<close> and the response objects built
  from rows (\<open>*-response.dto.ts\<close>). A \<open>db\<close> is the committed content of the five tables. Columns of
  type \<open>integer\<close> hold 32-bit values: a statement that would store anything else fails. A \<open>jsonb\<close> column keeps
  the JSON value; that PostgreSQL rearranges the fields of its objects is not modelled.
\<close>

record event_row =
  ev_id :: uuid
  ev_name :: string
  ev_venue :: string
  ev_totalSeats :: int
  ev_availableSeats :: int
  ev_priceCents :: int
  ev_startsAt :: ms
  ev_version :: int
  ev_createdAt :: ms
  ev_updatedAt :: ms

datatype booking_status = Confirmed | Cancelled

record booking_row =
  bk_id :: uuid
  bk_eventId :: uuid
  bk_userId :: string
  bk_quantity :: int
  bk_status :: booking_status
  bk_idempotencyKey :: "string option"
  bk_createdAt :: ms
  bk_updatedAt :: ms

datatype outbox_status = Pending | Published | Failed

record outbox_row =
  ob_id :: uuid
  ob_aggregateType :: string
  ob_aggregateId :: string
  ob_eventType :: string
  ob_topic :: string
  ob_messageKey :: string
  ob_payload :: jsval
  ob_status :: outbox_status
  ob_attempts :: int
  ob_availableAt :: ms
  ob_publishedAt :: "ms option"
  ob_lastError :: "string option"
  ob_createdAt :: ms

datatype idem_status = InProgress | Completed

record idem_row =
  ik_key :: string
  ik_endpoint :: string
  ik_requestHash :: string
  ik_status :: idem_status
  ik_responseStatus :: "int option"
  ik_responseBody :: "jsval option"
  ik_createdAt :: ms
  ik_expiresAt :: ms

record processed_row =
  pm_messageId :: string
  pm_consumerGroup :: string
  pm_eventType :: string
  pm_processedAt :: ms

record db =
  t_events :: "event_row list"
  t_bookings :: "booking_row list"
  t_outbox :: "outbox_row list"
  t_idempotency :: "idem_row list"
  t_processed :: "processed_row list"

subsection \<open>Column constraints\<close>

definition pg_int :: "int \<Rightarrow> bool" where
  "pg_int i \<longleftrightarrow> - (2 ^ 31) \<le> i \<and> i < 2 ^ 31"

text \<open>The \<open>events\<close> table, deliberately without a check on \<open>available_seats\<close>.\<close>

definition event_fits :: "event_row \<Rightarrow> bool" where
  "event_fits r \<longleftrightarrow> length (ev_name r) \<le> 200 \<and> length (ev_venue r) \<le> 200
     \<and> pg_int (ev_totalSeats r) \<and> pg_int (ev_availableSeats r)
     \<and> pg_int (ev_priceCents r) \<and> pg_int (ev_version r)"

definition find_event :: "uuid \<Rightarrow> db \<Rightarrow> event_row option" where
  "find_event e d = find (\<lambda>r. ev_id r = e) (t_events d)"

text \<open>The \<open>bookings\<close> table: the reference to \<open>events\<close> and \<open>CHECK (quantity > 0)\<close>.\<close>

definition booking_fits :: "db \<Rightarrow> booking_row \<Rightarrow> bool" where
  "booking_fits d b \<longleftrightarrow> bk_id b \<notin> bk_id ` set (t_bookings d) \<and> find_event (bk_eventId b) d \<noteq> None
     \<and> length (bk_userId b) \<le> 100 \<and> pg_int (bk_quantity b) \<and> 0 < bk_quantity b
     \<and> (case bk_idempotencyKey b of None \<Rightarrow> True | Some k \<Rightarrow> length k \<le> 200)"

definition outbox_fits :: "db \<Rightarrow> outbox_row \<Rightarrow> bool" where
  "outbox_fits d r \<longleftrightarrow> ob_id r \<notin> ob_id ` set (t_outbox d)
     \<and> length (ob_aggregateType r) \<le> 100 \<and> length (ob_aggregateId r) \<le> 100
     \<and> length (ob_eventType r) \<le> 100 \<and> length (ob_topic r) \<le> 200
     \<and> length (ob_messageKey r) \<le> 200 \<and> pg_int (ob_attempts r)"

definition QueryFailedError :: err where
  "QueryFailedError = JsError ''QueryFailedError''"

text \<open>\<open>LIMIT n\<close>: PostgreSQL refuses a negative limit; for 0 the query builder writes no clause.\<close>

definition sql_limit :: "int \<Rightarrow> 'a list \<Rightarrow> err + 'a list" where
  "sql_limit n rows =
     (if n < 0 then Inl QueryFailedError else if n = 0 then Inr rows else Inr (List.take (nat n) rows))"

subsection \<open>Request and response objects\<close>

record create_booking_dto =
  cb_userId :: string
  cb_quantity :: int

text \<open>The decorators of \<open>CreateBookingDto\<close>: \<open>Length(1, 100)\<close>, \<open>IsInt\<close>, \<open>Min(1)\<close>, \<open>Max(10)\<close>.\<close>

definition valid_booking_dto :: "create_booking_dto \<Rightarrow> bool" where
  "valid_booking_dto dto \<longleftrightarrow> 1 \<le> length (cb_userId dto) \<and> length (cb_userId dto) \<le> 100
     \<and> 1 \<le> cb_quantity dto \<and> cb_quantity dto \<le> 10"

definition status_name :: "booking_status \<Rightarrow> string" where
  "status_name s = (case s of Confirmed \<Rightarrow> ''confirmed'' | Cancelled \<Rightarrow> ''cancelled'')"

record booking_response =
  br_id :: uuid
  br_eventId :: uuid
  br_userId :: string
  br_quantity :: int
  br_status :: string
  br_seatsRemaining :: int
  br_lockStrategy :: string
  br_createdAt :: string

definition booking_response_from :: "booking_row \<Rightarrow> int \<Rightarrow> string \<Rightarrow> booking_response" where
  "booking_response_from booking seatsRemaining strategy =
     \<lparr>br_id = bk_id booking, br_eventId = bk_eventId booking, br_userId = bk_userId booking,
      br_quantity = bk_quantity booking, br_status = status_name (bk_status booking),
      br_seatsRemaining = seatsRemaining, br_lockStrategy = strategy,
      br_createdAt = toISOString (bk_createdAt booking)\<rparr>"

record event_response =
  er_id :: uuid
  er_name :: string
  er_venue :: string
  er_totalSeats :: int
  er_availableSeats :: int
  er_priceCents :: int
  er_startsAt :: string
  er_version :: int
  er_createdAt :: string

definition event_response_from :: "event_row \<Rightarrow> event_response" where
  "event_response_from event =
     \<lparr>er_id = ev_id event, er_name = ev_name event, er_venue = ev_venue event,
      er_totalSeats = ev_totalSeats event, er_availableSeats = ev_availableSeats event,
      er_priceCents = ev_priceCents event, er_startsAt = toISOString (ev_startsAt event),
      er_version = ev_version event, er_createdAt = toISOString (ev_createdAt event)\<rparr>"

record seat_integrity =
  si_eventId :: uuid
  si_totalSeats :: int
  si_availableSeats :: int
  si_confirmedSeats :: int
  si_oversoldBy :: int
  si_counterDrift :: bool

subsection \<open>Seats sold\<close>

text \<open>\<open>SUM(quantity) WHERE event_id = e AND status = 'confirmed'\<close>, 0 when there is no row.\<close>

definition sold :: "uuid \<Rightarrow> booking_row list \<Rightarrow> int" where
  "sold e bs = sum_list (map bk_quantity (filter (\<lambda>b. bk_eventId b = e \<and> bk_status b = Confirmed) bs))"

lemma sold_Nil [simp]: "sold e [] = 0"
  by (simp add: sold_def)

lemma sold_append [simp]: "sold e (xs @ ys) = sold e xs + sold e ys"
  by (simp add: sold_def)

lemma sold_Cons: "sold e (b # bs) =
    (if bk_eventId b = e \<and> bk_status b = Confirmed then bk_quantity b else 0) + sold e bs"
  by (simp add: sold_def)

lemma sold_nonneg: "(\<And>b. b \<in> set bs \<Longrightarrow> 0 \<le> bk_quantity b) \<Longrightarrow> 0 \<le> sold e bs"
  unfolding sold_def by (rule sum_list_nonneg_filter)

lemma find_event_id: "find_event e d = Some r \<Longrightarrow> ev_id r = e"
  by (auto simp: find_event_def dest: find_SomeD)

lemma find_event_in: "find_event e d = Some r \<Longrightarrow> r \<in> set (t_events d)"
  by (auto simp: find_event_def dest: find_SomeD)

lemma find_event_unique:
  "distinct (map ev_id (t_events d)) \<Longrightarrow> r \<in> set (t_events d) \<Longrightarrow> find_event (ev_id r) d = Some r"
  by (simp add: find_event_def find_unique)

lemma find_event_append:
  "find_event e (d\<lparr>t_events := t_events d @ [r]\<rparr>) =
     (case find_event e d of Some x \<Rightarrow> Some x | None \<Rightarrow> if ev_id r = e then Some r else None)"
proof -
  have "find P (xs @ [y]) = (case find P xs of Some x \<Rightarrow> Some x | None \<Rightarrow> if P y then Some y else None)"
    for P and xs :: "event_row list" and y by (induction xs) auto
  then show ?thesis by (simp add: find_event_def)
qed

text \<open>
  The seat ledger is right when no counter is negative and, for every event, the counter and the
  confirmed bookings add up to the seats the event was created with.
\<close>

definition ledger_ok :: "db \<Rightarrow> bool" where
  "ledger_ok d \<longleftrightarrow> distinct (map ev_id (t_events d))
     \<and> (\<forall>r \<in> set (t_events d). 0 \<le> ev_availableSeats r
          \<and> ev_availableSeats r + sold (ev_id r) (t_bookings d) = ev_totalSeats r)
     \<and> (\<forall>b \<in> set (t_bookings d). 0 < bk_quantity b \<and> find_event (bk_eventId b) d \<noteq> None)"

lemma ledger_okD:
  assumes "ledger_ok d" "find_event e d = Some r"
  shows "0 \<le> ev_availableSeats r" "ev_availableSeats r + sold e (t_bookings d) = ev_totalSeats r"
  using assms find_event_in [OF assms(2)] find_event_id [OF assms(2)]
  by (auto simp: ledger_ok_def)

end
