(* ===== verification/Transactions.thy ===== *)
theory Transactions
  imports Store
begin

section \<open>Transactions: programs of statements, alone and interleaved\<close>

text \<open>
  The body of \<open>dataSource.transaction(async (manager) => ...)\<close> is a sequence of awaited statements,
  each of which may be followed by any statement of any other transaction. A body is therefore a
  tree of statements (\<open>tx\<close>): what to run next is a function of the answer of the statement before,
  as in the source. Two semantics read the same tree: \<open>transaction\<close> runs it alone, and \<open>tx_exec\<close>
  runs one statement of one of many transactions, under PostgreSQL's READ COMMITTED rules:

    \<^item> a plain read sees the committed row, or the transaction's own version of it;
    \<^item> \<open>FOR UPDATE\<close> and \<open>UPDATE\<close> take the row's lock, wait while another transaction holds it,
      and then see the row as committed last;
    \<^item> writes are private until the commit, which publishes them all and drops the locks;
    \<^item> an exception or a failed statement rolls back: the writes are gone, the locks dropped.
\<close>

text \<open>What \<open>repository.create\<close> is given, before the database adds ids and timestamps.\<close>

record booking_new =
  bn_eventId :: uuid
  bn_userId :: string
  bn_quantity :: int
  bn_status :: booking_status
  bn_idempotencyKey :: "string option"

record outbox_new =
  on_aggregateType :: string
  on_aggregateId :: string
  on_eventType :: string
  on_topic :: string
  on_messageKey :: string
  on_payload :: jsval
  on_status :: outbox_status
  on_attempts :: int
  on_availableAt :: ms

datatype 'a tx =
    Return 'a
  | Throw err
  | FindEvent bool uuid "event_row option \<Rightarrow> 'a tx"
  | UpdateEvent uuid "event_row \<Rightarrow> bool" "event_row \<Rightarrow> event_row" "nat \<Rightarrow> 'a tx"
  | SaveBooking booking_new "booking_row \<Rightarrow> 'a tx"
  | SaveOutbox outbox_new "outbox_row \<Rightarrow> 'a tx"

primrec tx_bind :: "'a tx \<Rightarrow> ('a \<Rightarrow> 'b tx) \<Rightarrow> 'b tx" where
  "tx_bind (Return x) g = g x"
| "tx_bind (Throw e) g = Throw e"
| "tx_bind (FindEvent l e k) g = FindEvent l e (\<lambda>r. tx_bind (k r) g)"
| "tx_bind (UpdateEvent e c f k) g = UpdateEvent e c f (\<lambda>n. tx_bind (k n) g)"
| "tx_bind (SaveBooking b k) g = SaveBooking b (\<lambda>r. tx_bind (k r) g)"
| "tx_bind (SaveOutbox b k) g = SaveOutbox b (\<lambda>r. tx_bind (k r) g)"

text \<open>What the database draws while it runs a transaction: generated ids and \<open>now()\<close>.\<close>

record txenv =
  te_booking_id :: uuid
  te_outbox_id :: uuid
  te_now :: ms

definition saved_booking :: "txenv \<Rightarrow> booking_new \<Rightarrow> booking_row" where
  "saved_booking env n =
     \<lparr>bk_id = te_booking_id env, bk_eventId = bn_eventId n, bk_userId = bn_userId n,
      bk_quantity = bn_quantity n, bk_status = bn_status n,
      bk_idempotencyKey = bn_idempotencyKey n, bk_createdAt = te_now env, bk_updatedAt = te_now env\<rparr>"

definition saved_outbox :: "txenv \<Rightarrow> outbox_new \<Rightarrow> outbox_row" where
  "saved_outbox env n =
     \<lparr>ob_id = te_outbox_id env, ob_aggregateType = on_aggregateType n,
      ob_aggregateId = on_aggregateId n, ob_eventType = on_eventType n, ob_topic = on_topic n,
      ob_messageKey = on_messageKey n, ob_payload = on_payload n, ob_status = on_status n,
      ob_attempts = on_attempts n, ob_availableAt = on_availableAt n, ob_publishedAt = None,
      ob_lastError = None, ob_createdAt = te_now env\<rparr>"

text \<open>An \<open>UPDATE\<close> through the ORM also stamps the \<open>UpdateDateColumn\<close>.\<close>

definition touched :: "txenv \<Rightarrow> event_row \<Rightarrow> event_row" where
  "touched env r = r\<lparr>ev_updatedAt := te_now env\<rparr>"

lemma touched_simps [simp]:
  "ev_id (touched env r) = ev_id r" "ev_name (touched env r) = ev_name r"
  "ev_totalSeats (touched env r) = ev_totalSeats r"
  "ev_availableSeats (touched env r) = ev_availableSeats r"
  "ev_version (touched env r) = ev_version r"
  by (simp_all add: touched_def)

definition set_event :: "uuid \<Rightarrow> event_row \<Rightarrow> db \<Rightarrow> db" where
  "set_event e r d = d\<lparr>t_events := upd_where (\<lambda>x. ev_id x = e) (\<lambda>_. r) (t_events d)\<rparr>"

subsection \<open>A transaction alone\<close>

primrec run_tx :: "'a tx \<Rightarrow> txenv \<Rightarrow> db \<Rightarrow> (err + 'a) \<times> db" where
  "run_tx (Return x) env d = (Inr x, d)"
| "run_tx (Throw e) env d = (Inl e, d)"
| "run_tx (FindEvent l e k) env d = run_tx (k (find_event e d)) env d"
| "run_tx (UpdateEvent e c f k) env d =
     (case find_event e d of
        None \<Rightarrow> run_tx (k 0) env d
      | Some r \<Rightarrow>
          if \<not> c r then run_tx (k 0) env d
          else if event_fits (f r) then run_tx (k 1) env (set_event e (touched env (f r)) d)
          else (Inl QueryFailedError, d))"
| "run_tx (SaveBooking n k) env d =
     (let b = saved_booking env n in
      if booking_fits d b then run_tx (k b) env (d\<lparr>t_bookings := t_bookings d @ [b]\<rparr>)
      else (Inl QueryFailedError, d))"
| "run_tx (SaveOutbox n k) env d =
     (let r = saved_outbox env n in
      if outbox_fits d r then run_tx (k r) env (d\<lparr>t_outbox := t_outbox d @ [r]\<rparr>)
      else (Inl QueryFailedError, d))"

definition transaction :: "'a tx \<Rightarrow> txenv \<Rightarrow> db \<Rightarrow> (err + 'a) \<times> db" where
  "transaction p env d =
     (case run_tx p env d of (Inr x, d') \<Rightarrow> (Inr x, d') | (Inl e, _) \<Rightarrow> (Inl e, d))"

lemma run_tx_bind:
  "run_tx (tx_bind p g) env d =
     (case run_tx p env d of (Inr x, d') \<Rightarrow> run_tx (g x) env d' | (Inl e, d') \<Rightarrow> (Inl e, d'))"
  by (induction p arbitrary: d) (auto simp: Let_def split: option.splits)

lemma find_set_rows:
  "ev_id r = e \<Longrightarrow> find (\<lambda>x. ev_id x = e') (upd_where (\<lambda>x. ev_id x = e) (\<lambda>_. r) xs) =
     (case find (\<lambda>x. ev_id x = e') xs of None \<Rightarrow> None | Some x \<Rightarrow> if e' = e then Some r else Some x)"
  by (induction xs) (auto simp: upd_where_def)

lemma find_set_event:
  "ev_id r = e \<Longrightarrow> find_event e' (set_event e r d) =
     (case find_event e' d of None \<Rightarrow> None | Some x \<Rightarrow> if e' = e then Some r else Some x)"
  by (simp add: find_event_def set_event_def find_set_rows)

subsection \<open>Many transactions at once\<close>

text \<open>The private writes of an open transaction.\<close>

record writes =
  w_events :: "uuid \<Rightarrow> event_row option"
  w_bookings :: "booking_row list"
  w_outbox :: "outbox_row list"

datatype 'a status = Running "'a tx" | Committed 'a | Aborted err | Crashed

record 'a sys =
  sys_db :: db
  sys_locks :: "uuid \<Rightarrow> nat option"
  sys_status :: "nat \<Rightarrow> 'a status"
  sys_writes :: "nat \<Rightarrow> writes"

definition no_writes :: writes where
  "no_writes = \<lparr>w_events = (\<lambda>_. None), w_bookings = [], w_outbox = []\<rparr>"

definition open_sys :: "(nat \<Rightarrow> 'a tx) \<Rightarrow> db \<Rightarrow> 'a sys" where
  "open_sys progs d =
     \<lparr>sys_db = d, sys_locks = (\<lambda>_. None), sys_status = (\<lambda>t. Running (progs t)),
      sys_writes = (\<lambda>_. no_writes)\<rparr>"

definition seen_event :: "'a sys \<Rightarrow> nat \<Rightarrow> uuid \<Rightarrow> event_row option" where
  "seen_event s t e =
     (case w_events (sys_writes s t) e of Some r \<Rightarrow> Some r | None \<Rightarrow> find_event e (sys_db s))"

definition free_for :: "'a sys \<Rightarrow> nat \<Rightarrow> uuid \<Rightarrow> bool" where
  "free_for s t e \<longleftrightarrow> sys_locks s e = None \<or> sys_locks s e = Some t"

definition goto :: "nat \<Rightarrow> 'a tx \<Rightarrow> 'a sys \<Rightarrow> 'a sys" where
  "goto t p s = s\<lparr>sys_status := (sys_status s)(t := Running p)\<rparr>"

definition lock :: "nat \<Rightarrow> uuid \<Rightarrow> 'a sys \<Rightarrow> 'a sys" where
  "lock t e s = s\<lparr>sys_locks := (sys_locks s)(e := Some t)\<rparr>"

definition put :: "nat \<Rightarrow> (writes \<Rightarrow> writes) \<Rightarrow> 'a sys \<Rightarrow> 'a sys" where
  "put t f s = s\<lparr>sys_writes := (sys_writes s)(t := f (sys_writes s t))\<rparr>"

text \<open>Both ends of a transaction drop its locks and its private writes.\<close>

definition finish :: "nat \<Rightarrow> 'a status \<Rightarrow> 'a sys \<Rightarrow> 'a sys" where
  "finish t st s =
     s\<lparr>sys_status := (sys_status s)(t := st), sys_writes := (sys_writes s)(t := no_writes),
       sys_locks := (\<lambda>e. if sys_locks s e = Some t then None else sys_locks s e)\<rparr>"

definition publish_writes :: "writes \<Rightarrow> db \<Rightarrow> db" where
  "publish_writes w d =
     d\<lparr>t_events := map (\<lambda>r. orElse (w_events w (ev_id r)) r) (t_events d),
       t_bookings := t_bookings d @ w_bookings w, t_outbox := t_outbox d @ w_outbox w\<rparr>"

definition commit :: "nat \<Rightarrow> 'a \<Rightarrow> 'a sys \<Rightarrow> 'a sys" where
  "commit t x s = finish t (Committed x) (s\<lparr>sys_db := publish_writes (sys_writes s t) (sys_db s)\<rparr>)"

text \<open>One statement of transaction \<open>t\<close>; \<open>None\<close> when it has ended or waits for a lock.\<close>

definition tx_exec :: "txenv \<Rightarrow> nat \<Rightarrow> 'a sys \<Rightarrow> 'a sys option" where
  "tx_exec env t s =
     (case sys_status s t of
        Running p \<Rightarrow>
          (case p of
             Return x \<Rightarrow> Some (commit t x s)
           | Throw e \<Rightarrow> Some (finish t (Aborted e) s)
           | FindEvent l e k \<Rightarrow>
               (case seen_event s t e of
                  None \<Rightarrow> Some (goto t (k None) s)
                | Some r \<Rightarrow>
                    if \<not> l then Some (goto t (k (Some r)) s)
                    else if free_for s t e then Some (goto t (k (Some r)) (lock t e s))
                    else None)
           | UpdateEvent e c f k \<Rightarrow>
               (case seen_event s t e of
                  None \<Rightarrow> Some (goto t (k 0) s)
                | Some r \<Rightarrow>
                    if \<not> c r then Some (goto t (k 0) s)
                    else if \<not> free_for s t e then None
                    else if event_fits (f r) then
                      Some (goto t (k 1) (put t (\<lambda>w. w\<lparr>w_events := (w_events w)(e \<mapsto> touched env (f r))\<rparr>)
                        (lock t e s)))
                    else Some (finish t Crashed s))
           | SaveBooking n k \<Rightarrow>
               (let b = saved_booking env n in
                if booking_fits (sys_db s) b
                then Some (goto t (k b) (put t (\<lambda>w. w\<lparr>w_bookings := w_bookings w @ [b]\<rparr>) s))
                else Some (finish t Crashed s))
           | SaveOutbox n k \<Rightarrow>
               (let r = saved_outbox env n in
                if outbox_fits (sys_db s) r
                then Some (goto t (k r) (put t (\<lambda>w. w\<lparr>w_outbox := w_outbox w @ [r]\<rparr>) s))
                else Some (finish t Crashed s)))
      | _ \<Rightarrow> None)"

text \<open>
  The system: any transaction may run its next statement, any running transaction may be lost (the
  process died, the connection broke, the statement timed out), and new events may be created.
\<close>

inductive sys_step :: "'a sys \<Rightarrow> 'a sys \<Rightarrow> bool" where
  step_exec: "tx_exec env t s = Some s' \<Longrightarrow> sys_step s s'"
| step_crash: "sys_status s t = Running p \<Longrightarrow> sys_step s (finish t Crashed s)"
| step_create: "find_event (ev_id r) (sys_db s) = None \<Longrightarrow> ev_availableSeats r = ev_totalSeats r \<Longrightarrow>
     0 \<le> ev_totalSeats r \<Longrightarrow>
     sys_step s (s\<lparr>sys_db := (sys_db s)\<lparr>t_events := t_events (sys_db s) @ [r]\<rparr>\<rparr>)"

inductive sys_steps :: "'a sys \<Rightarrow> 'a sys \<Rightarrow> bool" where
  steps_refl: "sys_steps s s"
| steps_more: "sys_steps s s' \<Longrightarrow> sys_step s' s'' \<Longrightarrow> sys_steps s s''"

text \<open>A schedule names the transaction that moves next; it is how concrete runs are written.\<close>

fun run_schedule :: "(nat \<times> txenv) list \<Rightarrow> 'a sys \<Rightarrow> 'a sys option" where
  "run_schedule [] s = Some s"
| "run_schedule ((t, env) # rest) s =
     (case tx_exec env t s of None \<Rightarrow> None | Some s' \<Rightarrow> run_schedule rest s')"

lemma sys_steps_trans: "sys_steps s' s'' \<Longrightarrow> sys_steps s s' \<Longrightarrow> sys_steps s s''"
  by (induction rule: sys_steps.induct) (auto intro: steps_more)

lemma run_schedule_steps: "run_schedule sch s = Some s' \<Longrightarrow> sys_steps s s'"
proof (induction sch arbitrary: s)
  case Nil
  then show ?case by (simp add: steps_refl)
next
  case (Cons m sch)
  obtain t env where m: "m = (t, env)" by (cases m)
  with Cons.prems obtain s1 where s1: "tx_exec env t s = Some s1" "run_schedule sch s1 = Some s'"
    by (auto split: option.splits)
  have "sys_steps s s1" by (rule steps_more [OF steps_refl step_exec [OF s1(1)]])
  with Cons.IH [OF s1(2)] show ?case by (rule sys_steps_trans)
qed

end
