(* ===== verification/Outbox.thy ===== *)
theory Outbox
  imports Transactions
begin

section \<open>Writing to the outbox\<close>

text \<open>
  \<open>outbox/outbox.service.ts\<close>: \<open>enqueue\<close> adds a row through the manager of the caller's
  transaction, so it is a statement of that transaction. \<open>new Date()\<close> is an argument.
\<close>

record enqueue_input =
  eq_aggregateType :: string
  eq_aggregateId :: string
  eq_eventType :: string
  eq_topic :: string
  eq_messageKey :: string
  eq_payload :: jsval

definition enqueue :: "enqueue_input \<Rightarrow> ms \<Rightarrow> outbox_row tx" where
  "enqueue input now = SaveOutbox
     \<lparr>on_aggregateType = eq_aggregateType input, on_aggregateId = eq_aggregateId input,
      on_eventType = eq_eventType input, on_topic = eq_topic input,
      on_messageKey = eq_messageKey input, on_payload = eq_payload input,
      on_status = Pending, on_attempts = 0, on_availableAt = now\<rparr> Return"

end
