(* ===== verification/Bookings.thy ===== *)
theory Bookings
  imports Config Outbox
begin

section \<open>Booking seats\<close>

text \<open>
  The transaction of \<open>bookings/bookings.service.ts\<close>: the three ways to take seats
  (\<open>decrementNaive\<close>, \<open>decrementPessimistic\<close>, \<open>decrementOptimistic\<close>), the booking row and the
  outbox row; and the reads \<open>integrity\<close>, \<open>findOne\<close> and \<open>listByEvent\<close>. What \<open>book\<close> does around
  the transaction is in \<open>BookService\<close>.
\<close>

definition BOOKING_CONFIRMED :: string where
  "BOOKING_CONFIRMED = ''booking.confirmed''"

record decrement =
  dr_seatsRemaining :: int
  dr_eventName :: string

definition event_not_found :: "uuid \<Rightarrow> err" where
  "event_not_found eventId = NotFoundException (''Event '' @ eventId @ '' not found'')"

definition sold_out :: err where
  "sold_out = ConflictException ''Sold out''"

definition contention :: err where
  "contention = ConflictException ''Too much contention on this event, please retry''"

subsection \<open>The three strategies\<close>

definition decrementNaive :: "uuid \<Rightarrow> int \<Rightarrow> decrement tx" where
  "decrementNaive eventId quantity =
     FindEvent False eventId (\<lambda>found. case found of
       None \<Rightarrow> Throw (event_not_found eventId)
     | Some event \<Rightarrow>
         if ev_availableSeats event < quantity then Throw sold_out
         else let remaining = ev_availableSeats event - quantity in
           UpdateEvent eventId (\<lambda>_. True) (\<lambda>r. r\<lparr>ev_availableSeats := remaining\<rparr>)
             (\<lambda>_. Return \<lparr>dr_seatsRemaining = remaining, dr_eventName = ev_name event\<rparr>))"

definition decrementPessimistic :: "uuid \<Rightarrow> int \<Rightarrow> decrement tx" where
  "decrementPessimistic eventId quantity =
     FindEvent True eventId (\<lambda>found. case found of
       None \<Rightarrow> Throw (event_not_found eventId)
     | Some event \<Rightarrow>
         if ev_availableSeats event < quantity then Throw sold_out
         else let remaining = ev_availableSeats event - quantity in
           UpdateEvent eventId (\<lambda>_. True)
             (\<lambda>r. r\<lparr>ev_availableSeats := remaining, ev_version := ev_version r + 1\<rparr>)
             (\<lambda>_. Return \<lparr>dr_seatsRemaining = remaining, dr_eventName = ev_name event\<rparr>))"

text \<open>The body of the retry loop, with the number of attempts left.\<close>

primrec optimistic_attempts :: "nat \<Rightarrow> uuid \<Rightarrow> int \<Rightarrow> decrement tx" where
  "optimistic_attempts 0 eventId quantity = Throw contention"
| "optimistic_attempts (Suc left) eventId quantity =
     FindEvent False eventId (\<lambda>found. case found of
       None \<Rightarrow> Throw (event_not_found eventId)
     | Some event \<Rightarrow>
         if ev_availableSeats event < quantity then Throw sold_out
         else UpdateEvent eventId
           (\<lambda>r. ev_version r = ev_version event \<and> quantity \<le> ev_availableSeats r)
           (\<lambda>r. r\<lparr>ev_availableSeats := ev_availableSeats r - quantity, ev_version := ev_version r + 1\<rparr>)
           (\<lambda>affected.
              if affected = 1
              then Return \<lparr>dr_seatsRemaining = ev_availableSeats event - quantity, dr_eventName = ev_name event\<rparr>
              else optimistic_attempts left eventId quantity))"

definition decrementOptimistic :: "config \<Rightarrow> uuid \<Rightarrow> int \<Rightarrow> decrement tx" where
  "decrementOptimistic cfg eventId quantity =
     optimistic_attempts (nat (booking_optimisticMaxRetries cfg + 1)) eventId quantity"

subsection \<open>The transaction of one booking\<close>

text \<open>A request: the event, the body, the context, and what the clock shows at the outbox write.\<close>

record book_req =
  bq_eventId :: uuid
  bq_dto :: create_booking_dto
  bq_traceId :: "string option"
  bq_idempotencyKey :: "string option"
  bq_now :: ms

record booked =
  bd_booking :: booking_row
  bd_seatsRemaining :: int
  bd_eventName :: string

definition directPublishMode :: "config \<Rightarrow> bool" where
  "directPublishMode cfg = outbox_directPublishMode cfg"

definition uses_outbox :: "config \<Rightarrow> bool" where
  "uses_outbox cfg \<longleftrightarrow> outbox_enabled cfg \<and> \<not> directPublishMode cfg"

definition booking_payload :: "booking_row \<Rightarrow> string \<Rightarrow> string option \<Rightarrow> jsval" where
  "booking_payload booking eventName traceId = JObj
     [(''bookingId'', JStr (bk_id booking)), (''eventId'', JStr (bk_eventId booking)),
      (''userId'', JStr (bk_userId booking)), (''quantity'', JNum (of_int (bk_quantity booking))),
      (''eventName'', JStr eventName), (''bookedAt'', JStr (toISOString (bk_createdAt booking))),
      (''traceId'', opt_str traceId)]"

definition take_seats :: "config \<Rightarrow> uuid \<Rightarrow> int \<Rightarrow> decrement tx" where
  "take_seats cfg eventId quantity =
     (case booking_lockStrategy cfg of
        Pessimistic \<Rightarrow> decrementPessimistic eventId quantity
      | Optimistic \<Rightarrow> decrementOptimistic cfg eventId quantity
      | NoLock \<Rightarrow> decrementNaive eventId quantity)"

definition new_booking :: "book_req \<Rightarrow> booking_new" where
  "new_booking q =
     \<lparr>bn_eventId = bq_eventId q, bn_userId = cb_userId (bq_dto q),
      bn_quantity = cb_quantity (bq_dto q), bn_status = Confirmed,
      bn_idempotencyKey = bq_idempotencyKey q\<rparr>"

definition record_booking :: "config \<Rightarrow> book_req \<Rightarrow> decrement \<Rightarrow> booked tx" where
  "record_booking cfg q result =
     SaveBooking (new_booking q) (\<lambda>booking.
       let answer = \<lparr>bd_booking = booking, bd_seatsRemaining = dr_seatsRemaining result,
                     bd_eventName = dr_eventName result\<rparr> in
       if uses_outbox cfg then
         tx_bind (enqueue
           \<lparr>eq_aggregateType = ''booking'', eq_aggregateId = bk_id booking,
            eq_eventType = BOOKING_CONFIRMED, eq_topic = topics_booking cfg,
            eq_messageKey = bq_eventId q,
            eq_payload = booking_payload booking (dr_eventName result) (bq_traceId q)\<rparr> (bq_now q))
           (\<lambda>_. Return answer)
       else Return answer)"

definition book_tx :: "config \<Rightarrow> book_req \<Rightarrow> booked tx" where
  "book_tx cfg q =
     tx_bind (take_seats cfg (bq_eventId q) (cb_quantity (bq_dto q))) (record_booking cfg q)"

subsection \<open>Reads\<close>

definition integrity :: "uuid \<Rightarrow> db \<Rightarrow> err + seat_integrity" where
  "integrity eventId d =
     (case find_event eventId d of
        None \<Rightarrow> Inl (event_not_found eventId)
      | Some event \<Rightarrow>
          let confirmedSeats = sold eventId (t_bookings d) in
          Inr \<lparr>si_eventId = eventId, si_totalSeats = ev_totalSeats event,
               si_availableSeats = ev_availableSeats event, si_confirmedSeats = confirmedSeats,
               si_oversoldBy = max 0 (confirmedSeats - ev_totalSeats event),
               si_counterDrift = (ev_availableSeats event \<noteq> ev_totalSeats event - confirmedSeats)\<rparr>)"

definition find_booking :: "uuid \<Rightarrow> db \<Rightarrow> err + booking_row" where
  "find_booking bookingId d =
     (case find (\<lambda>b. bk_id b = bookingId) (t_bookings d) of
        None \<Rightarrow> Inl (NotFoundException (''Booking '' @ bookingId @ '' not found''))
      | Some booking \<Rightarrow> Inr booking)"

text \<open>The controller's \<open>Math.min(Number(limit) || 50, 200)\<close>: \<open>NaN\<close> and 0 are falsy.\<close>

definition list_limit :: "jsnum \<Rightarrow> jsnum" where
  "list_limit n =
     (case n of
        NaN \<Rightarrow> Fin 50
      | Fin a \<Rightarrow> if a = 0 then Fin 50 else Fin (min a 200)
      | PosInf \<Rightarrow> Fin 200
      | NegInf \<Rightarrow> NegInf)"

text \<open>\<open>WHERE event_id ORDER BY created_at DESC LIMIT n\<close>.\<close>

definition listByEvent :: "uuid \<Rightarrow> int \<Rightarrow> db \<Rightarrow> err + booking_row list" where
  "listByEvent eventId limit d =
     sql_limit limit (sort_key (\<lambda>b. - bk_createdAt b) (filter (\<lambda>b. bk_eventId b = eventId) (t_bookings d)))"

end
