(* ===== verification/World.thy ===== *)
theory World
  imports Store Config JsonRoundTrip
begin

section \<open>Metrics, services and the state of the world\<close>

text \<open>
  The counters and gauges of \<open>metrics/metrics.service.ts\<close> that the sources change, as functions of
  their label values; the histograms, which only observe durations, are left out. Redis, Kafka,
  the timer and the random sources are not part of the repository: their operations are fields of
  a record \<open>services\<close> that every definition using them takes as an argument, over an
  unspecified state \<open>'s\<close> of the Redis server and \<open>'k\<close> of the Kafka cluster. A
  \<open>world\<close> holds the database, both servers, the metrics and what \<open>Date.now()\<close> shows.
\<close>

record metrics =
  httpRequestsTotal :: "string \<Rightarrow> string \<Rightarrow> string \<Rightarrow> nat"
  httpRequestsInFlight :: int
  bookingsTotal :: "string \<Rightarrow> string \<Rightarrow> nat"
  bookingsOversoldTotal :: "uuid \<Rightarrow> nat"
  cacheRequestsTotal :: "string \<Rightarrow> string \<Rightarrow> nat"
  cacheSingleFlightWaitsTotal :: "string \<Rightarrow> nat"
  outboxPendingMessages :: int
  outboxPublishedTotal :: "string \<Rightarrow> nat"
  outboxPublishFailuresTotal :: "string \<Rightarrow> nat"
  kafkaMessagesConsumedTotal :: "string \<Rightarrow> nat"
  notificationsProcessedTotal :: "string \<Rightarrow> nat"
  notificationInFlight :: int
  rateLimitDecisionsTotal :: "string \<Rightarrow> string \<Rightarrow> nat"

definition inc1 :: "'a \<Rightarrow> ('a \<Rightarrow> nat) \<Rightarrow> 'a \<Rightarrow> nat" where
  "inc1 a f = f(a := Suc (f a))"

definition inc2 :: "'a \<Rightarrow> 'b \<Rightarrow> ('a \<Rightarrow> 'b \<Rightarrow> nat) \<Rightarrow> 'a \<Rightarrow> 'b \<Rightarrow> nat" where
  "inc2 a b f = f(a := inc1 b (f a))"

lemma inc_apply [simp]:
  "inc1 a f x = (if x = a then Suc (f a) else f x)"
  "inc2 a b g x y = (if x = a \<and> y = b then Suc (g a b) else g x y)"
  by (simp_all add: inc1_def inc2_def)

definition zero_metrics :: metrics where
  "zero_metrics = \<lparr>httpRequestsTotal = (\<lambda>_ _ _. 0), httpRequestsInFlight = 0, bookingsTotal = (\<lambda>_ _. 0),
     bookingsOversoldTotal = (\<lambda>_. 0), cacheRequestsTotal = (\<lambda>_ _. 0),
     cacheSingleFlightWaitsTotal = (\<lambda>_. 0), outboxPendingMessages = 0, outboxPublishedTotal = (\<lambda>_. 0),
     outboxPublishFailuresTotal = (\<lambda>_. 0), kafkaMessagesConsumedTotal = (\<lambda>_. 0),
     notificationsProcessedTotal = (\<lambda>_. 0), notificationInFlight = 0,
     rateLimitDecisionsTotal = (\<lambda>_ _. 0)\<rparr>"

subsection \<open>Messages\<close>

text \<open>\<open>OutgoingMessage\<close>, and a message as it is handed to the producer: the value as JSON text.\<close>

type_synonym msg_headers = "(string \<times> string) list"

record outgoing =
  om_topic :: string
  om_key :: string
  om_value :: jsval
  om_headers :: msg_headers

record kmsg =
  km_key :: string
  km_value :: string
  km_headers :: msg_headers

subsection \<open>Services\<close>

text \<open>
  A Redis call fails when the server cannot be reached (\<open>rd_up\<close>). The token bucket's two fields
  are numbers.
\<close>

record ('s, 'k) services =
  rd_up :: "'s \<Rightarrow> bool"
  rd_get :: "string \<Rightarrow> 's \<Rightarrow> string option"
  rd_set_ex :: "string \<Rightarrow> string \<Rightarrow> int \<Rightarrow> 's \<Rightarrow> 's"
  rd_set_px_nx :: "string \<Rightarrow> string \<Rightarrow> int \<Rightarrow> 's \<Rightarrow> bool \<times> 's"
  rd_del :: "string \<Rightarrow> 's \<Rightarrow> 's"
  rd_hmget :: "string \<Rightarrow> 's \<Rightarrow> rat option \<times> rat option"
  rd_hset :: "string \<Rightarrow> rat \<Rightarrow> rat \<Rightarrow> 's \<Rightarrow> 's"
  rd_pexpire :: "string \<Rightarrow> int \<Rightarrow> 's \<Rightarrow> 's"
  kf_send :: "(string \<times> kmsg list) list \<Rightarrow> 'k \<Rightarrow> (err + unit) \<times> 'k"

definition RedisDown :: err where
  "RedisDown = JsError ''Connection is closed.''"

record ('s, 'k) world =
  wd_db :: db
  wd_redis :: 's
  wd_kafka :: 'k
  wd_metrics :: metrics
  wd_now :: ms

definition upd_metrics :: "(metrics \<Rightarrow> metrics) \<Rightarrow> ('s, 'k) world \<Rightarrow> ('s, 'k) world" where
  "upd_metrics f w = w\<lparr>wd_metrics := f (wd_metrics w)\<rparr>"

lemma upd_metrics_simps [simp]:
  "wd_db (upd_metrics f w) = wd_db w" "wd_redis (upd_metrics f w) = wd_redis w"
  "wd_kafka (upd_metrics f w) = wd_kafka w" "wd_now (upd_metrics f w) = wd_now w"
  "wd_metrics (upd_metrics f w) = f (wd_metrics w)"
  by (simp_all add: upd_metrics_def)

end
