(* ===== verification/Kafka.thy ===== *)
theory Kafka
  imports World
begin

section \<open>Publishing to Kafka\<close>

text \<open>
  \<open>kafka/kafka.service.ts\<close> and the header names of \<open>kafka/kafka.constants.ts\<close>. The producer's
  \<open>sendBatch\<close> is \<open>kf_send\<close> of the services; what the sources rely on is \<open>broker_ok\<close>: the topics'
  logs only grow, and a batch that was acknowledged is in them. A failed call promises nothing:
  part of the batch, or all of it, may have arrived.
\<close>

definition HEADER_MESSAGE_ID :: string where "HEADER_MESSAGE_ID = ''message-id''"
definition HEADER_EVENT_TYPE :: string where "HEADER_EVENT_TYPE = ''event-type''"
definition HEADER_TRACE_ID :: string where "HEADER_TRACE_ID = ''trace-id''"
definition HEADER_ATTEMPTS :: string where "HEADER_ATTEMPTS = ''attempts''"
definition HEADER_RETRY_AT :: string where "HEADER_RETRY_AT = ''retry-at''"
definition HEADER_ORIGINAL_TOPIC :: string where "HEADER_ORIGINAL_TOPIC = ''original-topic''"
definition HEADER_ERROR :: string where "HEADER_ERROR = ''error''"

lemmas header_names = HEADER_MESSAGE_ID_def HEADER_EVENT_TYPE_def HEADER_TRACE_ID_def
  HEADER_ATTEMPTS_def HEADER_RETRY_AT_def HEADER_ORIGINAL_TOPIC_def HEADER_ERROR_def

subsection \<open>Batches\<close>

text \<open>One message into the \<open>Map\<close> from topics to buckets, which keeps its keys in insertion order.\<close>

fun bucket_add :: "outgoing \<Rightarrow> (string \<times> outgoing list) list \<Rightarrow> (string \<times> outgoing list) list" where
  "bucket_add m [] = [(om_topic m, [m])]"
| "bucket_add m ((t, ms) # rest) =
     (if t = om_topic m then (t, ms @ [m]) # rest else (t, ms) # bucket_add m rest)"

definition byTopic :: "outgoing list \<Rightarrow> (string \<times> outgoing list) list" where
  "byTopic ms = fold bucket_add ms []"

definition to_kmsg :: "outgoing \<Rightarrow> kmsg" where
  "to_kmsg item = \<lparr>km_key = om_key item, km_value = JSON_stringify (om_value item), km_headers = om_headers item\<rparr>"

definition topicMessages :: "outgoing list \<Rightarrow> (string \<times> kmsg list) list" where
  "topicMessages ms = map (\<lambda>(topic, items). (topic, map (to_kmsg) items)) (byTopic ms)"

definition publishBatch :: "('s, 'k) services \<Rightarrow> outgoing list \<Rightarrow> ('s, 'k) world \<Rightarrow> (err + unit) \<times> ('s, 'k) world" where
  "publishBatch S ms w =
     (if ms = [] then (Inr (), w)
      else case kf_send S (topicMessages ms) (wd_kafka w) of (r, k) \<Rightarrow> (r, w\<lparr>wd_kafka := k\<rparr>))"

definition publish :: "('s, 'k) services \<Rightarrow> outgoing \<Rightarrow> ('s, 'k) world \<Rightarrow> (err + unit) \<times> ('s, 'k) world" where
  "publish S m w = publishBatch S [m] w"

definition of_topic :: "string \<Rightarrow> outgoing list \<Rightarrow> outgoing list" where
  "of_topic t ms = filter (\<lambda>m. om_topic m = t) ms"

lemma map_of_bucket_add:
  "map_of (bucket_add m bs) t =
     (if t = om_topic m then Some (orElse (map_of bs t) [] @ [m]) else map_of bs t)"
  by (induction m bs rule: bucket_add.induct) auto

lemma keys_bucket_add:
  "fst ` set (bucket_add m bs) = insert (om_topic m) (fst ` set bs)"
  by (induction m bs rule: bucket_add.induct) auto

lemma distinct_bucket_add: "distinct (map fst bs) \<Longrightarrow> distinct (map fst (bucket_add m bs))"
  using keys_bucket_add by (induction m bs rule: bucket_add.induct) fastforce+

lemma fold_bucket_add:
  "distinct (map fst bs) \<Longrightarrow> distinct (map fst (fold bucket_add ms bs))
    \<and> map_of (fold bucket_add ms bs) t =
        (if of_topic t ms = [] then map_of bs t else Some (orElse (map_of bs t) [] @ of_topic t ms))"
proof (induction ms arbitrary: bs)
  case (Cons m ms)
  from Cons.IH [OF distinct_bucket_add [OF Cons.prems, of m]] show ?case
    by (auto simp: of_topic_def map_of_bucket_add)
qed (simp add: of_topic_def)

lemma byTopic_props:
  shows distinct_byTopic: "distinct (map fst (byTopic ms))"
    and map_of_byTopic: "map_of (byTopic ms) t = (if of_topic t ms = [] then None else Some (of_topic t ms))"
  using fold_bucket_add [of "[]" ms t] by (simp_all add: byTopic_def)

lemma map_of_map_pair: "map_of (map (\<lambda>(k, v). (k, f v)) xs) t = map_option f (map_of xs t)"
  by (induction xs) auto

lemma topicMessages_of:
  "map_of (topicMessages ms) t = (if of_topic t ms = [] then None else Some (map (to_kmsg) (of_topic t ms)))"
  by (simp add: topicMessages_def map_of_map_pair map_of_byTopic)

text \<open>
  A batch is split by topic without losing, repeating or reordering anything: whatever the
  broker does, one non-empty batch makes one \<open>sendBatch\<close> call, in which every topic occurs once
  and carries exactly the messages addressed to it, in the order they were given, each with its own
  key, headers and JSON body; the caller sees the broker's verdict, and nothing else changes. An
  empty batch does not call the broker.
\<close>

theorem publish_batch_groups_by_topic:
  "publishBatch S [] w = (Inr (), w)
   \<and> publishBatch S (m # ms) w =
       (case kf_send S (topicMessages (m # ms)) (wd_kafka w) of (r, k) \<Rightarrow> (r, w\<lparr>wd_kafka := k\<rparr>))
   \<and> distinct (map fst (topicMessages (m # ms)))
   \<and> map_of (topicMessages (m # ms)) t =
       (if of_topic t (m # ms) = [] then None else Some (map (to_kmsg) (of_topic t (m # ms))))"
proof -
  have "map fst (topicMessages (m # ms)) = map fst (byTopic (m # ms))"
    by (auto simp: topicMessages_def)
  then show ?thesis
    using distinct_byTopic [of "m # ms"] by (simp add: publishBatch_def topicMessages_of)
qed

subsection \<open>What the broker promises\<close>

text \<open>The messages of each topic's log, as a set.\<close>

definition broker_ok :: "('s, 'k) services \<Rightarrow> ('k \<Rightarrow> string \<Rightarrow> kmsg set) \<Rightarrow> bool" where
  "broker_ok S held \<longleftrightarrow>
     (\<forall>batch k. (\<forall>t. held k t \<subseteq> held (snd (kf_send S batch k)) t)
        \<and> (fst (kf_send S batch k) = Inr () \<longrightarrow>
             (\<forall>(t, ms) \<in> set batch. set ms \<subseteq> held (snd (kf_send S batch k)) t)))"

lemma publishBatch_grows:
  "broker_ok S held \<Longrightarrow> held (wd_kafka w) t \<subseteq> held (wd_kafka (snd (publishBatch S ms w))) t"
  by (auto simp: broker_ok_def publishBatch_def split: prod.splits) (metis snd_conv subsetD)

lemma publishBatch_acked:
  assumes ok: "broker_ok S held" and acked: "fst (publishBatch S ms w) = Inr ()" and m: "m \<in> set ms"
  shows "to_kmsg m \<in> held (wd_kafka (snd (publishBatch S ms w))) (om_topic m)"
proof -
  let ?batch = "topicMessages ms"
  have "of_topic (om_topic m) ms \<noteq> []" using m by (auto simp: of_topic_def filter_empty_conv)
  then have "map_of ?batch (om_topic m) = Some (map (to_kmsg) (of_topic (om_topic m) ms))"
    by (simp add: topicMessages_of)
  then have "(om_topic m, map (to_kmsg) (of_topic (om_topic m) ms)) \<in> set ?batch" by (rule map_of_SomeD)
  moreover have "fst (kf_send S ?batch (wd_kafka w)) = Inr ()"
    and w': "wd_kafka (snd (publishBatch S ms w)) = snd (kf_send S ?batch (wd_kafka w))"
    using acked m by (auto simp: publishBatch_def split: prod.splits if_splits)
  ultimately have "set (map (to_kmsg) (of_topic (om_topic m) ms))
      \<subseteq> held (snd (kf_send S ?batch (wd_kafka w))) (om_topic m)"
    using ok unfolding broker_ok_def by blast
  with m show ?thesis by (auto simp: w' of_topic_def)
qed

lemma publishBatch_frame [simp]:
  "wd_db (snd (publishBatch S ms w)) = wd_db w" "wd_redis (snd (publishBatch S ms w)) = wd_redis w"
  "wd_metrics (snd (publishBatch S ms w)) = wd_metrics w" "wd_now (snd (publishBatch S ms w)) = wd_now w"
  by (simp_all add: publishBatch_def split: prod.splits)

lemma publish_frame [simp]:
  "wd_db (snd (publish S m w)) = wd_db w" "wd_redis (snd (publish S m w)) = wd_redis w"
  "wd_metrics (snd (publish S m w)) = wd_metrics w" "wd_now (snd (publish S m w)) = wd_now w"
  by (simp_all add: publish_def)

subsection \<open>Connecting\<close>

text \<open>
  \<open>ensureTopics\<close>: the answers of the admin client are arguments (connect, list, create, and
  disconnect, whose failure is swallowed). Whatever fails, the start-up goes on.
\<close>

datatype admin_call = AdminConnect | ListTopics | CreateTopics "string list" | AdminDisconnect

definition missing_topics :: "string list \<Rightarrow> string list \<Rightarrow> string list" where
  "missing_topics topics existing = filter (\<lambda>t. t \<notin> set existing) topics"

definition ensureTopics :: "string list \<Rightarrow> err + unit \<Rightarrow> err + string list \<Rightarrow> admin_call list" where
  "ensureTopics topics connect listed =
     (case connect of
        Inl _ \<Rightarrow> [AdminConnect, AdminDisconnect]
      | Inr _ \<Rightarrow>
          (case listed of
             Inl _ \<Rightarrow> [AdminConnect, ListTopics, AdminDisconnect]
           | Inr existing \<Rightarrow>
               let missing = missing_topics topics existing in
               if 0 < length missing then [AdminConnect, ListTopics, CreateTopics missing, AdminDisconnect]
               else [AdminConnect, ListTopics, AdminDisconnect]))"

record kafka_conn =
  kc_connected :: bool
  kc_calls :: "admin_call list"

definition kafka_topics :: "config \<Rightarrow> string list" where
  "kafka_topics cfg = [topics_booking cfg, topics_retry cfg, topics_dlq cfg]"

definition kafka_onModuleInit :: "config \<Rightarrow> err + unit \<Rightarrow> err + string list \<Rightarrow> err + unit
    \<Rightarrow> kafka_conn \<Rightarrow> (err + unit) \<times> kafka_conn" where
  "kafka_onModuleInit cfg adminConnect listed producerConnect c =
     (let c' = c\<lparr>kc_calls := kc_calls c @ ensureTopics (kafka_topics cfg) adminConnect listed\<rparr> in
      case producerConnect of
        Inl e \<Rightarrow> (Inl e, c')
      | Inr _ \<Rightarrow> (Inr (), c'\<lparr>kc_connected := True\<rparr>))"

text \<open>Whether \<open>producer.disconnect\<close> is called, and the state after; its failure is swallowed.\<close>

definition kafka_onApplicationShutdown :: "kafka_conn \<Rightarrow> bool \<times> kafka_conn" where
  "kafka_onApplicationShutdown c =
     (if \<not> kc_connected c then (False, c) else (True, c\<lparr>kc_connected := False\<rparr>))"

definition isConnected :: "kafka_conn \<Rightarrow> bool" where
  "isConnected c = kc_connected c"

text \<open>
  Start-up creates exactly the missing topics, and a failing admin client never stops it: the
  topics handed to \<open>createTopics\<close> are the configured ones that the cluster does not list, at most one
  create call is made, none when nothing is missing, the admin client is always disconnected last,
  and the service reports itself connected if and only if the producer connected.
\<close>

theorem kafka_start_up:
  assumes "kc_connected c = False" and "kc_calls c = []"
    and "kafka_onModuleInit cfg a l p c = (r, c')"
  shows "(isConnected c' \<longleftrightarrow> p = Inr ()) \<and> (r = Inr () \<longleftrightarrow> p = Inr ())
    \<and> last (kc_calls c') = AdminDisconnect
    \<and> (CreateTopics ts \<in> set (kc_calls c') \<longleftrightarrow>
         a = Inr () \<and> ts \<noteq> [] \<and> (\<exists>existing. l = Inr existing \<and> ts = missing_topics (kafka_topics cfg) existing))
    \<and> (\<forall>t existing. l = Inr existing \<longrightarrow> t \<in> set (kafka_topics cfg) \<longrightarrow>
         t \<in> set existing \<or> t \<in> set (missing_topics (kafka_topics cfg) existing))"
  using assms
  by (cases a; cases l; cases p)
     (auto simp: kafka_onModuleInit_def ensureTopics_def isConnected_def Let_def missing_topics_def
       split: if_splits)

lemma kafka_start_up_witness:
  "(case kafka_onModuleInit (default_config Pessimistic) (Inr ()) (Inr [''booking.events'']) (Inr ())
      \<lparr>kc_connected = False, kc_calls = []\<rparr> of (r, c') \<Rightarrow>
      isConnected c' \<and> CreateTopics [''booking.events.retry'', ''booking.events.dlq''] \<in> set (kc_calls c'))"
proof -
  obtain r c' where rc: "kafka_onModuleInit (default_config Pessimistic) (Inr ()) (Inr [''booking.events''])
      (Inr ()) \<lparr>kc_connected = False, kc_calls = []\<rparr> = (r, c')" by fastforce
  show ?thesis
    unfolding rc prod.case
    using kafka_start_up [OF _ _ rc, of "[''booking.events.retry'', ''booking.events.dlq'']"]
    by (simp add: missing_topics_def kafka_topics_def default_config_def)
qed

end
