(* ===== verification/Samples.thy ===== *)
theory Samples
  imports Kafka
begin

section \<open>A single-process stand-in for the services\<close>

text \<open>
  Concrete services for the instances at which properties are applied: a Redis that keeps strings
  and buckets without expiry, and a broker that appends to per-topic lists and can be switched off.
\<close>

type_synonym mini_redis = "(string \<rightharpoonup> string) \<times> (string \<rightharpoonup> rat \<times> rat)"
type_synonym mini_broker = "bool \<times> (string \<Rightarrow> kmsg list)"

definition mini_send :: "(string \<times> kmsg list) list \<Rightarrow> mini_broker \<Rightarrow> (err + unit) \<times> mini_broker" where
  "mini_send batch b =
     (if fst b then (Inr (), (True, \<lambda>t. snd b t @ concat (map snd (filter (\<lambda>x. fst x = t) batch))))
      else (Inl (JsError ''broker not available''), b))"

definition mini :: "(mini_redis, mini_broker) services" where
  "mini = \<lparr>rd_up = (\<lambda>_. True), rd_get = (\<lambda>k s. fst s k),
     rd_set_ex = (\<lambda>k v _ s. ((fst s)(k \<mapsto> v), snd s)),
     rd_set_px_nx = (\<lambda>k v _ s. if fst s k = None then (True, ((fst s)(k \<mapsto> v), snd s)) else (False, s)),
     rd_del = (\<lambda>k s. ((fst s)(k := None), snd s)),
     rd_hmget = (\<lambda>k s. (map_option fst (snd s k), map_option snd (snd s k))),
     rd_hset = (\<lambda>k a b s. (fst s, (snd s)(k \<mapsto> (a, b)))), rd_pexpire = (\<lambda>_ _ s. s),
     kf_send = mini_send\<rparr>"

definition mini_held :: "mini_broker \<Rightarrow> string \<Rightarrow> kmsg set" where
  "mini_held b t = set (snd b t)"

lemma mini_broker_ok: "broker_ok mini mini_held"
  by (fastforce simp: broker_ok_def mini_def mini_send_def mini_held_def)

definition mini_world :: "db \<Rightarrow> (mini_redis, mini_broker) world" where
  "mini_world d = \<lparr>wd_db = d, wd_redis = (\<lambda>_. None, \<lambda>_. None), wd_kafka = (True, \<lambda>_. []),
     wd_metrics = zero_metrics, wd_now = 0\<rparr>"

definition mini_down :: "('s, mini_broker) world \<Rightarrow> ('s, mini_broker) world" where
  "mini_down w = w\<lparr>wd_kafka := (False, snd (wd_kafka w))\<rparr>"

definition empty_db :: db where
  "empty_db = \<lparr>t_events = [], t_bookings = [], t_outbox = [], t_idempotency = [], t_processed = []\<rparr>"

end
