(* ===== verification/Redis.thy ===== *)
theory Redis
  imports World Samples
begin

section \<open>Locks and token buckets in Redis\<close>

text \<open>
  \<open>redis/redis.service.ts\<close>: the lease lock (\<open>acquireLock\<close>, \<open>releaseLock\<close> with its Lua script,
  \<open>withLock\<close>) and the token bucket script (\<open>token_bucket\<close>) with \<open>consumeToken\<close>. A call fails
  when the server cannot be reached; a script runs as one step. Token counts, which Lua keeps as doubles,
  are rationals, so rounding is not modelled. What \<open>randomUUID()\<close> and \<open>Date.now()\<close> return are
  arguments or the clock of the world.
\<close>

type_synonym ('s, 'k, 'a) call = "('s, 'k) world \<Rightarrow> (err + 'a) \<times> ('s, 'k) world"

definition acquireLock :: "('s, 'k) services \<Rightarrow> string \<Rightarrow> int \<Rightarrow> uuid \<Rightarrow> ('s, 'k, string option) call" where
  "acquireLock S key ttlMs token w =
     (if \<not> rd_up S (wd_redis w) then (Inl RedisDown, w)
      else case rd_set_px_nx S key token ttlMs (wd_redis w) of
        (ok, s) \<Rightarrow> (Inr (if ok then Some token else None), w\<lparr>wd_redis := s\<rparr>))"

text \<open>The script deletes the key only while it still holds the token; errors are swallowed.\<close>

definition releaseLock :: "('s, 'k) services \<Rightarrow> string \<Rightarrow> string \<Rightarrow> ('s, 'k) world \<Rightarrow> ('s, 'k) world" where
  "releaseLock S key token w =
     (if rd_up S (wd_redis w) \<and> rd_get S key (wd_redis w) = Some token
      then w\<lparr>wd_redis := rd_del S key (wd_redis w)\<rparr> else w)"

definition withLock :: "('s, 'k) services \<Rightarrow> string \<Rightarrow> int \<Rightarrow> uuid \<Rightarrow> ('s, 'k, 'a) call \<Rightarrow> ('s, 'k, 'a option) call" where
  "withLock S key ttlMs randomUUID fn w =
     (case acquireLock S key ttlMs randomUUID w of
        (Inl e, w') \<Rightarrow> (Inl e, w')
      | (Inr None, w') \<Rightarrow> (Inr None, w')
      | (Inr (Some token), w') \<Rightarrow>
          (case fn w' of
             (Inl e, w'') \<Rightarrow> (Inl e, releaseLock S key token w'')
           | (Inr x, w'') \<Rightarrow> (Inr (Some x), releaseLock S key token w'')))"

subsection \<open>The client\<close>

text \<open>
  Connecting, the scripts that are registered then, the delay before the next attempt to reconnect, and the
  shutdown, which falls back to a disconnect when \<open>quit\<close> fails. \<open>connect\<close> and \<open>quit\<close> are what the client
  answers.
\<close>

datatype redis_call = RedisConnect | DefineCommand string | RedisQuit | RedisDisconnect

definition retryStrategy :: "int \<Rightarrow> ms" where
  "retryStrategy attempt = min (attempt * 200) 3000"

definition redis_onModuleInit :: "err + unit \<Rightarrow> (err + unit) \<times> redis_call list" where
  "redis_onModuleInit connect =
     (case connect of
        Inl e \<Rightarrow> (Inl e, [RedisConnect])
      | Inr _ \<Rightarrow> (Inr (), [RedisConnect, DefineCommand ''releaseLock'', DefineCommand ''tokenBucket'']))"

definition redis_onApplicationShutdown :: "err + unit \<Rightarrow> redis_call list" where
  "redis_onApplicationShutdown quit =
     (case quit of Inl _ \<Rightarrow> [RedisQuit, RedisDisconnect] | Inr _ \<Rightarrow> [RedisQuit])"

subsection \<open>The lease\<close>

text \<open>What is relied on of \<open>SET NX PX\<close> and \<open>DEL\<close>.\<close>

definition lock_commands_ok :: "('s, 'k) services \<Rightarrow> bool" where
  "lock_commands_ok S \<longleftrightarrow>
     (\<forall>s k v ttl. 0 < ttl \<longrightarrow>
        (fst (rd_set_px_nx S k v ttl s) \<longleftrightarrow> rd_get S k s = None)
        \<and> (\<forall>k'. rd_get S k' (snd (rd_set_px_nx S k v ttl s)) =
             (if k' = k \<and> rd_get S k s = None then Some v else rd_get S k' s)))
     \<and> (\<forall>s k k'. rd_get S k' (rd_del S k s) = (if k' = k then None else rd_get S k' s))"

lemma lock_commandsD:
  assumes "lock_commands_ok S"
  shows "0 < ttl \<Longrightarrow> fst (rd_set_px_nx S k v ttl s) \<longleftrightarrow> rd_get S k s = None"
    and "0 < ttl \<Longrightarrow> rd_get S k' (snd (rd_set_px_nx S k v ttl s)) =
             (if k' = k \<and> rd_get S k s = None then Some v else rd_get S k' s)"
    and "rd_get S k' (rd_del S k s) = (if k' = k then None else rd_get S k' s)"
  using assms by (auto simp: lock_commands_ok_def)

text \<open>
  Processes that compete for one key. \<open>lh_holders\<close> are the tokens of those that were told they have the
  lock and have not released it. A lease may expire at any time.
\<close>

record ('s, 'k) lease =
  lh_world :: "('s, 'k) world"
  lh_holders :: "string set"

inductive lease_step :: "('s, 'k) services \<Rightarrow> string \<Rightarrow> int \<Rightarrow> bool \<Rightarrow> ('s, 'k) lease \<Rightarrow> ('s, 'k) lease \<Rightarrow> bool"
  for S :: "('s, 'k) services" and key :: string and ttl :: int where
  ls_acquire: "token \<notin> lh_holders l \<Longrightarrow> acquireLock S key ttl token (lh_world l) = (Inr answer, w) \<Longrightarrow>
     lease_step S key ttl False l \<lparr>lh_world = w, lh_holders = lh_holders l \<union> set_option answer\<rparr>"
| ls_release: "token \<in> lh_holders l \<Longrightarrow> rd_up S (wd_redis (lh_world l)) \<Longrightarrow>
     lease_step S key ttl False l
       \<lparr>lh_world = releaseLock S key token (lh_world l), lh_holders = lh_holders l - {token}\<rparr>"
| ls_expire: "rd_get S key (wd_redis w) = None \<Longrightarrow>
     lease_step S key ttl True l \<lparr>lh_world = w, lh_holders = lh_holders l\<rparr>"

text \<open>Runs, and whether a lease expired on the way.\<close>

inductive lease_steps :: "('s, 'k) services \<Rightarrow> string \<Rightarrow> int \<Rightarrow> bool \<Rightarrow> ('s, 'k) lease \<Rightarrow> ('s, 'k) lease \<Rightarrow> bool"
  for S :: "('s, 'k) services" and key :: string and ttl :: int where
  lss_refl: "lease_steps S key ttl False l l"
| lss_more: "lease_steps S key ttl x l l' \<Longrightarrow> lease_step S key ttl y l' l'' \<Longrightarrow> lease_steps S key ttl (x \<or> y) l l''"

definition lock_value :: "('s, 'k) services \<Rightarrow> string \<Rightarrow> ('s, 'k) lease \<Rightarrow> string option" where
  "lock_value S key l = rd_get S key (wd_redis (lh_world l))"

lemma release_value:
  assumes "lock_commands_ok S" "rd_up S (wd_redis w)"
  shows "rd_get S key (wd_redis (releaseLock S key token w)) =
    (if rd_get S key (wd_redis w) = Some token then None else rd_get S key (wd_redis w))"
  using assms lock_commandsD(3) [OF assms(1)] by (simp add: releaseLock_def)

lemma acquire_value:
  assumes ok: "lock_commands_ok S" "0 < ttl" and acq: "acquireLock S key ttl token w = (Inr answer, w')"
  shows "answer = (if rd_get S key (wd_redis w) = None then Some token else None)"
    and "rd_get S key (wd_redis w') = (if rd_get S key (wd_redis w) = None then Some token else rd_get S key (wd_redis w))"
proof -
  obtain b s where set: "rd_set_px_nx S key token ttl (wd_redis w) = (b, s)" by fastforce
  with lock_commandsD(1) [OF ok, where k = key and v = token and s = "wd_redis w"]
    lock_commandsD(2) [OF ok, where k = key and k' = key and v = token and s = "wd_redis w"]
  have "b \<longleftrightarrow> rd_get S key (wd_redis w) = None"
    and "rd_get S key s = (if rd_get S key (wd_redis w) = None then Some token else rd_get S key (wd_redis w))"
    by simp_all
  then show "answer = (if rd_get S key (wd_redis w) = None then Some token else None)"
    and "rd_get S key (wd_redis w') = (if rd_get S key (wd_redis w) = None then Some token else rd_get S key (wd_redis w))"
    using acq set by (auto simp: acquireLock_def split: if_splits)
qed

lemma lease_step_holder:
  assumes "lease_step S key ttl x l l'" and ok: "lock_commands_ok S" "0 < ttl"
    and inv: "set_option (lock_value S key l) \<subseteq> lh_holders l"
  shows "set_option (lock_value S key l') \<subseteq> lh_holders l'"
  using assms(1) inv
proof cases
  case (ls_acquire token answer w)
  with acquire_value [OF ok ls_acquire(4)] inv show ?thesis by (auto simp: lock_value_def split: if_splits)
next
  case (ls_release token)
  with release_value [OF ok(1) ls_release(4)] inv show ?thesis by (auto simp: lock_value_def split: if_splits)
next
  case (ls_expire w)
  then show ?thesis by (simp add: lock_value_def)
qed

lemma lease_step_exclusive:
  assumes "lease_step S key ttl False l l'" and ok: "lock_commands_ok S" "0 < ttl"
    and inv: "set_option (lock_value S key l) = lh_holders l"
  shows "set_option (lock_value S key l') = lh_holders l'"
  using assms(1) inv
proof cases
  case (ls_acquire token answer w)
  with acquire_value [OF ok ls_acquire(3)] inv show ?thesis
    by (cases "rd_get S key (wd_redis (lh_world l))") (auto simp: lock_value_def)
next
  case (ls_release token)
  with inv have "lock_value S key l = Some token" by (metis elem_set)
  with release_value [OF ok(1) ls_release(3)] inv show ?thesis
    by (simp add: ls_release(1) lock_value_def)
qed simp

lemma lease_steps_inv:
  assumes "lease_steps S key ttl x l l'" "lock_commands_ok S" "0 < ttl"
    and "lock_value S key l = None" "lh_holders l = {}"
  shows "set_option (lock_value S key l') \<subseteq> lh_holders l' \<and> (\<not> x \<longrightarrow> set_option (lock_value S key l') = lh_holders l')"
  using assms
proof (induction rule: lease_steps.induct)
  case (lss_more x l l' y l'')
  then have inv: "set_option (lock_value S key l') \<subseteq> lh_holders l'"
    "\<not> x \<longrightarrow> set_option (lock_value S key l') = lh_holders l'" by auto
  have "set_option (lock_value S key l'') = lh_holders l''" if "\<not> x" "\<not> y"
  proof -
    have step: "lease_step S key ttl False l' l''" using lss_more(2) that by simp
    show ?thesis by (rule lease_step_exclusive [OF step lss_more(4,5)]) (use inv(2) that in blast)
  qed
  with lease_step_holder [OF lss_more(2,4,5) inv(1)] show ?case by blast
qed simp

text \<open>
  C24. The lease is exclusive until it expires, and harmless after: however processes acquire and
  release one key, as long as no lease has expired at most one of them believes to hold it and the
  key holds its token; and in every run, expiries included, the token in the key belongs to a current
  holder, and a holder's release removes its own lock and never another's.
\<close>

theorem lease_mutual_exclusion:
  assumes "lock_commands_ok S" and "0 < ttl" and "lock_value S key l0 = None" and "lh_holders l0 = {}"
    and "lease_steps S key ttl expired l0 l"
  shows "(\<not> expired \<longrightarrow> (\<forall>a \<in> lh_holders l. \<forall>b \<in> lh_holders l. a = b))
    \<and> (\<forall>t. lock_value S key l = Some t \<longrightarrow> t \<in> lh_holders l)
    \<and> (\<forall>t t'. rd_up S (wd_redis (lh_world l)) \<longrightarrow> lock_value S key l = Some t' \<longrightarrow> t \<noteq> t' \<longrightarrow>
         rd_get S key (wd_redis (releaseLock S key t (lh_world l))) = Some t')"
proof -
  have "set_option (lock_value S key l) \<subseteq> lh_holders l"
    and "\<not> expired \<longrightarrow> set_option (lock_value S key l) = lh_holders l"
    using lease_steps_inv [OF assms(5,1,2,3,4)] by auto
  then show ?thesis
    using release_value [OF assms(1), of "lh_world l" key] by (auto simp: lock_value_def) (metis elem_set option.inject)
qed

lemma mini_lock_commands: "lock_commands_ok mini"
  by (simp add: lock_commands_ok_def mini_def)

lemma lease_mutual_exclusion_witness:
  "\<exists>l. lease_steps mini ''lock:a'' 5000 False \<lparr>lh_world = mini_world empty_db, lh_holders = {}\<rparr> l
     \<and> lh_holders l = {''t1''} \<and> rd_get mini ''lock:a'' (wd_redis (releaseLock mini ''lock:a'' ''t2'' (lh_world l))) = Some ''t1''"
proof -
  let ?start = "\<lparr>lh_world = mini_world empty_db, lh_holders = {}\<rparr>"
  obtain a w where a: "acquireLock mini ''lock:a'' 5000 ''t1'' (lh_world ?start) = (Inr a, w)" "a = Some ''t1''"
      "rd_get mini ''lock:a'' (wd_redis w) = Some ''t1''"
    by (simp add: acquireLock_def mini_def mini_world_def)
  let ?l = "\<lparr>lh_world = w, lh_holders = lh_holders ?start \<union> set_option a\<rparr>"
  have step: "lease_step mini ''lock:a'' 5000 False ?start ?l"
    by (rule ls_acquire [OF _ a(1)]) simp
  have run: "lease_steps mini ''lock:a'' 5000 (False \<or> False) ?start ?l"
    by (rule lss_more [OF lss_refl step])
  have "lock_value mini ''lock:a'' ?start = None" by (simp add: lock_value_def mini_def mini_world_def)
  from lease_mutual_exclusion [OF mini_lock_commands _ this _ run]
  have "rd_get mini ''lock:a'' (wd_redis (releaseLock mini ''lock:a'' ''t2'' (lh_world ?l))) = Some ''t1''"
    using a(3) by (simp add: lock_value_def mini_def)
  with run a(2) show ?thesis by (intro exI [of _ ?l]) simp
qed

end
