(* ===== verification/Cache.thy ===== *)
theory Cache
  imports Redis Backoff
begin

section \<open>The cache\<close>

text \<open>
  \<open>redis/cache.service.ts\<close>. Values are JSON values; the loader is a call on the world. An entry is the
  envelope \<open>{v, freshUntil}\<close> as JSON text. What a call meets is in \<open>cache_env\<close>: its lock token, its
  random draw, and, for a caller that waits for another one's load, the worlds it wakes up to after each
  sleep. A background refresh runs after the call returned: \<open>getOrLoad\<close> says whether one was started.
\<close>

definition falsy :: "jsval \<Rightarrow> bool" where
  "falsy v = (case v of JUndef \<Rightarrow> True | JNull \<Rightarrow> True | JBool b \<Rightarrow> \<not> b | JNum r \<Rightarrow> r = 0 | JStr s \<Rightarrow> s = [] | _ \<Rightarrow> False)"

definition envelope :: "jsval \<Rightarrow> ms \<Rightarrow> jsval" where
  "envelope v freshUntil = JObj [(''v'', v), (''freshUntil'', JNum (of_int freshUntil))]"

record ('s, 'k) cache_env =
  ce_token :: uuid
  ce_random :: rat
  ce_rounds :: "('s, 'k) world list"

subsection \<open>Entries\<close>

text \<open>\<open>read\<close>, with the caller's test of the entry: \<open>None\<close> when there is none or Redis fails.\<close>

definition cache_read :: "('s, 'k) services \<Rightarrow> string \<Rightarrow> ('s, 'k) world \<Rightarrow> jsval option" where
  "cache_read S key w =
     (if \<not> rd_up S (wd_redis w) then None
      else case rd_get S key (wd_redis w) of
        None \<Rightarrow> None
      | Some raw \<Rightarrow>
          if raw = [] then None
          else case JSON_parse raw of None \<Rightarrow> None | Some e \<Rightarrow> if falsy e then None else Some e)"

definition entry_v :: "jsval \<Rightarrow> jsval" where
  "entry_v e = js_get ''v'' e"

text \<open>\<open>now < entry.freshUntil\<close>, which \<open>write\<close> always stores as a number.\<close>

definition is_fresh :: "ms \<Rightarrow> jsval \<Rightarrow> bool" where
  "is_fresh now e = (case js_get ''freshUntil'' e of JNum r \<Rightarrow> of_int now < r | _ \<Rightarrow> False)"

text \<open>Redis refuses an expiry that is not positive; the error is swallowed like any other.\<close>

definition cache_write :: "config \<Rightarrow> ('s, 'k) services \<Rightarrow> string \<Rightarrow> jsval \<Rightarrow> int option \<Rightarrow> rat
    \<Rightarrow> ('s, 'k) world \<Rightarrow> ('s, 'k) world" where
  "cache_write cfg S key v ttlSeconds rnd w =
     (let base = orElse ttlSeconds (cache_ttlSeconds cfg);
          freshSeconds = ttlWithJitter base (cache_ttlJitterSeconds cfg) rnd;
          redisTtl = freshSeconds + cache_staleSeconds cfg in
      if rd_up S (wd_redis w) \<and> 0 < redisTtl
      then w\<lparr>wd_redis := rd_set_ex S key (JSON_stringify (envelope v (wd_now w + freshSeconds * 1000))) redisTtl (wd_redis w)\<rparr>
      else w)"

definition cache_invalidate :: "('s, 'k) services \<Rightarrow> string \<Rightarrow> ('s, 'k) world \<Rightarrow> ('s, 'k) world" where
  "cache_invalidate S key w = (if rd_up S (wd_redis w) then w\<lparr>wd_redis := rd_del S key (wd_redis w)\<rparr> else w)"

subsection \<open>Loading\<close>

definition count_cache :: "string \<Rightarrow> string \<Rightarrow> ('s, 'k) world \<Rightarrow> ('s, 'k) world" where
  "count_cache name result w = upd_metrics (\<lambda>m. m\<lparr>cacheRequestsTotal := inc2 name result (cacheRequestsTotal m)\<rparr>) w"

definition count_wait :: "string \<Rightarrow> ('s, 'k) world \<Rightarrow> ('s, 'k) world" where
  "count_wait name w = upd_metrics (\<lambda>m. m\<lparr>cacheSingleFlightWaitsTotal := inc1 name (cacheSingleFlightWaitsTotal m)\<rparr>) w"

definition load_write :: "config \<Rightarrow> ('s, 'k) services \<Rightarrow> string \<Rightarrow> int option \<Rightarrow> rat \<Rightarrow> ('s, 'k, jsval) call
    \<Rightarrow> ('s, 'k, jsval) call" where
  "load_write cfg S key ttlSeconds rnd load w =
     (case load w of
        (Inl e, w') \<Rightarrow> (Inl e, w')
      | (Inr v, w') \<Rightarrow> (Inr v, cache_write cfg S key v ttlSeconds rnd w'))"

text \<open>
  The loser's loop: each element of the list is the world after one sleep of 20 ms. The answer is the
  entry found, if any, and the world in which the loop was left; \<open>None\<close> when the list ends first.
\<close>

fun await :: "('s, 'k) services \<Rightarrow> string \<Rightarrow> ms \<Rightarrow> ('s, 'k) world \<Rightarrow> ('s, 'k) world list
    \<Rightarrow> (jsval option \<times> ('s, 'k) world) option" where
  "await S key deadline w rounds =
     (if \<not> wd_now w < deadline then Some (None, w)
      else case rounds of
        [] \<Rightarrow> None
      | w' # later \<Rightarrow>
          (case cache_read S key w' of Some e \<Rightarrow> Some (Some e, w') | None \<Rightarrow> await S key deadline w' later))"

declare await.simps [simp del]

definition lock_key :: "string \<Rightarrow> string" where
  "lock_key key = ''lock:'' @ key"

definition singleFlight :: "config \<Rightarrow> ('s, 'k) services \<Rightarrow> string \<Rightarrow> string \<Rightarrow> int option \<Rightarrow> ('s, 'k) cache_env
    \<Rightarrow> ('s, 'k, jsval) call \<Rightarrow> ('s, 'k) world \<Rightarrow> ((err + jsval) \<times> ('s, 'k) world) option" where
  "singleFlight cfg S key name ttlSeconds ce load w =
     (case acquireLock S (lock_key key) (cache_lockTtlMs cfg) (ce_token ce) w of
        (Inl e, w1) \<Rightarrow> Some (Inl e, w1)
      | (Inr (Some token), w1) \<Rightarrow>
          (case load_write cfg S key ttlSeconds (ce_random ce) load w1 of
             (answer, w2) \<Rightarrow> Some (answer, releaseLock S (lock_key key) token w2))
      | (Inr None, w1) \<Rightarrow>
          let w2 = count_wait name w1; deadline = wd_now w2 + min (cache_lockTtlMs cfg) 2000 in
          case await S key deadline w2 (ce_rounds ce) of
            None \<Rightarrow> None
          | Some (Some e, w3) \<Rightarrow> Some (Inr (entry_v e), w3)
          | Some (None, w3) \<Rightarrow> Some (load w3))"

definition refreshInBackground :: "config \<Rightarrow> ('s, 'k) services \<Rightarrow> string \<Rightarrow> int option \<Rightarrow> ('s, 'k) cache_env
    \<Rightarrow> ('s, 'k, jsval) call \<Rightarrow> ('s, 'k) world \<Rightarrow> ('s, 'k) world" where
  "refreshInBackground cfg S key ttlSeconds ce load w =
     snd (withLock S (lock_key key) (cache_lockTtlMs cfg) (ce_token ce)
            (load_write cfg S key ttlSeconds (ce_random ce) load) w)"

text \<open>The answer, the world after, and whether a refresh was started; \<open>None\<close> while still waiting.\<close>

definition getOrLoad :: "config \<Rightarrow> ('s, 'k) services \<Rightarrow> string \<Rightarrow> string \<Rightarrow> int option \<Rightarrow> ('s, 'k) cache_env
    \<Rightarrow> ('s, 'k, jsval) call \<Rightarrow> ('s, 'k) world \<Rightarrow> (((err + jsval) \<times> ('s, 'k) world) \<times> bool) option" where
  "getOrLoad cfg S key name ttlSeconds ce load w =
     (if \<not> cache_enabled cfg then Some (load (count_cache name ''disabled'' w), False)
      else case cache_read S key w of
        Some e \<Rightarrow>
          if is_fresh (wd_now w) e then Some ((Inr (entry_v e), count_cache name ''hit'' w), False)
          else if cache_stampedeProtection cfg
          then Some ((Inr (entry_v e), count_cache name ''stale'' w), True)
          else Some (load_write cfg S key ttlSeconds (ce_random ce) load (count_cache name ''stale'' w), False)
      | None \<Rightarrow>
          if \<not> cache_stampedeProtection cfg
          then Some (load_write cfg S key ttlSeconds (ce_random ce) load (count_cache name ''miss'' w), False)
          else map_option (\<lambda>r. (r, False))
                 (singleFlight cfg S key name ttlSeconds ce load (count_cache name ''miss'' w)))"

subsection \<open>What is relied on\<close>

text \<open>\<open>SET EX\<close> stores the value under its key.\<close>

definition store_commands_ok :: "('s, 'k) services \<Rightarrow> bool" where
  "store_commands_ok S \<longleftrightarrow>
     (\<forall>s k v ttl k'. 0 < ttl \<longrightarrow> rd_get S k' (rd_set_ex S k v ttl s) = (if k' = k then Some v else rd_get S k' s))"

lemma envelope_ok: "json_ok v \<Longrightarrow> json_ok (envelope v t)"
  by (auto simp: envelope_def)

lemma envelope_reads_back: "json_ok v \<Longrightarrow> JSON_parse (JSON_stringify (envelope v t)) = Some (envelope v t)"
  using json_ok_reads [OF envelope_ok] .

lemma envelope_simps [simp]:
  "entry_v (envelope v t) = v" "is_fresh now (envelope v t) \<longleftrightarrow> now < t" "\<not> falsy (envelope v t)"
  by (simp_all add: entry_v_def is_fresh_def envelope_def js_get_def falsy_def)

lemma lock_key_differs [simp]: "key \<noteq> lock_key key" "lock_key key \<noteq> key"
proof -
  have "length key \<noteq> length (lock_key key)" by (simp add: lock_key_def)
  then show "key \<noteq> lock_key key" "lock_key key \<noteq> key" by auto
qed

lemma count_cache_frame [simp]:
  "wd_db (count_cache n r w) = wd_db w" "wd_redis (count_cache n r w) = wd_redis w"
  "wd_kafka (count_cache n r w) = wd_kafka w" "wd_now (count_cache n r w) = wd_now w"
  "wd_db (count_wait n w) = wd_db w" "wd_redis (count_wait n w) = wd_redis w"
  "wd_kafka (count_wait n w) = wd_kafka w" "wd_now (count_wait n w) = wd_now w"
  by (simp_all add: count_cache_def count_wait_def)

lemma cache_write_frame [simp]:
  "wd_db (cache_write cfg S key v ttl rnd w) = wd_db w" "wd_kafka (cache_write cfg S key v ttl rnd w) = wd_kafka w"
  "wd_now (cache_write cfg S key v ttl rnd w) = wd_now w" "wd_metrics (cache_write cfg S key v ttl rnd w) = wd_metrics w"
  by (simp_all add: cache_write_def Let_def)

lemma cache_read_same: "wd_redis w' = wd_redis w \<Longrightarrow> cache_read S key w' = cache_read S key w"
  by (simp add: cache_read_def)

end
