(* ===== verification/CacheSafety.thy ===== *)
theory CacheSafety
  imports Cache
begin

section \<open>What the cache promises its clients\<close>

text \<open>
  The contract between the cache and a client that gives it a loader, as a locale; what is served when,
  when the wait for another caller's load ends, and what happens while Redis is down.
\<close>

subsection \<open>Entries stay what loaders returned\<close>

definition cache_good :: "('s, 'k) services \<Rightarrow> string \<Rightarrow> (jsval \<Rightarrow> bool) \<Rightarrow> ('s, 'k) world \<Rightarrow> bool" where
  "cache_good S key good w \<longleftrightarrow> (\<forall>e. cache_read S key w = Some e \<longrightarrow> good (entry_v e))"

lemma cache_good_same: "wd_redis w' = wd_redis w \<Longrightarrow> cache_good S key good w' = cache_good S key good w"
  by (simp add: cache_good_def cache_read_def)

lemma cache_good_count [simp]:
  "cache_good S key good (count_cache n r w) = cache_good S key good w"
  "cache_good S key good (count_wait n w) = cache_good S key good w"
  by (rule cache_good_same, simp)+

text \<open>An operation that only changes other keys, and only while Redis is up, invents no entry.\<close>

lemma cache_good_other_keys:
  assumes "cache_good S key good w" and "w' = w \<or> rd_up S (wd_redis w) \<and> rd_get S key (wd_redis w') = rd_get S key (wd_redis w)"
  shows "cache_good S key good w'"
  using assms by (auto simp: cache_good_def cache_read_def split: if_splits)

lemma acquireLock_good:
  assumes "lock_commands_ok S" "0 < ttl" "acquireLock S (lock_key key) ttl token w = (a, w')" "cache_good S key good w"
  shows "cache_good S key good w'"
proof (rule cache_good_other_keys [OF assms(4)])
  show "w' = w \<or> rd_up S (wd_redis w) \<and> rd_get S key (wd_redis w') = rd_get S key (wd_redis w)"
    using assms(3) lock_commandsD(2) [OF assms(1,2), where k = "lock_key key" and k' = key and v = token and s = "wd_redis w"]
    by (auto simp: acquireLock_def split: if_splits prod.splits)
qed

lemma releaseLock_good:
  assumes "lock_commands_ok S" "cache_good S key good w"
  shows "cache_good S key good (releaseLock S (lock_key key) token w)"
  by (rule cache_good_other_keys [OF assms(2)]) (auto simp: releaseLock_def lock_commandsD(3) [OF assms(1)])

lemma cache_write_read:
  assumes "store_commands_ok S" "json_ok v"
  shows "cache_read S key (cache_write cfg S key v ttl rnd w) \<in>
    {cache_read S key w, None, Some (envelope v (wd_now w + ttlWithJitter (orElse ttl (cache_ttlSeconds cfg)) (cache_ttlJitterSeconds cfg) rnd * 1000))}"
  using assms by (simp add: cache_read_def cache_write_def Let_def store_commands_ok_def envelope_reads_back)

lemma cache_write_good:
  assumes "store_commands_ok S" "json_ok v" "good v" "cache_good S key good w"
  shows "cache_good S key good (cache_write cfg S key v ttl rnd w)"
  using cache_write_read [OF assms(1,2), of key cfg ttl rnd w] assms(3,4) by (auto simp: cache_good_def)

lemma await_from_rounds:
  "await S key deadline w rounds = Some (found, w') \<Longrightarrow>
    (w' = w \<or> w' \<in> set rounds) \<and> (\<forall>e. found = Some e \<longrightarrow> cache_read S key w' = Some e)
    \<and> (found = None \<longrightarrow> deadline \<le> wd_now w')"
proof (induction rounds arbitrary: w)
  case Nil
  then show ?case by (auto simp: await.simps split: if_splits)
next
  case (Cons w1 later)
  show ?case
  proof (cases "wd_now w < deadline")
    case True
    with Cons.prems have "(case cache_read S key w1 of Some e \<Rightarrow> Some (Some e, w1) | None \<Rightarrow> await S key deadline w1 later)
        = Some (found, w')" by (simp add: await.simps [of S key deadline w])
    with Cons.IH [of w1] show ?thesis by (cases "cache_read S key w1") auto
  next
    case False
    with Cons.prems show ?thesis by (simp add: await.simps)
  qed
qed

lemma await_found_in_rounds:
  "await S key deadline w rounds = Some (Some e, w') \<Longrightarrow> w' \<in> set rounds"
proof (induction rounds arbitrary: w)
  case (Cons w1 later)
  then show ?case
    by (cases "cache_read S key w1") (auto simp: await.simps [of S key deadline w] split: if_splits)
qed (simp add: await.simps split: if_splits)

text \<open>
  A client of the cache: its loader only reads, and in the states \<open>P\<close> it describes it returns a
  \<open>good\<close> value.
\<close>

locale cached_load =
  fixes load :: "('s, 'k, jsval) call" and P :: "('s, 'k) world \<Rightarrow> bool" and good :: "jsval \<Rightarrow> bool"
  assumes load_redis: "wd_redis (snd (load w)) = wd_redis w"
    and load_db: "wd_db (snd (load w)) = wd_db w"
    and load_good: "P w \<Longrightarrow> load w = (Inr v, w') \<Longrightarrow> good v"
    and P_db: "wd_db w' = wd_db w \<Longrightarrow> P w' = P w"
begin

lemma load_write_good:
  assumes "store_commands_ok S" "\<And>v. good v \<Longrightarrow> json_ok v" "P w" "cache_good S key good w"
    and "load_write cfg S key ttl rnd load w = (answer, w')"
  shows "(\<forall>v. answer = Inr v \<longrightarrow> good v) \<and> cache_good S key good w' \<and> wd_db w' = wd_db w
    \<and> (\<forall>e. answer = Inl e \<longrightarrow> fst (load w) = Inl e)"
proof (cases "load w")
  case (Pair r w1)
  then have w1: "cache_good S key good w1" "wd_db w1 = wd_db w"
    using assms(4) load_redis [of w] load_db [of w] cache_good_same [of w1 w S key good] by simp_all
  show ?thesis
  proof (cases r)
    case (Inl e)
    with Pair assms(5) w1 show ?thesis by (auto simp: load_write_def)
  next
    case (Inr v)
    with Pair load_good [OF assms(3)] have "good v" by blast
    with Pair Inr assms(5) w1 cache_write_good [OF assms(1,2), of v good key w1] show ?thesis
      by (auto simp: load_write_def)
  qed
qed

lemma singleFlight_good:
  assumes ok: "lock_commands_ok S" "store_commands_ok S" "0 < cache_lockTtlMs cfg" "\<And>v. good v \<Longrightarrow> json_ok v"
    and w: "P w" "cache_good S key good w" "\<forall>x \<in> set (ce_rounds ce). P x \<and> cache_good S key good x"
    and run: "singleFlight cfg S key name ttl ce load w = Some (answer, w')"
  shows "(\<forall>v. answer = Inr v \<longrightarrow> good v) \<and> cache_good S key good w'
    \<and> (\<forall>e. answer = Inl e \<longrightarrow> e = RedisDown \<or> (\<exists>x. P x \<and> fst (load x) = Inl e))"
proof -
  obtain a w1 where acq: "acquireLock S (lock_key key) (cache_lockTtlMs cfg) (ce_token ce) w = (a, w1)" by fastforce
  have w1: "cache_good S key good w1" "wd_db w1 = wd_db w"
    using acquireLock_good [OF ok(1,3) acq w(2)] acq by (auto simp: acquireLock_def split: if_splits prod.splits)
  have P1: "P w1" using P_db [OF w1(2)] w(1) by simp
  consider (down) e where "a = Inl e" | (won) token where "a = Inr (Some token)" | (lost) "a = Inr None"
    by (metis not_None_eq sumE)
  then show ?thesis
  proof cases
    case down
    with acq have "e = RedisDown" by (auto simp: acquireLock_def split: if_splits prod.splits)
    with down run acq w1 show ?thesis by (auto simp: singleFlight_def)
  next
    case won
    obtain r w2 where lw: "load_write cfg S key ttl (ce_random ce) load w1 = (r, w2)" by fastforce
    note g = load_write_good [OF ok(2,4) P1 w1(1) lw]
    from run won acq lw have "answer = r" "w' = releaseLock S (lock_key key) token w2"
      by (simp_all add: singleFlight_def)
    with g P1 releaseLock_good [OF ok(1)] show ?thesis by blast
  next
    case lost
    let ?w2 = "count_wait name w1"
    let ?dl = "wd_now w1 + min (cache_lockTtlMs cfg) 2000"
    obtain found w3 where aw: "await S key ?dl ?w2 (ce_rounds ce) = Some (found, w3)"
      using run lost acq by (auto simp: singleFlight_def Let_def split: option.splits)
    have in_rounds: "w3 = ?w2 \<or> w3 \<in> set (ce_rounds ce)"
      and found: "\<forall>e. found = Some e \<longrightarrow> cache_read S key w3 = Some e"
      using await_from_rounds [OF aw] by blast+
    have P2: "P ?w2" using P_db [of ?w2 w1] P1 by simp
    from in_rounds have w3: "P w3" "cache_good S key good w3"
      using w(3) P2 w1(1) by auto
    show ?thesis
    proof (cases found)
      case (Some e)
      with run lost acq aw have "answer = Inr (entry_v e)" "w' = w3" by (simp_all add: singleFlight_def Let_def)
      moreover from Some found have "cache_read S key w3 = Some e" by simp
      ultimately show ?thesis using w3 by (auto simp: cache_good_def)
    next
      case None
      with run lost acq aw have ld: "load w3 = (answer, w')" by (simp add: singleFlight_def Let_def)
      then have "cache_good S key good w'"
        using load_redis [of w3] w3(2) cache_good_same [of w' w3 S key good] by simp
      with ld w3(1) load_good [OF w3(1)] show ?thesis by auto
    qed
  qed
qed

lemma getOrLoad_good:
  assumes ok: "lock_commands_ok S" "store_commands_ok S" "0 < cache_lockTtlMs cfg" "\<And>v. good v \<Longrightarrow> json_ok v"
    and w: "P w" "cache_good S key good w" "\<forall>x \<in> set (ce_rounds ce). P x \<and> cache_good S key good x"
    and run: "getOrLoad cfg S key name ttl ce load w = Some ((answer, w'), refresh)"
  shows "(\<forall>v. answer = Inr v \<longrightarrow> good v) \<and> cache_good S key good w'
    \<and> (\<forall>e. answer = Inl e \<longrightarrow> e = RedisDown \<or> (\<exists>x. P x \<and> fst (load x) = Inl e))"
proof -
  have cnt: "P (count_cache name r w)" "cache_good S key good (count_cache name r w)" for r
    using w(1,2) P_db [of "count_cache name r w" w] by simp_all
  have by_write: ?thesis if "load_write cfg S key ttl (ce_random ce) load (count_cache name r w) = (answer, w')" for r
    using load_write_good [OF ok(2,4) cnt that] cnt(1) by blast
  consider "\<not> cache_enabled cfg"
    | e where "cache_enabled cfg" "cache_read S key w = Some e"
    | "cache_enabled cfg" "cache_read S key w = None" by (cases "cache_read S key w") auto
  then show ?thesis
  proof cases
    case 1
    let ?w1 = "count_cache name ''disabled'' w"
    from run 1 have ld: "load ?w1 = (answer, w')" by (simp add: getOrLoad_def)
    then have "cache_good S key good w'"
      using load_redis [of ?w1] cnt(2) cache_good_same [of w' ?w1 S key good] by simp
    moreover have "\<exists>x. P x \<and> fst (load x) = Inl e" if "answer = Inl e" for e
      by (rule exI [of _ ?w1]) (simp add: cnt ld that)
    ultimately show ?thesis using ld load_good [OF cnt(1), of "''disabled''"] by blast
  next
    case (2 e)
    then have "good (entry_v e)" using w(2) by (simp add: cache_good_def)
    consider "answer = Inr (entry_v e)" "w' = count_cache name ''hit'' w \<or> w' = count_cache name ''stale'' w"
      | "load_write cfg S key ttl (ce_random ce) load (count_cache name ''stale'' w) = (answer, w')"
      using run 2 by (auto simp: getOrLoad_def split: if_splits)
    then show ?thesis
    proof cases
      case 1
      with cnt(2) \<open>good (entry_v e)\<close> show ?thesis by auto
    qed (rule by_write)
  next
    case 3
    show ?thesis
    proof (cases "cache_stampedeProtection cfg")
      case True
      with run 3 have "singleFlight cfg S key name ttl ce load (count_cache name ''miss'' w) = Some (answer, w')"
        by (auto simp: getOrLoad_def)
      from singleFlight_good [OF ok cnt w(3) this] show ?thesis .
    next
      case False
      with run 3 have "load_write cfg S key ttl (ce_random ce) load (count_cache name ''miss'' w) = (answer, w')"
        by (simp add: getOrLoad_def)
      then show ?thesis by (rule by_write)
    qed
  qed
qed

lemma refresh_good:
  assumes ok: "lock_commands_ok S" "store_commands_ok S" "0 < cache_lockTtlMs cfg" "\<And>v. good v \<Longrightarrow> json_ok v"
    and w: "P w" "cache_good S key good w"
  shows "cache_good S key good (refreshInBackground cfg S key ttl ce load w)"
proof -
  obtain a w1 where acq: "acquireLock S (lock_key key) (cache_lockTtlMs cfg) (ce_token ce) w = (a, w1)" by fastforce
  have w1: "cache_good S key good w1" "wd_db w1 = wd_db w"
    using acquireLock_good [OF ok(1,3) acq w(2)] acq by (auto simp: acquireLock_def split: if_splits prod.splits)
  have P1: "P w1" using P_db [OF w1(2)] w(1) by simp
  obtain r w2 where lw: "load_write cfg S key ttl (ce_random ce) load w1 = (r, w2)" by fastforce
  from load_write_good [OF ok(2,4) P1 w1(1) lw] have "cache_good S key good (releaseLock S (lock_key key) t w2)" for t
    using releaseLock_good [OF ok(1)] by blast
  with acq lw w1 show ?thesis
    by (auto simp: refreshInBackground_def withLock_def split: sum.splits option.splits)
qed

end

subsection \<open>When an entry is served\<close>

text \<open>
  An entry's two windows: once a value has been written, for exactly the fresh seconds drawn for it
  (\<open>base\<close> plus jitter) every request gets that value and the loader is not run; afterwards, while Redis
  still holds the entry, protected requests get it at once and a background refresh is started; and from an
  invalidation on, the value is not served but loaded again.
\<close>

theorem entry_windows:
  assumes "store_commands_ok S" and "lock_commands_ok S" and "json_ok v"
    and "cache_enabled cfg" and "rd_up S (wd_redis w)"
    and "0 \<le> cache_staleSeconds cfg"
    and "wd_redis later = wd_redis (cache_write cfg S key v ttl rnd w)" and "rd_up S (wd_redis later)"
  defines "freshUntil \<equiv> wd_now w + ttlWithJitter (orElse ttl (cache_ttlSeconds cfg)) (cache_ttlJitterSeconds cfg) rnd * 1000"
  shows "getOrLoad cfg S key name ttl ce load later =
      (if wd_now later < freshUntil then Some ((Inr v, count_cache name ''hit'' later), False)
       else if cache_stampedeProtection cfg then Some ((Inr v, count_cache name ''stale'' later), True)
       else Some (load_write cfg S key ttl (ce_random ce) load (count_cache name ''stale'' later), False))
    \<and> cache_read S key (cache_invalidate S key later) = None"
proof -
  have "1 \<le> ttlWithJitter b j rnd" for b j by (simp add: ttlWithJitter_def Let_def)
  then have "0 < ttlWithJitter b j rnd + cache_staleSeconds cfg" for b j
    using assms(6) by (metis add_strict_increasing zero_less_one less_le_trans)
  then have "cache_read S key later = Some (envelope v freshUntil)"
    using assms(1,3,5,7,8)
    by (simp add: cache_read_def cache_write_def Let_def store_commands_ok_def envelope_reads_back freshUntil_def)
  moreover have "cache_read S key (cache_invalidate S key later) = None"
    using assms(8) lock_commandsD(3) [OF assms(2)] by (simp add: cache_read_def cache_invalidate_def)
  ultimately show ?thesis using assms(4) by (simp add: getOrLoad_def)
qed

text \<open>
  While Redis is down the cache is transparent only without stampede protection: then every request is
  loaded and answered as the loader answers, and nothing is stored; with protection, the read falls through
  but taking the single-flight lock throws, so every request fails and the loader is never run.
\<close>

theorem redis_outage:
  assumes "cache_enabled cfg" and "\<not> rd_up S (wd_redis w)" and "\<And>x. wd_redis (snd (load x)) = wd_redis x"
  shows "getOrLoad cfg S key name ttl ce load w =
    (if cache_stampedeProtection cfg then Some ((Inl RedisDown, count_cache name ''miss'' w), False)
     else Some (load (count_cache name ''miss'' w), False))"
proof -
  have "load_write cfg S key ttl rnd load x = load x" if "\<not> rd_up S (wd_redis x)" for x rnd
    using assms(3) [of x] that by (cases "load x") (simp add: load_write_def cache_write_def Let_def split: sum.splits)
  with assms(1,2) show ?thesis
    by (simp add: getOrLoad_def cache_read_def singleFlight_def acquireLock_def)
qed

subsection \<open>Waiting for another caller's load\<close>

text \<open>Every sleep takes 20 ms at least.\<close>

fun rounds_advance :: "('s, 'k) world \<Rightarrow> ('s, 'k) world list \<Rightarrow> bool" where
  "rounds_advance w [] = True"
| "rounds_advance w (w' # later) = (wd_now w + 20 \<le> wd_now w' \<and> rounds_advance w' later)"

lemma await_ends:
  "rounds_advance w rounds \<Longrightarrow> deadline - wd_now w \<le> 20 * int (length rounds) \<Longrightarrow>
    await S key deadline w rounds \<noteq> None"
proof (induction rounds arbitrary: w)
  case Nil
  then show ?case by (simp add: await.simps)
next
  case (Cons w' later)
  then have "await S key deadline w' later \<noteq> None" by auto
  then show ?case by (simp add: await.simps [of S key deadline w] split: option.splits)
qed

lemma await_finds:
  assumes "cache_read S key x = Some e" "rounds = before @ x # later" "\<forall>y \<in> set before. cache_read S key y = None"
    and "\<forall>y \<in> set (w # before). wd_now y < deadline"
  shows "await S key deadline w rounds = Some (Some e, x)"
  using assms
proof (induction before arbitrary: w rounds)
  case Nil
  then show ?case by (simp add: await.simps [of S key deadline w])
next
  case (Cons y before)
  have "await S key deadline y (before @ x # later) = Some (Some e, x)"
    using Cons.prems by (intro Cons.IH) auto
  with Cons.prems show ?case by (simp add: await.simps [of S key deadline w])
qed

text \<open>
  The wait of a single-flight loser is bounded and useful: within 100 sleeps (or fewer, when the lock
  lives less than two seconds) it returns; if the winner's entry becomes readable before the deadline,
  that entry is the answer whatever the loser's own loader would do; and the loser loads itself only
  after the deadline.
\<close>

theorem single_flight_loser_returns:
  assumes "acquireLock S (lock_key key) (cache_lockTtlMs cfg) (ce_token ce) w = (Inr None, w1)"
    and "rounds_advance w1 (ce_rounds ce)" and "min (cache_lockTtlMs cfg) 2000 \<le> 20 * int (length (ce_rounds ce))"
  shows "(\<exists>answer w'. singleFlight cfg S key name ttl ce load w = Some (answer, w')
      \<and> ((\<exists>x \<in> set (ce_rounds ce). \<exists>e. cache_read S key x = Some e \<and> answer = Inr (entry_v e) \<and> w' = x)
         \<or> (\<exists>x. (answer, w') = load x \<and> wd_now w1 + min (cache_lockTtlMs cfg) 2000 \<le> wd_now x)))
    \<and> (\<forall>before x later e. ce_rounds ce = before @ x # later \<and> cache_read S key x = Some e
        \<and> (\<forall>y \<in> set before. cache_read S key y = None)
        \<and> (\<forall>y \<in> set (w1 # before). wd_now y < wd_now w1 + min (cache_lockTtlMs cfg) 2000)
        \<longrightarrow> singleFlight cfg S key name ttl ce load w = Some (Inr (entry_v e), x))"
proof -
  let ?w2 = "count_wait name w1" and ?dl = "wd_now w1 + min (cache_lockTtlMs cfg) 2000"
  have same: "await S key ?dl ?w2 (ce_rounds ce) = Some (f, x) \<Longrightarrow> singleFlight cfg S key name ttl ce load w =
      (case f of Some e \<Rightarrow> Some (Inr (entry_v e), x) | None \<Rightarrow> Some (load x))" for f x
    using assms(1) by (simp add: singleFlight_def Let_def split: option.splits)
  have "rounds_advance ?w2 (ce_rounds ce)" using assms(2) by (cases "ce_rounds ce") auto
  then have "await S key ?dl ?w2 (ce_rounds ce) \<noteq> None" using assms(3) by (intro await_ends) auto
  then obtain f x where aw: "await S key ?dl ?w2 (ce_rounds ce) = Some (f, x)" by auto
  note aw_in = await_from_rounds [OF aw]
  have first: "\<exists>answer w'. singleFlight cfg S key name ttl ce load w = Some (answer, w')
      \<and> ((\<exists>x \<in> set (ce_rounds ce). \<exists>e. cache_read S key x = Some e \<and> answer = Inr (entry_v e) \<and> w' = x)
         \<or> (\<exists>x. (answer, w') = load x \<and> ?dl \<le> wd_now x))"
  proof (cases f)
    case None
    then show ?thesis using same [OF aw] aw_in by (cases "load x") (auto intro!: exI [of _ x])
  next
    case (Some e)
    have "x \<in> set (ce_rounds ce)"
      using aw Some await_found_in_rounds by blast
    then show ?thesis using same [OF aw] aw_in Some by auto
  qed
  have second: "singleFlight cfg S key name ttl ce load w = Some (Inr (entry_v e), x)"
    if "ce_rounds ce = before @ x # later" "cache_read S key x = Some e" "\<forall>y \<in> set before. cache_read S key y = None"
      "\<forall>y \<in> set (w1 # before). wd_now y < ?dl" for before x later e
  proof -
    have "await S key ?dl ?w2 (ce_rounds ce) = Some (Some e, x)"
      by (rule await_finds [OF that(2,1,3)]) (use that(4) in auto)
    from same [OF this] show ?thesis by simp
  qed
  from first second show ?thesis by blast
qed

subsection \<open>Concrete runs\<close>

definition load_value :: "jsval \<Rightarrow> ('s, 'k, jsval) call" where
  "load_value v w = (Inr v, w)"

definition no_rounds :: "uuid \<Rightarrow> ('s, 'k) cache_env" where
  "no_rounds token = \<lparr>ce_token = token, ce_random = 0, ce_rounds = []\<rparr>"

lemma mini_ok: "store_commands_ok mini" "lock_commands_ok mini"
  by (simp_all add: store_commands_ok_def lock_commands_ok_def mini_def)

lemma entry_windows_witness:
  "getOrLoad (default_config Pessimistic) mini ''k'' ''event'' None (no_rounds ''t'') (load_value JNull)
     ((cache_write (default_config Pessimistic) mini ''k'' JNull None 0 (mini_world empty_db))\<lparr>wd_now := 29999\<rparr>)
   = Some ((Inr JNull, count_cache ''event'' ''hit''
     ((cache_write (default_config Pessimistic) mini ''k'' JNull None 0 (mini_world empty_db))\<lparr>wd_now := 29999\<rparr>)), False)"
proof -
  have up: "rd_up mini s" for s by (simp add: mini_def)
  have cfg: "cache_enabled (default_config Pessimistic)" "0 \<le> cache_staleSeconds (default_config Pessimistic)"
    "cache_ttlSeconds (default_config Pessimistic) = 30" "cache_ttlJitterSeconds (default_config Pessimistic) = 10"
    by (simp_all add: default_config_def)
  have redis: "wd_redis (x\<lparr>wd_now := 29999\<rparr>) = wd_redis x" for x :: "(mini_redis, mini_broker) world" by simp
  from entry_windows [OF mini_ok jo_null cfg(1) up cfg(2) redis up, where key = "''k''" and w = "mini_world empty_db" and name = "''event''"
      and ce = "no_rounds ''t''" and load = "load_value JNull"]
  show ?thesis by (simp add: cfg ttlWithJitter_def mini_world_def js_floor_mult_def)
qed

lemma redis_outage_witness:
  "getOrLoad (default_config Pessimistic) (mini\<lparr>rd_up := (\<lambda>_. False)\<rparr>) ''k'' ''event'' None (no_rounds ''t'')
     (load_value JNull) (mini_world empty_db) = Some ((Inl RedisDown, count_cache ''event'' ''miss'' (mini_world empty_db)), False)"
proof -
  have "cache_enabled (default_config Pessimistic)" "cache_stampedeProtection (default_config Pessimistic)"
    by (simp_all add: default_config_def)
  with redis_outage [of "default_config Pessimistic" "mini\<lparr>rd_up := (\<lambda>_. False)\<rparr>" "mini_world empty_db" "load_value JNull"]
  show ?thesis by (simp add: load_value_def)
qed

lemma single_flight_loser_returns_witness:
  "\<exists>answer w'. singleFlight ((default_config Pessimistic)\<lparr>cache_lockTtlMs := 40\<rparr>) mini ''k'' ''event'' None
     \<lparr>ce_token = ''t2'', ce_random = 0, ce_rounds = [(mini_world empty_db)\<lparr>wd_now := 20\<rparr>, (mini_world empty_db)\<lparr>wd_now := 41\<rparr>]\<rparr>
     (load_value JNull) ((mini_world empty_db)\<lparr>wd_redis := ([lock_key ''k'' \<mapsto> ''t1''], \<lambda>_. None)\<rparr>) = Some (answer, w')"
proof -
  let ?cfg = "(default_config Pessimistic)\<lparr>cache_lockTtlMs := 40\<rparr>"
  let ?w = "(mini_world empty_db)\<lparr>wd_redis := ([lock_key ''k'' \<mapsto> ''t1''], \<lambda>_. None)\<rparr>"
  let ?ce = "\<lparr>ce_token = ''t2'', ce_random = 0, ce_rounds = [(mini_world empty_db)\<lparr>wd_now := 20\<rparr>, (mini_world empty_db)\<lparr>wd_now := 41\<rparr>]\<rparr>"
  have "acquireLock mini (lock_key ''k'') (cache_lockTtlMs ?cfg) (ce_token ?ce) ?w = (Inr None, ?w)"
    by (simp add: acquireLock_def mini_def mini_world_def)
  from single_flight_loser_returns [OF this, of "''event''" None "load_value JNull"] show ?thesis
    by (simp add: mini_world_def) blast
qed

end
