(* ===== verification/Events.thy ===== *)
theory Events
  imports Bookings CacheSafety "HOL-Library.List_Lexorder" "HOL-Library.Char_ord"
begin

section \<open>Events\<close>

text \<open>
  \<open>events/events.service.ts\<close> with its request and page objects. A response object that went through the
  cache is its JSON value. Ids are compared as text, which for uuids is the order of the column. Reading the
  date of \<open>startsAt\<close> is an argument (\<open>parseDate\<close>), \<open>None\<close> for an invalid date.
\<close>

record create_event_dto =
  cd_name :: string
  cd_venue :: string
  cd_totalSeats :: int
  cd_priceCents :: int
  cd_startsAt :: string

definition valid_event_dto :: "(string \<Rightarrow> bool) \<Rightarrow> create_event_dto \<Rightarrow> bool" where
  "valid_event_dto isDateString dto \<longleftrightarrow> 1 \<le> length (cd_name dto) \<and> length (cd_name dto) \<le> 200
     \<and> 1 \<le> length (cd_venue dto) \<and> length (cd_venue dto) \<le> 200 \<and> 1 \<le> cd_totalSeats dto \<and> 0 \<le> cd_priceCents dto
     \<and> isDateString (cd_startsAt dto)"

record list_events_dto =
  ld_cursor :: "string option"
  ld_limit :: int

definition valid_list_dto :: "(string \<Rightarrow> bool) \<Rightarrow> list_events_dto \<Rightarrow> bool" where
  "valid_list_dto isUUID q \<longleftrightarrow> (case ld_cursor q of None \<Rightarrow> True | Some c \<Rightarrow> isUUID c) \<and> 1 \<le> ld_limit q \<and> ld_limit q \<le> 100"

record event_page =
  ep_items :: "event_response list"
  ep_nextCursor :: "string option"

definition eventCacheKey :: "uuid \<Rightarrow> string" where
  "eventCacheKey i = ''cache:event:'' @ i"

subsection \<open>Creating\<close>

definition new_event :: "create_event_dto \<Rightarrow> ms \<Rightarrow> uuid \<Rightarrow> ms \<Rightarrow> event_row" where
  "new_event dto startsAt generated now =
     \<lparr>ev_id = generated, ev_name = cd_name dto, ev_venue = cd_venue dto, ev_totalSeats = cd_totalSeats dto,
      ev_availableSeats = cd_totalSeats dto, ev_priceCents = cd_priceCents dto, ev_startsAt = startsAt,
      ev_version = 0, ev_createdAt = now, ev_updatedAt = now\<rparr>"

definition create_event :: "(string \<Rightarrow> ms option) \<Rightarrow> create_event_dto \<Rightarrow> uuid \<Rightarrow> ms \<Rightarrow> db \<Rightarrow> (err + event_response) \<times> db" where
  "create_event parseDate dto generated now d =
     (case parseDate (cd_startsAt dto) of
        None \<Rightarrow> (Inl QueryFailedError, d)
      | Some startsAt \<Rightarrow>
          let event = new_event dto startsAt generated now in
          if event_fits event \<and> generated \<notin> ev_id ` set (t_events d)
          then (Inr (event_response_from event), d\<lparr>t_events := t_events d @ [event]\<rparr>)
          else (Inl QueryFailedError, d))"

subsection \<open>Reading one\<close>

definition findOneUncached :: "uuid \<Rightarrow> db \<Rightarrow> err + event_response" where
  "findOneUncached i d =
     (case find_event i d of None \<Rightarrow> Inl (event_not_found i) | Some event \<Rightarrow> Inr (event_response_from event))"

definition event_json :: "event_response \<Rightarrow> jsval" where
  "event_json r = JObj
     [(''id'', JStr (er_id r)), (''name'', JStr (er_name r)), (''venue'', JStr (er_venue r)),
      (''totalSeats'', JNum (of_int (er_totalSeats r))), (''availableSeats'', JNum (of_int (er_availableSeats r))),
      (''priceCents'', JNum (of_int (er_priceCents r))), (''startsAt'', JStr (er_startsAt r)),
      (''version'', JNum (of_int (er_version r))), (''createdAt'', JStr (er_createdAt r))]"

definition event_value :: "event_row option \<Rightarrow> jsval" where
  "event_value found = (case found of None \<Rightarrow> JNull | Some event \<Rightarrow> event_json (event_response_from event))"

definition load_event :: "uuid \<Rightarrow> ('s, 'k, jsval) call" where
  "load_event i w = (Inr (event_value (find_event i (wd_db w))), w)"

definition findOne :: "config \<Rightarrow> ('s, 'k) services \<Rightarrow> ('s, 'k) cache_env \<Rightarrow> uuid \<Rightarrow> ('s, 'k) world
    \<Rightarrow> (((err + jsval) \<times> ('s, 'k) world) \<times> bool) option" where
  "findOne cfg S ce i w =
     (case getOrLoad cfg S (eventCacheKey i) ''event'' None ce (load_event i) w of
        None \<Rightarrow> None
      | Some ((Inl e, w'), refresh) \<Rightarrow> Some ((Inl e, w'), refresh)
      | Some ((Inr cached, w'), refresh) \<Rightarrow>
          Some ((if falsy cached then Inl (event_not_found i) else Inr cached, w'), refresh))"

definition invalidateCache :: "('s, 'k) services \<Rightarrow> uuid \<Rightarrow> ('s, 'k) world \<Rightarrow> ('s, 'k) world" where
  "invalidateCache S i w = cache_invalidate S (eventCacheKey i) w"

subsection \<open>Listing\<close>

definition after_cursor :: "string option \<Rightarrow> event_row \<Rightarrow> bool" where
  "after_cursor cursor r = (case cursor of None \<Rightarrow> True | Some c \<Rightarrow> c = [] \<or> c < ev_id r)"

definition list_events :: "list_events_dto \<Rightarrow> db \<Rightarrow> err + event_page" where
  "list_events q d =
     (case sql_limit (ld_limit q + 1) (sort_key ev_id (filter (after_cursor (ld_cursor q)) (t_events d))) of
        Inl e \<Rightarrow> Inl e
      | Inr rows \<Rightarrow>
          let hasMore = ld_limit q < int (length rows);
              items = (if hasMore then List.take (nat (ld_limit q)) rows else rows) in
          Inr \<lparr>ep_items = map event_response_from items,
               ep_nextCursor = (if hasMore \<and> items \<noteq> [] then Some (ev_id (last items)) else None)\<rparr>)"

subsection \<open>The cache shows the database\<close>

text \<open>The loader of one event, in the worlds in which the event's row is \<open>r\<close>, is a client of the cache.\<close>

interpretation event_cache: cached_load "load_event i" "\<lambda>w. find_event i (wd_db w) = r" "\<lambda>v. v = event_value r" for i r
  by unfold_locales (auto simp: load_event_def)

lemma event_value_falsy: "falsy (event_value found) \<longleftrightarrow> found = None"
  by (simp add: event_value_def event_json_def falsy_def split: option.splits)

lemma event_value_ok: "json_ok (event_value found)"
  by (auto simp: event_value_def event_json_def split: option.splits)

text \<open>
  The cached read agrees with the uncached one: as long as the event's row does not change and what the
  cache holds for it is its value (or nothing), every call of \<open>findOne\<close> - a hit, a stale hit, a miss, a
  wait for another caller, a fallback - answers what \<open>findOneUncached\<close> answers, as JSON, or fails because
  Redis is down; and the cache, refreshed in the background or not, still holds nothing but that value.
\<close>

theorem find_one_matches_database:
  assumes "lock_commands_ok S" and "store_commands_ok S" and "0 < cache_lockTtlMs cfg"
    and "cache_good S (eventCacheKey i) (\<lambda>v. v = event_value (find_event i (wd_db w))) w"
    and "\<forall>x \<in> set (ce_rounds ce). find_event i (wd_db x) = find_event i (wd_db w)
        \<and> cache_good S (eventCacheKey i) (\<lambda>v. v = event_value (find_event i (wd_db w))) x"
    and "findOne cfg S ce i w = Some ((answer, w'), refresh)"
  shows "(answer = (case findOneUncached i (wd_db w) of Inl e \<Rightarrow> Inl e | Inr r \<Rightarrow> Inr (event_json r)) \<or> answer = Inl RedisDown)
    \<and> cache_good S (eventCacheKey i) (\<lambda>v. v = event_value (find_event i (wd_db w))) w'
    \<and> cache_good S (eventCacheKey i) (\<lambda>v. v = event_value (find_event i (wd_db w)))
        (refreshInBackground cfg S (eventCacheKey i) None ce' (load_event i) w)"
proof -
  let ?r = "find_event i (wd_db w)"
  obtain a where run: "getOrLoad cfg S (eventCacheKey i) ''event'' None ce (load_event i) w = Some ((a, w'), refresh)"
    and answer: "answer = (case a of Inl e \<Rightarrow> Inl e | Inr c \<Rightarrow> if falsy c then Inl (event_not_found i) else Inr c)"
    using assms(6) by (auto simp: findOne_def split: option.splits sum.splits prod.splits)
  have rb: "v = event_value ?r \<Longrightarrow> json_ok v" for v by (simp add: event_value_ok)
  note good = event_cache.getOrLoad_good [OF assms(1-3) rb _ _ _ run, of ?r]
  have a: "(\<forall>v. a = Inr v \<longrightarrow> v = event_value ?r) \<and> (\<forall>e. a = Inl e \<longrightarrow> e = RedisDown)"
    using good assms(4,5) by (auto simp: load_event_def)
  have "answer = (case findOneUncached i (wd_db w) of Inl e \<Rightarrow> Inl e | Inr r \<Rightarrow> Inr (event_json r)) \<or> answer = Inl RedisDown"
  proof (cases a)
    case (Inr v)
    with a have "v = event_value ?r" by blast
    with Inr answer show ?thesis
      using event_value_falsy [of ?r] by (cases ?r) (simp_all add: findOneUncached_def event_value_def)
  qed (use a answer in auto)
  moreover have "cache_good S (eventCacheKey i) (\<lambda>v. v = event_value ?r) w'"
    using good assms(4,5) by auto
  ultimately show ?thesis
    using event_cache.refresh_good [OF assms(1-3) rb, of ?r i w "eventCacheKey i" None ce'] assms(4) by auto
qed

subsection \<open>Concrete runs\<close>

lemma find_one_matches_database_witness:
  "\<exists>w'. findOne (default_config Pessimistic) mini (no_rounds ''t'') ''7'' (mini_world empty_db)
     = Some ((Inl (event_not_found ''7''), w'), False)
     \<and> cache_good mini (eventCacheKey ''7'') (\<lambda>v. v = JNull) w'"
proof -
  let ?S = "mini" and ?w = "mini_world empty_db" and ?cfg = "default_config Pessimistic"
  have none: "find_event ''7'' (wd_db ?w) = None" by (simp add: mini_world_def empty_db_def find_event_def)
  have up: "rd_up ?S s" for s by (simp add: mini_def)
  have get: "rd_get ?S k (wd_redis ?w) = None" for k by (simp add: mini_def mini_world_def)
  have cfg: "cache_enabled ?cfg" "cache_stampedeProtection ?cfg" "0 < cache_lockTtlMs ?cfg" by (simp_all add: default_config_def)
  obtain s where lock: "rd_set_px_nx ?S k t ttl (wd_redis ?w) = (True, s k t ttl)" for k t ttl
    by (simp add: mini_def mini_world_def)
  obtain answer w' where run: "findOne ?cfg ?S (no_rounds ''t'') ''7'' ?w = Some ((answer, w'), False)"
    by (auto simp: findOne_def getOrLoad_def cfg cache_read_def up get singleFlight_def acquireLock_def lock no_rounds_def
        load_write_def load_event_def)
  have empty: "cache_good ?S (eventCacheKey ''7'') (\<lambda>v. v = event_value (find_event ''7'' (wd_db ?w))) ?w"
    by (simp add: cache_good_def cache_read_def get)
  have "answer = Inl (event_not_found ''7'') \<or> answer = Inl RedisDown"
    and good: "cache_good ?S (eventCacheKey ''7'') (\<lambda>v. v = JNull) w'"
    using find_one_matches_database [OF mini_ok(2,1) cfg(3) empty _ run] none
    by (simp_all add: no_rounds_def event_value_def findOneUncached_def)
  moreover have "answer \<noteq> Inl RedisDown"
    using run by (auto simp: findOne_def getOrLoad_def cfg cache_read_def up get singleFlight_def acquireLock_def lock
        no_rounds_def load_write_def load_event_def RedisDown_def event_not_found_def split: if_splits)
  ultimately show ?thesis using run by blast
qed

end
