(* ===== verification/BookService.thy ===== *)
theory BookService
  imports Events Kafka
begin

section \<open>The booking service\<close>

text \<open>
  \<open>BookingsService.book\<close> as a whole (\<open>bookings/bookings.service.ts\<close>): the transaction, then the metrics,
  the cache invalidation, the overselling check of the unprotected strategy, the injected crash and the
  direct publish; with \<open>recordOversoldIfAny\<close> and \<open>publishDirectly\<close>. A request alone runs its transaction
  without interruption; \<open>sell\<close> is the abstract operation that all three strategies implement then.
\<close>

subsection \<open>The parts around the transaction\<close>

definition count_booking :: "string \<Rightarrow> config \<Rightarrow> ('s, 'k) world \<Rightarrow> ('s, 'k) world" where
  "count_booking result cfg w = upd_metrics (\<lambda>m. m\<lparr>bookingsTotal :=
     inc2 result (strategy_name (booking_lockStrategy cfg)) (bookingsTotal m)\<rparr>) w"

definition recordOversoldIfAny :: "uuid \<Rightarrow> ('s, 'k) world \<Rightarrow> (err + unit) \<times> ('s, 'k) world" where
  "recordOversoldIfAny eventId w =
     (case integrity eventId (wd_db w) of
        Inl e \<Rightarrow> (Inl e, w)
      | Inr report \<Rightarrow> (Inr (),
          if 0 < si_oversoldBy report
          then upd_metrics (\<lambda>m. m\<lparr>bookingsOversoldTotal := inc1 eventId (bookingsOversoldTotal m)\<rparr>) w else w))"

definition direct_message :: "config \<Rightarrow> booking_row \<Rightarrow> string \<Rightarrow> string option \<Rightarrow> outgoing" where
  "direct_message cfg booking eventName traceId =
     \<lparr>om_topic = topics_booking cfg, om_key = bk_eventId booking,
      om_value = booking_payload booking eventName traceId,
      om_headers = [(HEADER_MESSAGE_ID, bk_id booking), (HEADER_EVENT_TYPE, BOOKING_CONFIRMED),
        (HEADER_TRACE_ID, orElse traceId [])]\<rparr>"

text \<open>A refusal is logged and swallowed.\<close>

definition publishDirectly :: "config \<Rightarrow> ('s, 'k) services \<Rightarrow> booking_row \<Rightarrow> string \<Rightarrow> string option
    \<Rightarrow> ('s, 'k) world \<Rightarrow> ('s, 'k) world" where
  "publishDirectly cfg S booking eventName traceId w = snd (publish S (direct_message cfg booking eventName traceId) w)"

definition error_result :: "err \<Rightarrow> string" where
  "error_result e = (case e of ConflictException _ \<Rightarrow> ''sold_out'' | _ \<Rightarrow> ''error'')"

subsection \<open>The whole request\<close>

text \<open>
  \<open>dies\<close> says whether the \<open>setImmediate\<close> exit of the injected crash comes before the rest of the call; then
  there is no answer (\<open>None\<close>).
\<close>

definition book :: "config \<Rightarrow> ('s, 'k) services \<Rightarrow> txenv \<Rightarrow> bool \<Rightarrow> book_req \<Rightarrow> ('s, 'k) world
    \<Rightarrow> (err + booking_response) option \<times> ('s, 'k) world" where
  "book cfg S env dies q w =
     (case transaction (book_tx cfg q) env (wd_db w) of
        (Inl e, d) \<Rightarrow> (Some (Inl e), count_booking (error_result e) cfg (w\<lparr>wd_db := d\<rparr>))
      | (Inr x, d) \<Rightarrow>
          let w1 = count_booking ''confirmed'' cfg (w\<lparr>wd_db := d\<rparr>);
              w2 = invalidateCache S (bq_eventId q) w1;
              (checked, w3) = (if booking_lockStrategy cfg = NoLock then recordOversoldIfAny (bq_eventId q) w2
                               else (Inr (), w2)) in
          case checked of
            Inl e \<Rightarrow> (Some (Inl e), count_booking (error_result e) cfg w3)
          | Inr _ \<Rightarrow>
              if outbox_crashAfterCommit cfg \<and> dies then (None, w3)
              else (Some (Inr (booking_response_from (bd_booking x) (bd_seatsRemaining x)
                           (strategy_name (booking_lockStrategy cfg)))),
                    if directPublishMode cfg
                    then publishDirectly cfg S (bd_booking x) (bd_eventName x) (bq_traceId q) w3 else w3))"

subsection \<open>Selling, abstractly\<close>

definition sold_row :: "config \<Rightarrow> book_req \<Rightarrow> event_row \<Rightarrow> event_row" where
  "sold_row cfg q r = r\<lparr>ev_availableSeats := ev_availableSeats r - cb_quantity (bq_dto q),
     ev_version := (if booking_lockStrategy cfg = NoLock then ev_version r else ev_version r + 1)\<rparr>"

definition announcement :: "config \<Rightarrow> book_req \<Rightarrow> txenv \<Rightarrow> string \<Rightarrow> outbox_row" where
  "announcement cfg q env eventName =
     (let b = saved_booking env (new_booking q) in saved_outbox env
       \<lparr>on_aggregateType = ''booking'', on_aggregateId = bk_id b, on_eventType = BOOKING_CONFIRMED,
        on_topic = topics_booking cfg, on_messageKey = bq_eventId q,
        on_payload = booking_payload b eventName (bq_traceId q), on_status = Pending, on_attempts = 0,
        on_availableAt = bq_now q\<rparr>)"

definition records_fit :: "config \<Rightarrow> book_req \<Rightarrow> txenv \<Rightarrow> string \<Rightarrow> db \<Rightarrow> bool" where
  "records_fit cfg q env eventName d \<longleftrightarrow> booking_fits d (saved_booking env (new_booking q))
     \<and> (uses_outbox cfg \<longrightarrow> outbox_fits d (announcement cfg q env eventName))"

text \<open>What a booking promises: not found, sold out, refused by a constraint, or all of its rows at once.\<close>

definition sell :: "config \<Rightarrow> book_req \<Rightarrow> txenv \<Rightarrow> db \<Rightarrow> (err + booked) \<times> db" where
  "sell cfg q env d =
     (case find_event (bq_eventId q) d of
        None \<Rightarrow> (Inl (event_not_found (bq_eventId q)), d)
      | Some r \<Rightarrow>
          let b = saved_booking env (new_booking q); o1 = announcement cfg q env (ev_name r) in
          if ev_availableSeats r < cb_quantity (bq_dto q) then (Inl sold_out, d)
          else if \<not> event_fits (sold_row cfg q r) \<or> \<not> records_fit cfg q env (ev_name r) d
          then (Inl QueryFailedError, d)
          else (Inr \<lparr>bd_booking = b, bd_seatsRemaining = ev_availableSeats r - cb_quantity (bq_dto q),
                     bd_eventName = ev_name r\<rparr>,
                (set_event (bq_eventId q) (touched env (sold_row cfg q r)) d)\<lparr>t_bookings := t_bookings d @ [b],
                  t_outbox := t_outbox d @ (if uses_outbox cfg then [o1] else [])\<rparr>))"

lemma fits_after_update:
  assumes "find_event e d = Some r" "ev_id r' = e"
  shows "booking_fits (set_event e r' d) b = booking_fits d b"
  using find_set_event [OF assms(2)] assms(1)
  by (auto simp: booking_fits_def split: option.splits) (simp_all add: set_event_def)

lemma outbox_fits_cong: "t_outbox d' = t_outbox d \<Longrightarrow> outbox_fits d' r = outbox_fits d r"
  by (simp add: outbox_fits_def)

lemma set_event_tables [simp]:
  "t_bookings (set_event e r d) = t_bookings d" "t_outbox (set_event e r d) = t_outbox d"
  by (simp_all add: set_event_def)

text \<open>Taking the seats, alone: the three strategies differ in the version only.\<close>

lemma take_seats_alone:
  assumes "booking_lockStrategy cfg = Optimistic \<longrightarrow> 0 \<le> booking_optimisticMaxRetries cfg"
  shows "run_tx (take_seats cfg (bq_eventId q) (cb_quantity (bq_dto q))) env d =
    (case find_event (bq_eventId q) d of
       None \<Rightarrow> (Inl (event_not_found (bq_eventId q)), d)
     | Some r \<Rightarrow>
         if ev_availableSeats r < cb_quantity (bq_dto q) then (Inl sold_out, d)
         else if \<not> event_fits (sold_row cfg q r) then (Inl QueryFailedError, d)
         else (Inr \<lparr>dr_seatsRemaining = ev_availableSeats r - cb_quantity (bq_dto q), dr_eventName = ev_name r\<rparr>,
               set_event (bq_eventId q) (touched env (sold_row cfg q r)) d))"
proof (cases "booking_lockStrategy cfg")
  case NoLock
  then show ?thesis
    by (auto simp: take_seats_def decrementNaive_def sold_row_def Let_def split: option.splits)
next
  case Pessimistic
  then show ?thesis
    by (auto simp: take_seats_def decrementPessimistic_def sold_row_def Let_def split: option.splits)
next
  case Optimistic
  with assms have "nat (booking_optimisticMaxRetries cfg + 1) = Suc (nat (booking_optimisticMaxRetries cfg))" by simp
  with Optimistic show ?thesis
    by (auto simp: take_seats_def decrementOptimistic_def sold_row_def split: option.splits)
qed

lemma record_booking_alone:
  "transaction (record_booking cfg q res) env d =
    (if records_fit cfg q env (dr_eventName res) d
     then (Inr \<lparr>bd_booking = saved_booking env (new_booking q), bd_seatsRemaining = dr_seatsRemaining res,
                bd_eventName = dr_eventName res\<rparr>,
           d\<lparr>t_bookings := t_bookings d @ [saved_booking env (new_booking q)],
             t_outbox := t_outbox d @ (if uses_outbox cfg then [announcement cfg q env (dr_eventName res)] else [])\<rparr>)
     else (Inl QueryFailedError, d))"
  by (auto simp: record_booking_def enqueue_def announcement_def records_fit_def transaction_def Let_def
      outbox_fits_cong [of "d\<lparr>t_bookings := t_bookings d @ [saved_booking env (new_booking q)]\<rparr>" d])

lemma transaction_bind:
  "transaction (tx_bind p g) env d =
     (case run_tx p env d of
        (Inl e, _) \<Rightarrow> (Inl e, d)
      | (Inr x, d1) \<Rightarrow> (case transaction (g x) env d1 of (Inr y, d2) \<Rightarrow> (Inr y, d2) | (Inl e, _) \<Rightarrow> (Inl e, d)))"
  by (auto simp: transaction_def run_tx_bind split: prod.splits sum.splits)

lemma book_tx_alone:
  assumes "booking_lockStrategy cfg = Optimistic \<longrightarrow> 0 \<le> booking_optimisticMaxRetries cfg"
  shows "transaction (book_tx cfg q) env d = sell cfg q env d"
proof (cases "find_event (bq_eventId q) d")
  case None
  then show ?thesis by (simp add: book_tx_def transaction_bind take_seats_alone [OF assms] sell_def)
next
  case (Some r)
  let ?r' = "touched env (sold_row cfg q r)"
  have "ev_id ?r' = bq_eventId q" using find_event_id [OF Some] by (simp add: sold_row_def)
  then have "records_fit cfg q env n (set_event (bq_eventId q) ?r' d) = records_fit cfg q env n d" for n
    using fits_after_update [OF Some] by (simp add: records_fit_def outbox_fits_cong [of "set_event e x d" d for e x])
  with Some show ?thesis
    by (simp add: book_tx_def transaction_bind take_seats_alone [OF assms] sell_def Let_def record_booking_alone)
qed

text \<open>
  C13. Alone, the three strategies are one operation: a booking that runs uninterrupted does what the
  abstract \<open>sell\<close> does, whichever way its seats are taken - it finds no event, is sold out, violates a
  constraint, each without any change, or takes exactly its seats and adds exactly its booking and, where
  the outbox is used, exactly its announcement. Only the version counter tells the strategies apart.
\<close>

theorem strategies_agree_alone:
  assumes "booking_lockStrategy cfg = Optimistic \<longrightarrow> 0 \<le> booking_optimisticMaxRetries cfg"
  shows "transaction (book_tx cfg q) env d = sell cfg q env d"
  by (rule book_tx_alone [OF assms])

end
