(* ===== verification/Relay.thy ===== *)
theory Relay
  imports Kafka Outbox
begin

section \<open>The outbox relay\<close>

text \<open>
  \<open>outbox/outbox.relay.ts\<close> and the statistics of \<open>outbox/outbox.controller.ts\<close>. One poll is a
  transaction in three parts: select and lock a batch (\<open>drain_select\<close>), publish it, mark it
  (\<open>mark_published\<close>, or \<open>markFailed\<close> when the broker refused). \<open>drainOnce\<close> is their
  composition; \<open>relay_step\<close> interleaves the parts of many relays, on the same table, with
  crashes, new rows and the clock. \<open>locked\<close> holds the ids other transactions have locked, which
  \<open>SKIP LOCKED\<close> leaves out.
\<close>

definition is_due :: "uuid set \<Rightarrow> ms \<Rightarrow> outbox_row \<Rightarrow> bool" where
  "is_due locked now r \<longleftrightarrow> ob_status r = Pending \<and> ob_availableAt r \<le> now \<and> ob_id r \<notin> locked"

definition due_rows :: "uuid set \<Rightarrow> ms \<Rightarrow> db \<Rightarrow> outbox_row list" where
  "due_rows locked now d = sort_key ob_createdAt (filter (is_due locked now) (t_outbox d))"

definition drain_select :: "config \<Rightarrow> uuid set \<Rightarrow> ('s, 'k) world \<Rightarrow> err + outbox_row list" where
  "drain_select cfg locked w = sql_limit (outbox_batchSize cfg) (due_rows locked (wd_now w) (wd_db w))"

text \<open>\<open>String(x ?? '')\<close> for the trace id, which \<open>booking_payload\<close> sets to a string or null.\<close>

definition trace_text :: "jsval \<Rightarrow> string" where
  "trace_text v = (case v of JStr s \<Rightarrow> s | JBool b \<Rightarrow> (if b then ''true'' else ''false'') | _ \<Rightarrow> [])"

definition relay_message :: "outbox_row \<Rightarrow> outgoing" where
  "relay_message row =
     \<lparr>om_topic = ob_topic row, om_key = ob_messageKey row, om_value = ob_payload row,
      om_headers = [(HEADER_MESSAGE_ID, ob_id row), (HEADER_EVENT_TYPE, ob_eventType row),
        (HEADER_TRACE_ID, trace_text (js_get ''traceId'' (ob_payload row))), (HEADER_ATTEMPTS, ''0'')]\<rparr>"

definition mark_published :: "outbox_row list \<Rightarrow> ms \<Rightarrow> db \<Rightarrow> db" where
  "mark_published rows now d = d\<lparr>t_outbox := upd_where (\<lambda>r. ob_id r \<in> set (map ob_id rows))
     (\<lambda>r. r\<lparr>ob_status := Published, ob_publishedAt := Some now, ob_lastError := None\<rparr>) (t_outbox d)\<rparr>"

definition relay_backoff :: "int \<Rightarrow> int" where
  "relay_backoff attempts = min (2 ^ nat attempts * 250) 60000"

definition markFailed1 :: "int \<Rightarrow> string \<Rightarrow> ms \<Rightarrow> outbox_row \<Rightarrow> db \<Rightarrow> db" where
  "markFailed1 maxAttempts msg now row d =
     (let attempts = ob_attempts row + 1; backoffMs = relay_backoff attempts in
      d\<lparr>t_outbox := upd_where (\<lambda>r. ob_id r = ob_id row)
          (\<lambda>r. r\<lparr>ob_attempts := attempts,
                 ob_status := (if maxAttempts \<le> attempts then Failed else Pending),
                 ob_availableAt := now + backoffMs, ob_lastError := Some (List.take 1000 msg)\<rparr>)
          (t_outbox d)\<rparr>)"

definition markFailed :: "int \<Rightarrow> string \<Rightarrow> ms \<Rightarrow> outbox_row list \<Rightarrow> db \<Rightarrow> db" where
  "markFailed maxAttempts msg now rows d = fold (markFailed1 maxAttempts msg now) rows d"

definition count_topics :: "outbox_row list \<Rightarrow> (string \<Rightarrow> nat) \<Rightarrow> string \<Rightarrow> nat" where
  "count_topics rows f = fold (\<lambda>row. inc1 (ob_topic row)) rows f"

definition refreshPendingGauge :: "('s, 'k) world \<Rightarrow> ('s, 'k) world" where
  "refreshPendingGauge w = upd_metrics (\<lambda>m. m\<lparr>outboxPendingMessages :=
     int (affected (\<lambda>r. ob_status r = Pending) (t_outbox (wd_db w)))\<rparr>) w"

definition drain_failed :: "config \<Rightarrow> err \<Rightarrow> outbox_row list \<Rightarrow> ('s, 'k) world \<Rightarrow> ('s, 'k) world" where
  "drain_failed cfg e rows w =
     upd_metrics (\<lambda>m. m\<lparr>outboxPublishFailuresTotal := count_topics rows (outboxPublishFailuresTotal m)\<rparr>)
       (w\<lparr>wd_db := markFailed (outbox_maxAttempts cfg) (message_of e) (wd_now w) rows (wd_db w)\<rparr>)"

definition drain_commit :: "outbox_row list \<Rightarrow> ('s, 'k) world \<Rightarrow> ('s, 'k) world" where
  "drain_commit rows w = refreshPendingGauge
     (upd_metrics (\<lambda>m. m\<lparr>outboxPublishedTotal := count_topics rows (outboxPublishedTotal m)\<rparr>)
       (w\<lparr>wd_db := mark_published rows (wd_now w) (wd_db w)\<rparr>))"

text \<open>The relay of one process: \<open>running\<close>, \<open>stopped\<close>, and the delay of the timer it has set.\<close>

record relay =
  rl_running :: bool
  rl_stopped :: bool
  rl_timer :: "ms option"

definition drainOnce :: "config \<Rightarrow> ('s, 'k) services \<Rightarrow> uuid set \<Rightarrow> relay \<Rightarrow> ('s, 'k) world
    \<Rightarrow> (err + nat) \<times> ('s, 'k) world" where
  "drainOnce cfg S locked rl w =
     (if rl_running rl then (Inr 0, w)
      else case drain_select cfg locked w of
        Inl e \<Rightarrow> (Inl e, w)
      | Inr rows \<Rightarrow>
          if length rows = 0 then (Inr 0, refreshPendingGauge w)
          else case publishBatch S (map relay_message rows) w of
            (Inl e, w') \<Rightarrow> (Inr 0, drain_failed cfg e rows w')
          | (Inr _, w') \<Rightarrow> (Inr (length rows), drain_commit rows w'))"

subsection \<open>Scheduling\<close>

definition relay_schedule :: "ms \<Rightarrow> relay \<Rightarrow> relay" where
  "relay_schedule delayMs rl = (if rl_stopped rl then rl else rl\<lparr>rl_timer := Some delayMs\<rparr>)"

text \<open>The timer fires; what \<open>drainOnce\<close> answered decides the next delay.\<close>

definition relay_tick :: "config \<Rightarrow> err + nat \<Rightarrow> relay \<Rightarrow> relay" where
  "relay_tick cfg answer rl =
     (let fired = rl\<lparr>rl_timer := None\<rparr> in
      case answer of
        Inr published \<Rightarrow> relay_schedule (if 0 < published then 0 else outbox_pollIntervalMs cfg) fired
      | Inl _ \<Rightarrow> relay_schedule (outbox_pollIntervalMs cfg) fired)"

definition relay_onApplicationBootstrap :: "config \<Rightarrow> relay \<Rightarrow> relay" where
  "relay_onApplicationBootstrap cfg rl = (if \<not> outbox_relayEnabled cfg then rl else relay_schedule 0 rl)"

definition relay_onApplicationShutdown :: "relay \<Rightarrow> relay" where
  "relay_onApplicationShutdown rl = rl\<lparr>rl_stopped := True, rl_timer := None\<rparr>"

subsection \<open>Statistics\<close>

record outbox_stats =
  os_pending :: nat
  os_published :: nat
  os_failed :: nat
  os_oldestPendingAt :: "string option"

definition relay_stats :: "db \<Rightarrow> outbox_stats" where
  "relay_stats d =
     (let created = map ob_createdAt (filter (\<lambda>r. ob_status r = Pending) (t_outbox d)) in
      \<lparr>os_pending = affected (\<lambda>r. ob_status r = Pending) (t_outbox d),
       os_published = affected (\<lambda>r. ob_status r = Published) (t_outbox d),
       os_failed = affected (\<lambda>r. ob_status r = Failed) (t_outbox d),
       os_oldestPendingAt = (if created = [] then None else Some (toISOString (Min (set created))))\<rparr>)"

end
