(* ===== verification/RelaySafety.thy ===== *)
theory RelaySafety
  imports Relay Samples
begin

section \<open>Relays: at least once, and never two at a time\<close>

subsection \<open>What marking does to the table\<close>

text \<open>The part of a row that no relay ever changes.\<close>

definition same_message :: "outbox_row \<Rightarrow> outbox_row \<Rightarrow> bool" where
  "same_message r r' \<longleftrightarrow> ob_id r = ob_id r' \<and> ob_topic r = ob_topic r'
     \<and> relay_message r = relay_message r'"

definition ids :: "outbox_row list \<Rightarrow> uuid set" where
  "ids rows = ob_id ` set rows"

lemma ids_Nil [simp]: "ids [] = {}"
  by (simp add: ids_def)

lemma mark_published_ids [simp]: "map ob_id (t_outbox (mark_published rows now d)) = map ob_id (t_outbox d)"
  by (simp add: mark_published_def map_upd_where)

lemma markFailed1_ids [simp]: "map ob_id (t_outbox (markFailed1 m msg now row d)) = map ob_id (t_outbox d)"
  by (simp add: markFailed1_def map_upd_where Let_def)

lemma markFailed_ids [simp]: "map ob_id (t_outbox (markFailed m msg now rows d)) = map ob_id (t_outbox d)"
  unfolding markFailed_def by (induction rows arbitrary: d) simp_all

lemma mark_published_row:
  "r' \<in> set (t_outbox (mark_published rows now d)) \<longleftrightarrow>
     (\<exists>r \<in> set (t_outbox d). r' = (if ob_id r \<in> ids rows
        then r\<lparr>ob_status := Published, ob_publishedAt := Some now, ob_lastError := None\<rparr> else r))"
  by (auto simp: mark_published_def upd_where_def ids_def)

text \<open>What \<open>markFailed\<close> makes of a row of the batch.\<close>

definition failed_row :: "int \<Rightarrow> string \<Rightarrow> ms \<Rightarrow> outbox_row \<Rightarrow> outbox_row" where
  "failed_row maxAttempts msg now r = r\<lparr>ob_attempts := ob_attempts r + 1,
     ob_status := (if maxAttempts \<le> ob_attempts r + 1 then Failed else Pending),
     ob_availableAt := now + relay_backoff (ob_attempts r + 1), ob_lastError := Some (List.take 1000 msg)\<rparr>"

lemma markFailed1_table:
  assumes "distinct (map ob_id (t_outbox d))" "row \<in> set (t_outbox d)"
  shows "t_outbox (markFailed1 m msg now row d) =
    map (\<lambda>r. if ob_id r = ob_id row then failed_row m msg now r else r) (t_outbox d)"
proof -
  have "r = row" if "r \<in> set (t_outbox d)" "ob_id r = ob_id row" for r
    using assms that by (auto simp: distinct_map dest: inj_onD)
  then show ?thesis by (auto simp: markFailed1_def upd_where_def failed_row_def Let_def)
qed

lemma markFailed_table:
  assumes "distinct (map ob_id (t_outbox d))" "set rows \<subseteq> set (t_outbox d)" "distinct (map ob_id rows)"
  shows "t_outbox (markFailed m msg now rows d) =
    map (\<lambda>r. if ob_id r \<in> ids rows then failed_row m msg now r else r) (t_outbox d)"
  using assms
proof (induction rows arbitrary: d)
  case Nil
  then show ?case by (simp add: markFailed_def)
next
  case (Cons row rows)
  let ?d1 = "markFailed1 m msg now row d"
  have t1: "t_outbox ?d1 = map (\<lambda>r. if ob_id r = ob_id row then failed_row m msg now r else r) (t_outbox d)"
    using Cons.prems by (intro markFailed1_table) auto
  have fr: "ob_id (failed_row m msg now r) = ob_id r" for r by (simp add: failed_row_def)
  have "set rows \<subseteq> set (t_outbox ?d1)"
    using Cons.prems unfolding t1 by (auto simp: image_iff)
  then have "t_outbox (markFailed m msg now rows ?d1) =
      map (\<lambda>r. if ob_id r \<in> ids rows then failed_row m msg now r else r) (t_outbox ?d1)"
    using Cons.prems by (intro Cons.IH) simp_all
  moreover have "ob_id row \<notin> ids rows" using Cons.prems(3) by (simp add: ids_def)
  ultimately show ?case by (auto simp: markFailed_def t1 fr ids_def)
qed

lemma due_rows_set: "set (due_rows locked now d) = {r \<in> set (t_outbox d). is_due locked now r}"
  by (simp add: due_rows_def)

lemma sql_limit_set: "sql_limit n xs = Inr ys \<Longrightarrow> set ys \<subseteq> set xs"
  by (auto simp: sql_limit_def split: if_splits dest: in_set_takeD)

lemma sql_limit_distinct: "sql_limit n xs = Inr ys \<Longrightarrow> distinct (map f xs) \<Longrightarrow> distinct (map f ys)"
  by (auto simp: sql_limit_def take_map [symmetric] split: if_splits)

lemma drain_select_props:
  assumes "drain_select cfg locked w = Inr rows"
  shows "set rows \<subseteq> {r \<in> set (t_outbox (wd_db w)). is_due locked (wd_now w) r}"
    and "distinct (map ob_id (t_outbox (wd_db w))) \<Longrightarrow> distinct (map ob_id rows)"
proof -
  have lim: "sql_limit (outbox_batchSize cfg) (due_rows locked (wd_now w) (wd_db w)) = Inr rows"
    using assms by (simp add: drain_select_def)
  then show "set rows \<subseteq> {r \<in> set (t_outbox (wd_db w)). is_due locked (wd_now w) r}"
    using sql_limit_set [OF lim] by (simp add: due_rows_set)
  show "distinct (map ob_id rows)" if "distinct (map ob_id (t_outbox (wd_db w)))"
    using sql_limit_distinct [OF lim] that distinct_sort_map distinct_map_filter
    by (metis due_rows_def)
qed

subsection \<open>Many relays\<close>

datatype phase = Idle | Selected "outbox_row list" | Sent "outbox_row list"

fun batch_of :: "phase \<Rightarrow> outbox_row list" where
  "batch_of Idle = []"
| "batch_of (Selected rows) = rows"
| "batch_of (Sent rows) = rows"

record ('s, 'k) relays =
  ry_world :: "('s, 'k) world"
  ry_phase :: "nat \<Rightarrow> phase"

definition locked_by_others :: "('s, 'k) relays \<Rightarrow> nat \<Rightarrow> uuid set" where
  "locked_by_others y i = (\<Union>j \<in> {j. j \<noteq> i}. ids (batch_of (ry_phase y j)))"

definition set_phase :: "nat \<Rightarrow> phase \<Rightarrow> ('s, 'k) relays \<Rightarrow> ('s, 'k) relays" where
  "set_phase i p y = y\<lparr>ry_phase := (ry_phase y)(i := p)\<rparr>"

definition in_world :: "('s, 'k) world \<Rightarrow> ('s, 'k) relays \<Rightarrow> ('s, 'k) relays" where
  "in_world w y = y\<lparr>ry_world := w\<rparr>"

lemma relays_simps [simp]:
  "ry_world (set_phase i p y) = ry_world y" "ry_phase (set_phase i p y) = (ry_phase y)(i := p)"
  "ry_world (in_world w y) = w" "ry_phase (in_world w y) = ry_phase y"
  by (simp_all add: set_phase_def in_world_def)

text \<open>
  The steps of relay \<open>i\<close> under configuration \<open>cfg i\<close>; a booking adding its row; time passing. A crash
  in any phase rolls the transaction back.
\<close>

inductive relay_step :: "(nat \<Rightarrow> config) \<Rightarrow> ('s, 'k) services \<Rightarrow> ('s, 'k) relays \<Rightarrow> ('s, 'k) relays \<Rightarrow> bool"
  for cfg :: "nat \<Rightarrow> config" and S :: "('s, 'k) services" where
  rs_select: "ry_phase y i = Idle \<Longrightarrow> drain_select (cfg i) (locked_by_others y i) (ry_world y) = Inr rows \<Longrightarrow>
     rows \<noteq> [] \<Longrightarrow> relay_step cfg S y (set_phase i (Selected rows) y)"
| rs_sent: "ry_phase y i = Selected rows \<Longrightarrow> publishBatch S (map relay_message rows) (ry_world y) = (Inr u, w') \<Longrightarrow>
     relay_step cfg S y (set_phase i (Sent rows) (in_world w' y))"
| rs_refused: "ry_phase y i = Selected rows \<Longrightarrow> publishBatch S (map relay_message rows) (ry_world y) = (Inl e, w') \<Longrightarrow>
     relay_step cfg S y (set_phase i Idle (in_world (drain_failed (cfg i) e rows w') y))"
| rs_commit: "ry_phase y i = Sent rows \<Longrightarrow>
     relay_step cfg S y (set_phase i Idle (in_world (drain_commit rows (ry_world y)) y))"
| rs_crash: "relay_step cfg S y (set_phase i Idle y)"
| rs_enqueue: "ob_status r = Pending \<Longrightarrow> ob_id r \<notin> ids (t_outbox (wd_db (ry_world y))) \<Longrightarrow>
     relay_step cfg S y (in_world ((ry_world y)\<lparr>wd_db := (wd_db (ry_world y))
        \<lparr>t_outbox := t_outbox (wd_db (ry_world y)) @ [r]\<rparr>\<rparr>) y)"
| rs_clock: "wd_now (ry_world y) \<le> t \<Longrightarrow> relay_step cfg S y (in_world ((ry_world y)\<lparr>wd_now := t\<rparr>) y)"

inductive relay_steps :: "(nat \<Rightarrow> config) \<Rightarrow> ('s, 'k) services \<Rightarrow> ('s, 'k) relays \<Rightarrow> ('s, 'k) relays \<Rightarrow> bool"
  for cfg :: "nat \<Rightarrow> config" and S :: "('s, 'k) services" where
  rss_refl: "relay_steps cfg S y y"
| rss_more: "relay_steps cfg S y y' \<Longrightarrow> relay_step cfg S y' y'' \<Longrightarrow> relay_steps cfg S y y''"

abbreviation table :: "('s, 'k) relays \<Rightarrow> outbox_row list" where
  "table y \<equiv> t_outbox (wd_db (ry_world y))"

text \<open>The message of row \<open>r\<close> is in the log of its topic.\<close>

definition delivered :: "('s, 'k) services \<Rightarrow> ('k \<Rightarrow> string \<Rightarrow> kmsg set) \<Rightarrow> ('s, 'k) world \<Rightarrow> outbox_row \<Rightarrow> bool" where
  "delivered S held w r \<longleftrightarrow> to_kmsg (relay_message r) \<in> held (wd_kafka w) (ob_topic r)"

definition relay_inv :: "('s, 'k) services \<Rightarrow> ('k \<Rightarrow> string \<Rightarrow> kmsg set) \<Rightarrow> ('s, 'k) relays \<Rightarrow> bool" where
  "relay_inv S held y \<longleftrightarrow> distinct (map ob_id (table y))
     \<and> (\<forall>i. set (batch_of (ry_phase y i)) \<subseteq> {r \<in> set (table y). ob_status r = Pending}
          \<and> distinct (map ob_id (batch_of (ry_phase y i))))
     \<and> (\<forall>i j. i \<noteq> j \<longrightarrow> ids (batch_of (ry_phase y i)) \<inter> ids (batch_of (ry_phase y j)) = {})
     \<and> (\<forall>i rows r. ry_phase y i = Sent rows \<longrightarrow> r \<in> set rows \<longrightarrow> delivered S held (ry_world y) r)
     \<and> (\<forall>r \<in> set (table y). ob_status r = Published \<longrightarrow> delivered S held (ry_world y) r)"

lemma relay_invD:
  assumes "relay_inv S held y"
  shows "distinct (map ob_id (table y))"
    and "set (batch_of (ry_phase y i)) \<subseteq> {r \<in> set (table y). ob_status r = Pending}"
    and "distinct (map ob_id (batch_of (ry_phase y i)))"
    and "i \<noteq> j \<Longrightarrow> ids (batch_of (ry_phase y i)) \<inter> ids (batch_of (ry_phase y j)) = {}"
    and "ry_phase y i = Sent rows \<Longrightarrow> r \<in> set rows \<Longrightarrow> delivered S held (ry_world y) r"
    and "r \<in> set (table y) \<Longrightarrow> ob_status r = Published \<Longrightarrow> delivered S held (ry_world y) r"
  using assms by (auto simp: relay_inv_def)

subsection \<open>Each step keeps the invariant\<close>

lemma relay_message_frame:
  "relay_message (r\<lparr>ob_status := s, ob_publishedAt := p, ob_lastError := e\<rparr>) = relay_message r"
  "relay_message (failed_row m msg now r) = relay_message r"
  "ob_topic (failed_row m msg now r) = ob_topic r" "ob_id (failed_row m msg now r) = ob_id r"
  by (simp_all add: relay_message_def failed_row_def)

lemma in_batch_unique:
  assumes inv: "relay_inv S held y" and r: "r \<in> set (table y)" and id: "ob_id r \<in> ids (batch_of (ry_phase y i))"
  shows "r \<in> set (batch_of (ry_phase y i))"
proof -
  from id obtain r' where r': "r' \<in> set (batch_of (ry_phase y i))" "ob_id r' = ob_id r"
    by (auto simp: ids_def)
  then have "r' \<in> set (table y)" using relay_invD(2) [OF inv, of i] by blast
  then have "r' = r" using relay_invD(1) [OF inv] r r'(2) by (auto simp: distinct_map dest: inj_onD)
  with r' show ?thesis by simp
qed

lemma other_batch_kept:
  assumes inv: "relay_inv S held y" and "j \<noteq> i" and "r \<in> set (batch_of (ry_phase y j))"
  shows "ob_id r \<notin> ids (batch_of (ry_phase y i))" and "r \<in> set (table y)" and "ob_status r = Pending"
  using relay_invD(2) [OF inv, of j] relay_invD(4) [OF inv assms(2)] assms(3)
  by (auto simp: ids_def)

text \<open>
  Changing only rows that relay \<open>i\<close> holds, and ending its transaction: all the invariant needs is that
  the rows it leaves published are delivered.
\<close>

lemma relay_inv_finish:
  assumes inv: "relay_inv S held y"
    and map: "table y' = map (\<lambda>r. if ob_id r \<in> ids (batch_of (ry_phase y i)) then g r else r) (table y)"
    and ph: "ry_phase y' = (ry_phase y)(i := Idle)"
    and keep: "\<And>r. ob_id (g r) = ob_id r"
    and grow: "\<And>r. delivered S held (ry_world y) r \<Longrightarrow> delivered S held (ry_world y') r"
    and pub: "\<And>r. r \<in> set (batch_of (ry_phase y i)) \<Longrightarrow> ob_status (g r) = Published \<Longrightarrow>
      delivered S held (ry_world y') (g r)"
  shows "relay_inv S held y'"
proof -
  let ?B = "ids (batch_of (ry_phase y i))"
  have "map ob_id (table y') = map ob_id (table y)" by (auto simp: map keep)
  then have "distinct (map ob_id (table y'))" using relay_invD(1) [OF inv] by metis
  moreover have "r \<in> set (table y') \<and> ob_status r = Pending"
    if "j \<noteq> i" "r \<in> set (batch_of (ry_phase y j))" for j r
    using other_batch_kept [OF inv that] by (auto simp: map image_iff intro!: bexI [of _ r])
  then have "set (batch_of (ry_phase y' j)) \<subseteq> {r \<in> set (table y'). ob_status r = Pending}" for j
    by (cases "j = i") (auto simp: ph)
  moreover have "distinct (map ob_id (batch_of (ry_phase y' j)))" for j
    using relay_invD(3) [OF inv] by (simp add: ph)
  moreover have "ids (batch_of (ry_phase y' j)) \<inter> ids (batch_of (ry_phase y' k)) = {}" if "j \<noteq> k" for j k
    using relay_invD(4) [OF inv that] by (simp add: ph)
  moreover have "delivered S held (ry_world y') r" if "ry_phase y' j = Sent rows" "r \<in> set rows" for j rows r
    using that relay_invD(5) [OF inv] grow by (auto simp: ph split: if_splits)
  moreover have "delivered S held (ry_world y') r"
    if r: "r \<in> set (table y')" "ob_status r = Published" for r
  proof -
    from r(1) obtain r0 where r0: "r0 \<in> set (table y)" "r = (if ob_id r0 \<in> ?B then g r0 else r0)"
      by (auto simp: map)
    show ?thesis
    proof (cases "ob_id r0 \<in> ?B")
      case True
      with r0 r(2) pub in_batch_unique [OF inv r0(1) True] show ?thesis by simp
    next
      case False
      with r0 r(2) grow relay_invD(6) [OF inv r0(1)] show ?thesis by simp
    qed
  qed
  ultimately show ?thesis unfolding relay_inv_def by blast
qed

lemma relay_inv_same_batches:
  assumes inv: "relay_inv S held y" and "table y' = table y"
    and "\<And>j. batch_of (ry_phase y' j) = batch_of (ry_phase y j)"
    and "\<And>r. delivered S held (ry_world y) r \<Longrightarrow> delivered S held (ry_world y') r"
    and "\<And>j rows r. ry_phase y' j = Sent rows \<Longrightarrow> r \<in> set rows \<Longrightarrow> delivered S held (ry_world y') r"
  shows "relay_inv S held y'"
  unfolding relay_inv_def assms(2,3)
  using relay_invD(1-4) [OF inv] relay_invD(6) [OF inv] assms(4,5) by blast

lemma delivered_cong: "wd_kafka w' = wd_kafka w \<Longrightarrow> delivered S held w' r = delivered S held w r"
  by (simp add: delivered_def)

lemma drain_frame [simp]:
  "wd_kafka (drain_failed cfg e rows w) = wd_kafka w" "wd_kafka (drain_commit rows w) = wd_kafka w"
  "wd_db (drain_failed cfg e rows w) = markFailed (outbox_maxAttempts cfg) (message_of e) (wd_now w) rows (wd_db w)"
  "wd_db (drain_commit rows w) = mark_published rows (wd_now w) (wd_db w)"
  "wd_now (drain_failed cfg e rows w) = wd_now w" "wd_now (drain_commit rows w) = wd_now w"
  by (simp_all add: drain_failed_def drain_commit_def refreshPendingGauge_def)

lemma relay_step_inv:
  assumes "relay_step cfg S y y'" and ok: "broker_ok S held" and inv: "relay_inv S held y"
  shows "relay_inv S held y'"
  using assms(1) inv
proof (induction rule: relay_step.induct)
  case (rs_select y i rows)
  note sel = drain_select_props [OF rs_select(2)]
  have "ids rows \<inter> ids (batch_of (ry_phase y j)) = {}" if "j \<noteq> i" for j
    using sel(1) that by (auto simp: is_due_def locked_by_others_def ids_def)
  moreover have "set rows \<subseteq> {r \<in> set (table y). ob_status r = Pending}"
    using sel(1) by (auto simp: is_due_def)
  ultimately show ?case
    using rs_select(4) sel(2) unfolding relay_inv_def by (auto simp: Int_commute)
next
  case (rs_sent y i rows u w')
  have w': "w' = snd (publishBatch S (map relay_message rows) (ry_world y))" using rs_sent(2) by simp
  have dg: "delivered S held w' r" if "delivered S held (ry_world y) r" for r
    using publishBatch_grows [OF ok] that by (auto simp: delivered_def w')
  have "delivered S held w' r" if "r \<in> set rows" for r
    using publishBatch_acked [OF ok, of "map relay_message rows" "ry_world y" "relay_message r"] rs_sent(2) that
    by (simp add: delivered_def relay_message_def)
  then show ?case
    using rs_sent(1) dg relay_invD(5) [OF rs_sent(3)] w'
    by (intro relay_inv_same_batches [OF rs_sent(3)]) (auto split: if_splits)
next
  case (rs_refused y i rows e w')
  have w': "w' = snd (publishBatch S (map relay_message rows) (ry_world y))" using rs_refused(2) by simp
  have b: "batch_of (ry_phase y i) = rows" using rs_refused(1) by simp
  let ?g = "failed_row (outbox_maxAttempts (cfg i)) (message_of e) (wd_now w')"
  show ?case
  proof (rule relay_inv_finish [OF rs_refused(3), where i = i and g = ?g])
    have "t_outbox (markFailed (outbox_maxAttempts (cfg i)) (message_of e) (wd_now w') rows (wd_db w')) =
        map (\<lambda>r. if ob_id r \<in> ids rows then ?g r else r) (t_outbox (wd_db w'))"
      using relay_invD(1) [OF rs_refused(3)] relay_invD(2,3) [OF rs_refused(3), of i] b by (intro markFailed_table) (auto simp: w')
    then show "table (set_phase i Idle (in_world (drain_failed (cfg i) e rows w') y)) =
        map (\<lambda>r. if ob_id r \<in> ids (batch_of (ry_phase y i)) then ?g r else r) (table y)"
      by (simp add: b w')
    show "delivered S held (ry_world (set_phase i Idle (in_world (drain_failed (cfg i) e rows w') y))) r"
      if "delivered S held (ry_world y) r" for r
      using publishBatch_grows [OF ok] that by (auto simp: delivered_def w')
    show "delivered S held (ry_world (set_phase i Idle (in_world (drain_failed (cfg i) e rows w') y))) (?g r)"
      if "ob_status (?g r) = Published" for r
      using that by (simp add: failed_row_def split: if_splits)
  qed (simp_all add: relay_message_frame)
next
  case (rs_commit y i rows)
  have b: "batch_of (ry_phase y i) = rows" using rs_commit(1) by simp
  let ?g = "\<lambda>r. r\<lparr>ob_status := Published, ob_publishedAt := Some (wd_now (ry_world y)), ob_lastError := None\<rparr>"
  show ?case
  proof (rule relay_inv_finish [OF rs_commit(2), where i = i and g = ?g])
    show "table (set_phase i Idle (in_world (drain_commit rows (ry_world y)) y)) =
        map (\<lambda>r. if ob_id r \<in> ids (batch_of (ry_phase y i)) then ?g r else r) (table y)"
      by (simp add: b mark_published_def upd_where_def ids_def)
    show "delivered S held (ry_world (set_phase i Idle (in_world (drain_commit rows (ry_world y)) y))) r"
      if "delivered S held (ry_world y) r" for r
      using that by (simp add: delivered_def)
    show "delivered S held (ry_world (set_phase i Idle (in_world (drain_commit rows (ry_world y)) y))) (?g r)"
      if "r \<in> set (batch_of (ry_phase y i))" for r
      using relay_invD(5) [OF rs_commit(2,1)] that b by (simp add: delivered_def relay_message_frame)
  qed simp_all
next
  case (rs_crash y i)
  show ?case
    by (rule relay_inv_finish [OF rs_crash, where i = i and g = "\<lambda>r. r"])
       (auto intro: relay_invD(6) [OF rs_crash] dest: subsetD [OF relay_invD(2) [OF rs_crash, of i]])
next
  case (rs_enqueue r y)
  have "delivered S held (w\<lparr>wd_db := d\<rparr>) x = delivered S held w x" for w :: "('a, 'b) world" and d x
    by (simp add: delivered_def)
  then show ?case
    using rs_enqueue unfolding relay_inv_def ids_def by auto
next
  case (rs_clock y t)
  have "delivered S held (w\<lparr>wd_now := n\<rparr>) x = delivered S held w x" for w :: "('a, 'b) world" and n x
    by (simp add: delivered_def)
  with rs_clock show ?case unfolding relay_inv_def by simp
qed

lemma relay_steps_inv: "relay_steps cfg S y y' \<Longrightarrow> broker_ok S held \<Longrightarrow> relay_inv S held y \<Longrightarrow> relay_inv S held y'"
  by (induction rule: relay_steps.induct) (auto intro: relay_step_inv)

subsection \<open>Rows stay, and failed rows stay failed\<close>

definition rows_kept :: "outbox_row list \<Rightarrow> outbox_row list \<Rightarrow> bool" where
  "rows_kept rs rs' \<longleftrightarrow> (\<forall>r \<in> set rs. \<exists>r' \<in> set rs'. same_message r r'
     \<and> (ob_status r \<noteq> Pending \<longrightarrow> r' = r))"

lemma rows_kept_refl: "rows_kept rs rs"
  by (auto simp: rows_kept_def same_message_def)

lemma rows_kept_trans: "rows_kept rs rs' \<Longrightarrow> rows_kept rs' rs'' \<Longrightarrow> rows_kept rs rs''"
  unfolding rows_kept_def same_message_def by metis

lemma rows_kept_map:
  assumes "\<And>r. r \<in> set rs \<Longrightarrow> P r \<Longrightarrow> ob_status r = Pending" and "\<And>r. same_message r (g r)"
  shows "rows_kept rs (map (\<lambda>r. if P r then g r else r) rs)"
  unfolding rows_kept_def
proof
  fix r
  assume r: "r \<in> set rs"
  let ?r' = "if P r then g r else r"
  have "?r' \<in> set (map (\<lambda>r. if P r then g r else r) rs)" using r by (auto simp: image_iff)
  moreover have "same_message r ?r' \<and> (ob_status r \<noteq> Pending \<longrightarrow> ?r' = r)"
    using assms(1) [OF r] assms(2) by (auto simp: same_message_def)
  ultimately show "\<exists>r' \<in> set (map (\<lambda>r. if P r then g r else r) rs).
      same_message r r' \<and> (ob_status r \<noteq> Pending \<longrightarrow> r' = r)" by blast
qed

lemma batch_pending:
  assumes inv: "relay_inv S held y" and "r \<in> set (table y)" and "ob_id r \<in> ids (batch_of (ry_phase y i))"
  shows "ob_status r = Pending"
  using in_batch_unique [OF assms] relay_invD(2) [OF inv, of i] by blast

lemma same_message_frame:
  "same_message r (r\<lparr>ob_status := st, ob_publishedAt := p, ob_lastError := e\<rparr>)"
  "same_message r (failed_row m msg now r)"
  by (simp_all add: same_message_def relay_message_frame)

lemma relay_step_keeps:
  assumes "relay_step cfg S y y'" and inv: "relay_inv S held y"
  shows "rows_kept (table y) (table y')"
  using assms
proof (induction rule: relay_step.induct)
  case (rs_sent y i rows u w')
  then have "wd_db w' = wd_db (ry_world y)"
    using publishBatch_frame(1) [of S "map relay_message rows" "ry_world y"] by simp
  then show ?case by (simp add: rows_kept_refl)
next
  case (rs_refused y i rows e w')
  have db: "wd_db w' = wd_db (ry_world y)"
    using publishBatch_frame(1) [of S "map relay_message rows" "ry_world y"] rs_refused(2) by simp
  have b: "batch_of (ry_phase y i) = rows" using rs_refused(1) by simp
  have "t_outbox (markFailed (outbox_maxAttempts (cfg i)) (message_of e) (wd_now w') rows (wd_db w')) =
      map (\<lambda>r. if ob_id r \<in> ids rows then failed_row (outbox_maxAttempts (cfg i)) (message_of e) (wd_now w') r else r)
        (t_outbox (wd_db w'))"
    using relay_invD(1) [OF rs_refused(3)] relay_invD(2,3) [OF rs_refused(3), of i] b
    by (intro markFailed_table) (auto simp: db)
  then show ?case
    using rows_kept_map [of "table y" "\<lambda>r. ob_id r \<in> ids rows"] batch_pending [OF rs_refused(3), of _ i] b
    by (simp add: db same_message_frame)
next
  case (rs_commit y i rows)
  have b: "batch_of (ry_phase y i) = rows" using rs_commit(1) by simp
  then show ?case
    using rows_kept_map [of "table y" "\<lambda>r. ob_id r \<in> ids rows"] batch_pending [OF rs_commit(2), of _ i]
    by (simp add: mark_published_def upd_where_def ids_def same_message_frame)
next
  case (rs_enqueue r y)
  then show ?case by (auto simp: rows_kept_def same_message_def)
qed (simp_all add: rows_kept_refl)

lemma relay_steps_keep:
  "relay_steps cfg S y y' \<Longrightarrow> broker_ok S held \<Longrightarrow> relay_inv S held y \<Longrightarrow> rows_kept (table y) (table y')"
proof (induction rule: relay_steps.induct)
  case (rss_more y y' y'')
  then have "rows_kept (table y') (table y'')"
    by (intro relay_step_keeps [OF rss_more(2)] relay_steps_inv [OF rss_more(1)])
  with rss_more show ?case using rows_kept_trans by blast
qed (simp add: rows_kept_refl)

subsection \<open>What the relays guarantee\<close>

text \<open>At the start no relay holds anything, ids are unique, and what is marked published is delivered.\<close>

definition relays_start :: "('s, 'k) services \<Rightarrow> ('k \<Rightarrow> string \<Rightarrow> kmsg set) \<Rightarrow> ('s, 'k) relays \<Rightarrow> bool" where
  "relays_start S held y \<longleftrightarrow> (\<forall>i. ry_phase y i = Idle) \<and> distinct (map ob_id (table y))
     \<and> (\<forall>r \<in> set (table y). ob_status r = Published \<longrightarrow> delivered S held (ry_world y) r)"

lemma relays_start_inv: "relays_start S held y \<Longrightarrow> relay_inv S held y"
  by (simp add: relays_start_def relay_inv_def)

text \<open>
  C15. At least once. With any number of relays polling the same table, whatever batches the broker
  accepts or refuses, and wherever relays crash (in particular between the Kafka write and the
  commit): no row is ever removed or changes its message, and a row is only ever marked published
  after the broker has acknowledged its message. So every announced booking is, at any time, either
  in its topic or still in the table as pending or failed.
\<close>

theorem relay_at_least_once:
  assumes "broker_ok S held" and "relays_start S held y0" and "relay_steps cfg S y0 y"
  shows "(\<forall>r \<in> set (table y0). \<exists>r' \<in> set (table y). same_message r r')
    \<and> (\<forall>r \<in> set (table y). delivered S held (ry_world y) r \<or> ob_status r \<noteq> Published)"
  using relay_steps_keep [OF assms(3,1) relays_start_inv [OF assms(2)]]
    relay_steps_inv [OF assms(3,1) relays_start_inv [OF assms(2)]]
  by (auto simp: rows_kept_def dest: relay_invD(6))

text \<open>
  C16. \<open>SKIP LOCKED\<close> needs no coordination: two relays never hold the same row, each row a relay
  holds is still pending in the table and exactly as it was read, and no relay holds a row twice; so
  siblings only ever publish disjoint batches.
\<close>

theorem relays_hold_disjoint_rows:
  assumes "broker_ok S held" and "relays_start S held y0" and "relay_steps cfg S y0 y"
  shows "(i \<noteq> j \<longrightarrow> ids (batch_of (ry_phase y i)) \<inter> ids (batch_of (ry_phase y j)) = {})
    \<and> set (batch_of (ry_phase y i)) \<subseteq> set (table y) \<and> distinct (map ob_id (batch_of (ry_phase y i)))
    \<and> (\<forall>r \<in> set (batch_of (ry_phase y i)). ob_status r = Pending)"
  using relay_invD [OF relay_steps_inv [OF assms(3,1) relays_start_inv [OF assms(2)]]] by blast

text \<open>
  A failed row is never looked at again: once a row is marked failed, no sequence of polls,
  crashes, new rows and waiting ever changes it, so its event is not published however long the
  broker has been back.
\<close>

theorem failed_row_is_final:
  assumes "broker_ok S held" and "relays_start S held y0" and "relay_steps cfg S y0 y"
    and "r \<in> set (table y)" and "ob_status r = Failed" and "relay_steps cfg S y y'"
  shows "r \<in> set (table y')"
  using relay_steps_keep [OF assms(6,1) relay_steps_inv [OF assms(3,1) relays_start_inv [OF assms(2)]]] assms(4,5)
  by (fastforce simp: rows_kept_def)

text \<open>
  C30. \<open>drainOnce\<close> is the three parts run in a row: one call of a relay that is not already running
  leaves the database and the broker as some sequence of its own steps does, whatever rows the other
  relays hold, and it holds nothing afterwards.
\<close>

theorem drainOnce_is_relay_steps:
  assumes "ry_phase y i = Idle" and "\<not> rl_running rl"
    and "drainOnce (cfg i) S (locked_by_others y i) rl (ry_world y) = (answer, w')"
  shows "\<exists>y'. relay_steps cfg S y y' \<and> wd_db (ry_world y') = wd_db w' \<and> wd_kafka (ry_world y') = wd_kafka w'
    \<and> ry_phase y' = ry_phase y"
proof -
  have stay: ?thesis if "wd_db w' = wd_db (ry_world y)" "wd_kafka w' = wd_kafka (ry_world y)"
    using that by (intro exI [of _ y]) (simp add: rss_refl)
  show ?thesis
  proof (cases "drain_select (cfg i) (locked_by_others y i) (ry_world y)")
    case (Inl e)
    with assms(2,3) show ?thesis by (intro stay) (auto simp: drainOnce_def)
  next
    case (Inr rows)
    show ?thesis
    proof (cases "rows = []")
      case True
      with assms(2,3) Inr show ?thesis
        by (intro stay) (auto simp: drainOnce_def refreshPendingGauge_def)
    next
      case False
      let ?y1 = "set_phase i (Selected rows) y"
      have sel: "relay_steps cfg S y ?y1"
        by (rule rss_more [OF rss_refl rs_select [of y i cfg rows S, OF assms(1) Inr False]])
      obtain res w1 where pub: "publishBatch S (map relay_message rows) (ry_world y) = (res, w1)" by fastforce
      have ph: "(ry_phase y)(i := Idle) = ry_phase y" using assms(1) by auto
      show ?thesis
      proof (cases res)
        case (Inl e)
        let ?y2 = "set_phase i Idle (in_world (drain_failed (cfg i) e rows w1) ?y1)"
        have "relay_steps cfg S y ?y2"
          using pub Inl by (intro rss_more [OF sel] rs_refused) simp_all
        with assms(2,3) \<open>drain_select _ _ _ = Inr rows\<close> False pub Inl ph show ?thesis
          by (intro exI [of _ ?y2]) (auto simp: drainOnce_def)
      next
        case (Inr u)
        let ?y2 = "set_phase i (Sent rows) (in_world w1 ?y1)"
        let ?y3 = "set_phase i Idle (in_world (drain_commit rows (ry_world ?y2)) ?y2)"
        have y2: "relay_steps cfg S y ?y2"
          using pub Inr by (intro rss_more [OF sel] rs_sent) simp_all
        have "relay_steps cfg S y ?y3" by (intro rss_more [OF y2] rs_commit) simp
        with assms(2,3) \<open>drain_select _ _ _ = Inr rows\<close> False pub Inr ph show ?thesis
          by (intro exI [of _ ?y3]) (auto simp: drainOnce_def)
      qed
    qed
  qed
qed

subsection \<open>Concrete runs\<close>

definition sample_row :: "string \<Rightarrow> outbox_row" where
  "sample_row i = \<lparr>ob_id = i, ob_aggregateType = ''booking'', ob_aggregateId = i, ob_eventType = ''booking.confirmed'',
     ob_topic = ''booking.events'', ob_messageKey = ''e1'', ob_payload = JStr i, ob_status = Pending,
     ob_attempts = 0, ob_availableAt = 0, ob_publishedAt = None, ob_lastError = None, ob_createdAt = 0\<rparr>"

definition sample_relays :: "(mini_redis, mini_broker) relays" where
  "sample_relays = \<lparr>ry_world = mini_world (empty_db\<lparr>t_outbox := [sample_row ''o1'', sample_row ''o2'']\<rparr>),
     ry_phase = (\<lambda>_. Idle)\<rparr>"

text \<open>Batches of one; a single attempt before a row is given up.\<close>

definition one_by_one :: config where
  "one_by_one = (default_config Pessimistic)\<lparr>outbox_batchSize := 1, outbox_maxAttempts := 1\<rparr>"

lemma sample_start: "relays_start mini mini_held sample_relays"
  by (simp add: relays_start_def sample_relays_def mini_world_def empty_db_def sample_row_def)

lemma sample_select:
  "drain_select one_by_one {} (ry_world sample_relays) = Inr [sample_row ''o1'']"
  by (simp add: drain_select_def one_by_one_def sql_limit_def due_rows_def is_due_def sample_relays_def
      mini_world_def empty_db_def sample_row_def)

lemma sample_first:
  "relay_steps (\<lambda>_. one_by_one) mini sample_relays (set_phase 0 (Selected [sample_row ''o1'']) sample_relays)"
  using sample_select
  by (intro rss_more [OF rss_refl rs_select]) (simp_all add: locked_by_others_def sample_relays_def)

definition sample_two :: "(mini_redis, mini_broker) relays" where
  "sample_two = set_phase 1 (Selected [sample_row ''o2'']) (set_phase 0 (Selected [sample_row ''o1'']) sample_relays)"

lemma sample_second: "relay_steps (\<lambda>_. one_by_one) mini sample_relays sample_two"
  unfolding sample_two_def
proof (rule rss_more [OF sample_first rs_select])
  let ?y = "set_phase 0 (Selected [sample_row ''o1'']) sample_relays"
  show "ry_phase ?y 1 = Idle" by (simp add: sample_relays_def)
  have "locked_by_others ?y 1 = {''o1''}"
    by (auto simp: locked_by_others_def sample_relays_def ids_def sample_row_def split: if_splits)
  then show "drain_select one_by_one (locked_by_others ?y 1) (ry_world ?y) = Inr [sample_row ''o2'']"
    by (simp add: drain_select_def one_by_one_def sql_limit_def due_rows_def is_due_def sample_relays_def
        mini_world_def empty_db_def sample_row_def)
qed simp

lemma relays_hold_disjoint_rows_witness:
  "ids (batch_of (ry_phase sample_two 0)) \<inter> ids (batch_of (ry_phase sample_two 1)) = {}
     \<and> batch_of (ry_phase sample_two 0) = [sample_row ''o1''] \<and> batch_of (ry_phase sample_two 1) = [sample_row ''o2'']"
  using relays_hold_disjoint_rows [OF mini_broker_ok sample_start sample_second, of 0 1]
  by (simp add: sample_two_def)

lemma relay_at_least_once_witness:
  "\<exists>r' \<in> set (table sample_two). same_message (sample_row ''o1'') r'"
proof -
  have "sample_row ''o1'' \<in> set (table sample_relays)"
    by (simp add: sample_relays_def mini_world_def)
  with relay_at_least_once [OF mini_broker_ok sample_start sample_second] show ?thesis by blast
qed

lemma drainOnce_is_relay_steps_witness:
  "\<exists>y'. relay_steps (\<lambda>_. one_by_one) mini sample_relays y'
     \<and> snd (wd_kafka (ry_world y')) ''booking.events'' \<noteq> []"
proof -
  let ?rl = "\<lparr>rl_running = False, rl_stopped = False, rl_timer = None\<rparr>"
  have none: "locked_by_others sample_relays 0 = {}" by (simp add: locked_by_others_def sample_relays_def)
  obtain answer w' where d: "drainOnce one_by_one mini (locked_by_others sample_relays 0) ?rl
      (ry_world sample_relays) = (answer, w')" by fastforce
  have "snd (wd_kafka w') ''booking.events'' \<noteq> []"
    using d none sample_select
    by (auto simp: drainOnce_def publishBatch_def topicMessages_def byTopic_def mini_def mini_send_def
        relay_message_def sample_row_def sample_relays_def mini_world_def split: prod.splits)
  moreover from drainOnce_is_relay_steps [of sample_relays 0 ?rl "\<lambda>_. one_by_one" mini, OF _ _ d]
  obtain y' where "relay_steps (\<lambda>_. one_by_one) mini sample_relays y'" "wd_kafka (ry_world y') = wd_kafka w'"
    by (auto simp: sample_relays_def)
  ultimately show ?thesis by auto
qed

text \<open>The broker is down for the one attempt that is allowed.\<close>

definition sample_down :: "(mini_redis, mini_broker) relays" where
  "sample_down = in_world (mini_down (ry_world sample_relays)) sample_relays"

lemma sample_down_start: "relays_start mini mini_held sample_down"
  by (simp add: relays_start_def sample_down_def sample_relays_def mini_world_def empty_db_def sample_row_def
      mini_down_def)

definition given_up :: outbox_row where
  "given_up = failed_row 1 ''broker not available'' 0 (sample_row ''o1'')"

lemma sample_gives_up:
  "\<exists>y. relay_steps (\<lambda>_. one_by_one) mini sample_down y \<and> given_up \<in> set (table y)"
proof -
  let ?rl = "\<lparr>rl_running = False, rl_stopped = False, rl_timer = None\<rparr>"
  have none: "locked_by_others sample_down 0 = {}" by (simp add: locked_by_others_def sample_down_def sample_relays_def)
  obtain answer w' where d: "drainOnce one_by_one mini (locked_by_others sample_down 0) ?rl
      (ry_world sample_down) = (answer, w')" by fastforce
  have sel: "drain_select one_by_one {} (ry_world sample_down) = Inr [sample_row ''o1'']"
    using sample_select by (simp add: drain_select_def sample_down_def mini_down_def)
  have "given_up \<in> set (t_outbox (wd_db w'))"
    using d none sel
    by (auto simp: drainOnce_def publishBatch_def mini_def mini_send_def mini_down_def sample_down_def
        sample_relays_def mini_world_def empty_db_def drain_failed_def markFailed_def markFailed1_def Let_def
        upd_where_def one_by_one_def given_up_def failed_row_def sample_row_def)
  with drainOnce_is_relay_steps [of sample_down 0 ?rl "\<lambda>_. one_by_one" mini, OF _ _ d] show ?thesis
    by (auto simp: sample_down_def sample_relays_def)
qed

lemma failed_row_is_final_witness:
  "\<exists>y. relay_steps (\<lambda>_. one_by_one) mini sample_down y \<and> given_up \<in> set (table y)
     \<and> (\<forall>y'. relay_steps (\<lambda>_. one_by_one) mini y y' \<longrightarrow> given_up \<in> set (table y'))"
proof -
  obtain y where y: "relay_steps (\<lambda>_. one_by_one) mini sample_down y" "given_up \<in> set (table y)"
    using sample_gives_up by blast
  have "ob_status given_up = Failed" by (simp add: given_up_def failed_row_def sample_row_def)
  with failed_row_is_final [OF mini_broker_ok sample_down_start y] y show ?thesis by blast
qed

end
