(* ===== verification/RelayLive.thy ===== *)
theory RelayLive
  imports RelaySafety
begin

section \<open>The relay drains its backlog\<close>

text \<open>One relay alone: what a call does when the broker acknowledges and when it refuses, and the polling.\<close>

abbreviation free_relay :: relay where
  "free_relay \<equiv> \<lparr>rl_running = False, rl_stopped = False, rl_timer = None\<rparr>"

abbreviation drain_once :: "config \<Rightarrow> ('s, 'k) services \<Rightarrow> ('s, 'k) world \<Rightarrow> (err + nat) \<times> ('s, 'k) world" where
  "drain_once cfg S w \<equiv> drainOnce cfg S {} free_relay w"

abbreviation backlog :: "('s, 'k) world \<Rightarrow> outbox_row list" where
  "backlog w \<equiv> due_rows {} (wd_now w) (wd_db w)"

lemma filter_not_taken:
  "distinct (map f xs) \<Longrightarrow> filter (\<lambda>x. f x \<notin> f ` set (List.take n xs)) xs = drop n xs"
proof (induction xs arbitrary: n)
  case (Cons x xs)
  show ?case
  proof (cases n)
    case (Suc m)
    have "f y \<noteq> f x" if "y \<in> set xs" for y
      using Cons.prems that by (metis distinct.simps(2) image_eqI list.set_map list.simps(9))
    then have "filter (\<lambda>y. f y \<noteq> f x \<and> f y \<notin> f ` set (List.take m xs)) xs =
        filter (\<lambda>y. f y \<notin> f ` set (List.take m xs)) xs"
      by (intro filter_cong) auto
    with Cons Suc show ?thesis by auto
  qed simp
qed simp

lemma filter_marked:
  assumes "\<And>r. \<not> P (g r)"
  shows "filter P (map (\<lambda>r. if Q r then g r else r) xs) = filter (\<lambda>r. \<not> Q r) (filter P xs)"
  using assms by (induction xs) auto

lemma due_mark_published:
  assumes "distinct (map ob_id (t_outbox d))" and "rows = List.take n (due_rows L now d)"
  shows "due_rows L now (mark_published rows t d) = drop n (due_rows L now d)"
proof -
  let ?D = "filter (is_due L now) (t_outbox d)"
  let ?I = "ids rows"
  have "filter (is_due L now) (t_outbox (mark_published rows t d)) = filter (\<lambda>r. ob_id r \<notin> ?I) ?D"
    using filter_marked [of "is_due L now" "\<lambda>r. r\<lparr>ob_status := Published, ob_publishedAt := Some t,
      ob_lastError := None\<rparr>" "\<lambda>r. ob_id r \<in> ob_id ` set rows" "t_outbox d"]
    by (simp add: mark_published_def upd_where_def ids_def is_due_def)
  then have "due_rows L now (mark_published rows t d) = sort_key ob_createdAt (filter (\<lambda>r. ob_id r \<notin> ?I) ?D)"
    by (simp add: due_rows_def)
  also have "\<dots> = filter (\<lambda>r. ob_id r \<notin> ?I) (due_rows L now d)"
    by (simp add: due_rows_def filter_sort)
  also have "\<dots> = drop n (due_rows L now d)"
    unfolding assms(2) ids_def using assms(1)
    by (intro filter_not_taken) (simp add: due_rows_def distinct_map_filter distinct_sort_map)
  finally show ?thesis .
qed

lemma drain_acked:
  assumes ack: "\<And>b k. fst (kf_send S b k) = Inr ()" and size: "0 < outbox_batchSize cfg"
    and dist: "distinct (map ob_id (t_outbox (wd_db w)))"
  defines "n \<equiv> nat (outbox_batchSize cfg)"
  shows "fst (drain_once cfg S w) = Inr (length (List.take n (backlog w)))"
    and "backlog (snd (drain_once cfg S w)) = drop n (backlog w)"
    and "wd_db (snd (drain_once cfg S w)) = mark_published (List.take n (backlog w)) (wd_now w) (wd_db w)"
    and "wd_now (snd (drain_once cfg S w)) = wd_now w"
proof -
  define rows where "rows = List.take n (backlog w)"
  let ?rows = rows
  have sel: "drain_select cfg {} w = Inr ?rows"
    using size by (simp add: drain_select_def sql_limit_def n_def rows_def)
  obtain u w1 where pub: "publishBatch S (map relay_message ?rows) w = (u, w1)" by fastforce
  have u: "u = Inr ()"
    using pub ack by (auto simp: publishBatch_def split: prod.splits if_splits) (metis fst_conv)
  have fr: "wd_db w1 = wd_db w" "wd_now w1 = wd_now w"
    using publishBatch_frame [of S "map relay_message ?rows" w] pub by simp_all
  have no_rows: "mark_published [] t d = d" for t :: ms and d :: db by (simp add: mark_published_def upd_where_def)
  have res: "drain_once cfg S w = (if ?rows = [] then (Inr 0, refreshPendingGauge w)
      else (Inr (length ?rows), drain_commit ?rows w1))"
    using sel pub u by (simp add: drainOnce_def)
  then have db: "wd_db (snd (drain_once cfg S w)) = mark_published ?rows (wd_now w) (wd_db w)"
    using fr by (auto simp: refreshPendingGauge_def no_rows)
  then show "wd_db (snd (drain_once cfg S w)) = mark_published (List.take n (backlog w)) (wd_now w) (wd_db w)"
    by (simp add: rows_def)
  from res show now: "wd_now (snd (drain_once cfg S w)) = wd_now w"
    using fr by (auto simp: refreshPendingGauge_def)
  from res have "fst (drain_once cfg S w) = Inr (length rows)" by auto
  then show "fst (drain_once cfg S w) = Inr (length (List.take n (backlog w)))" by (simp add: rows_def)
  show "backlog (snd (drain_once cfg S w)) = drop n (backlog w)"
    unfolding db now by (rule due_mark_published [OF dist rows_def])
qed

primrec drain_times :: "config \<Rightarrow> ('s, 'k) services \<Rightarrow> nat \<Rightarrow> ('s, 'k) world \<Rightarrow> ('s, 'k) world" where
  "drain_times cfg S 0 w = w"
| "drain_times cfg S (Suc n) w = drain_times cfg S n (snd (drain_once cfg S w))"

lemma drain_times_backlog:
  assumes ack: "\<And>b k. fst (kf_send S b k) = Inr ()" and size: "0 < outbox_batchSize cfg"
    and dist: "distinct (map ob_id (t_outbox (wd_db w)))"
  shows "backlog (drain_times cfg S n w) = drop (n * nat (outbox_batchSize cfg)) (backlog w)"
  using dist
proof (induction n arbitrary: w)
  case (Suc n)
  note one = drain_acked [OF ack size Suc.prems]
  have "distinct (map ob_id (t_outbox (wd_db (snd (drain_once cfg S w)))))"
    using Suc.prems by (simp add: one(3))
  from Suc.IH [OF this] show ?case by (simp add: one(2) add.commute)
qed simp

lemma published_stays: "r \<in> set (t_outbox d) \<Longrightarrow> ob_status r = Published \<Longrightarrow>
    \<exists>r' \<in> set (t_outbox (mark_published rows t d)). ob_id r' = ob_id r \<and> ob_status r' = Published"
  by (rule bexI [of _ "if ob_id r \<in> ids rows then r\<lparr>ob_status := Published, ob_publishedAt := Some t, ob_lastError := None\<rparr> else r"])
     (auto simp: mark_published_row)

lemma taken_published: "r \<in> set (t_outbox d) \<Longrightarrow> ob_id r \<in> ids rows \<Longrightarrow>
    \<exists>r' \<in> set (t_outbox (mark_published rows t d)). ob_id r' = ob_id r \<and> ob_status r' = Published"
  by (rule bexI [of _ "r\<lparr>ob_status := Published, ob_publishedAt := Some t, ob_lastError := None\<rparr>"])
     (auto simp: mark_published_row)

lemma drain_times_published:
  assumes ack: "\<And>b k. fst (kf_send S b k) = Inr ()" and size: "0 < outbox_batchSize cfg"
    and dist: "distinct (map ob_id (t_outbox (wd_db w)))" and r: "r \<in> set (t_outbox (wd_db w))"
    and st: "ob_status r = Published \<or> r \<in> set (List.take (n * nat (outbox_batchSize cfg)) (backlog w))"
  shows "\<exists>r' \<in> set (t_outbox (wd_db (drain_times cfg S n w))). ob_id r' = ob_id r \<and> ob_status r' = Published"
  using dist r st
proof (induction n arbitrary: w r)
  case (Suc n)
  let ?b = "nat (outbox_batchSize cfg)" and ?w1 = "snd (drain_once cfg S w)"
  note one = drain_acked [OF ack size Suc.prems(1)]
  have dist1: "distinct (map ob_id (t_outbox (wd_db ?w1)))" using Suc.prems(1) by (simp add: one(3))
  consider (pub) "ob_status r = Published" | (now) "r \<in> set (List.take ?b (backlog w))"
    | (later) "r \<in> set (List.take (n * ?b) (drop ?b (backlog w)))" "r \<notin> set (List.take ?b (backlog w))"
    using Suc.prems(3) by (auto simp: take_add)
  then show ?case
  proof cases
    case later
    then have r1: "r \<in> set (backlog ?w1)" using one(2) by (metis in_set_takeD)
    then have "r \<in> set (t_outbox (wd_db ?w1))" by (simp add: due_rows_set)
    from Suc.IH [OF dist1 this] later one(2) show ?thesis by simp
  next
    case pub
    with published_stays [OF Suc.prems(2)] obtain r' where
      "r' \<in> set (t_outbox (wd_db ?w1))" "ob_id r' = ob_id r" "ob_status r' = Published"
      unfolding one(3) by blast
    with Suc.IH [OF dist1, of r'] show ?thesis by simp
  next
    case now
    then have "ob_id r \<in> ids (List.take ?b (backlog w))" by (auto simp: ids_def)
    with taken_published [OF Suc.prems(2)] obtain r' where
      "r' \<in> set (t_outbox (wd_db ?w1))" "ob_id r' = ob_id r" "ob_status r' = Published"
      unfolding one(3) by blast
    with Suc.IH [OF dist1, of r'] show ?thesis by simp
  qed
qed auto

lemma drain_once_delivers:
  assumes ack: "\<And>b k. fst (kf_send S b k) = Inr ()" and size: "0 < outbox_batchSize cfg" and ok: "broker_ok S held"
  shows "r \<in> set (List.take (nat (outbox_batchSize cfg)) (backlog w)) \<Longrightarrow> delivered S held (snd (drain_once cfg S w)) r"
    and "held (wd_kafka w) t \<subseteq> held (wd_kafka (snd (drain_once cfg S w))) t"
proof -
  define rows where "rows = List.take (nat (outbox_batchSize cfg)) (backlog w)"
  have sel: "drain_select cfg {} w = Inr rows"
    using size by (simp add: drain_select_def sql_limit_def rows_def)
  obtain u w1 where pub: "publishBatch S (map relay_message rows) w = (u, w1)" by fastforce
  have u: "u = Inr ()"
    using pub ack by (auto simp: publishBatch_def split: prod.splits if_splits) (metis fst_conv)
  have res: "snd (drain_once cfg S w) = (if rows = [] then refreshPendingGauge w else drain_commit rows w1)"
    using sel pub u by (simp add: drainOnce_def)
  have kafka: "wd_kafka (drain_commit rs x) = wd_kafka x" "wd_kafka (refreshPendingGauge x) = wd_kafka x"
    for rs and x :: "('c, 'd) world" by (simp_all add: drain_commit_def refreshPendingGauge_def)
  show "delivered S held (snd (drain_once cfg S w)) r" if r': "r \<in> set (List.take (nat (outbox_batchSize cfg)) (backlog w))"
  proof -
    have r: "r \<in> set rows" using r' by (simp add: rows_def)
    have "relay_message r \<in> set (map relay_message rows)" using r by (simp only: set_map image_eqI)
    from publishBatch_acked [OF ok _ this, of w] pub u
    have "to_kmsg (relay_message r) \<in> held (wd_kafka w1) (om_topic (relay_message r))" by simp
    moreover have "rows \<noteq> []" using r by (metis empty_iff list.set(1))
    ultimately show ?thesis by (simp only: delivered_def res if_False kafka) (simp add: relay_message_def)
  qed
  show "held (wd_kafka w) t \<subseteq> held (wd_kafka (snd (drain_once cfg S w))) t"
    using publishBatch_grows [OF ok, of w t "map relay_message rows"] pub
    by (cases "rows = []") (simp_all add: res kafka(2) kafka(1) [of rows w1])
qed

lemma drain_times_held:
  assumes ack: "\<And>b k. fst (kf_send S b k) = Inr ()" and size: "0 < outbox_batchSize cfg" and ok: "broker_ok S held"
  shows "held (wd_kafka w) t \<subseteq> held (wd_kafka (drain_times cfg S n w)) t"
proof (induction n arbitrary: w)
  case (Suc n)
  from subset_trans [OF drain_once_delivers(2) [OF assms] Suc.IH] show ?case by simp
qed simp

text \<open>Every row among the first \<open>n\<close> batches of the backlog is in its topic after \<open>n\<close> polls.\<close>

lemma drain_times_delivers:
  assumes ack: "\<And>b k. fst (kf_send S b k) = Inr ()" and size: "0 < outbox_batchSize cfg" and ok: "broker_ok S held"
    and dist: "distinct (map ob_id (t_outbox (wd_db w)))"
    and r: "r \<in> set (List.take (n * nat (outbox_batchSize cfg)) (backlog w))"
  shows "delivered S held (drain_times cfg S n w) r"
  using dist r
proof (induction n arbitrary: w)
  case (Suc n)
  let ?b = "nat (outbox_batchSize cfg)" and ?w1 = "snd (drain_once cfg S w)"
  note one = drain_acked [OF ack size Suc.prems(1)]
  consider "r \<in> set (List.take ?b (backlog w))" | "r \<in> set (List.take (n * ?b) (drop ?b (backlog w)))"
    using Suc.prems(2) by (auto simp: take_add)
  then show ?case
  proof cases
    case 1
    then have "delivered S held ?w1 r" by (rule drain_once_delivers(1) [OF ack size ok])
    then show ?thesis using drain_times_held [OF ack size ok, of ?w1 "ob_topic r" n] by (auto simp: delivered_def)
  next
    case 2
    have "distinct (map ob_id (t_outbox (wd_db ?w1)))" using Suc.prems(1) by (simp add: one(3))
    from Suc.IH [OF this] 2 one(2) show ?thesis by simp
  qed
qed simp


subsection \<open>A refusing broker\<close>

text \<open>
  C31. A refused batch counts one attempt for every row of it, none for any other row: each waits
  \<open>min (2 ^ attempts * 250) 60000\<close> milliseconds before it is due again, keeps the broker's error,
  and is given up exactly when its attempts have reached the maximum. One bad message therefore costs
  every row that shares its batch an attempt. The call itself succeeds and reports 0.
\<close>

theorem refused_batch:
  assumes "distinct (map ob_id (t_outbox (wd_db w)))"
    and "drain_select cfg {} w = Inr rows" and "rows \<noteq> []"
    and "fst (kf_send S (topicMessages (map relay_message rows)) (wd_kafka w)) = Inl e"
  shows "fst (drain_once cfg S w) = Inr 0
    \<and> t_outbox (wd_db (snd (drain_once cfg S w))) =
      map (\<lambda>r. if ob_id r \<in> ids rows
               then r\<lparr>ob_attempts := ob_attempts r + 1,
                      ob_status := (if outbox_maxAttempts cfg \<le> ob_attempts r + 1 then Failed else Pending),
                      ob_availableAt := wd_now w + min (2 ^ nat (ob_attempts r + 1) * 250) 60000,
                      ob_lastError := Some (List.take 1000 (message_of e))\<rparr>
               else r) (t_outbox (wd_db w))"
proof -
  obtain w1 where pub: "publishBatch S (map relay_message rows) w = (Inl e, w1)"
    using assms(3,4)
    by (cases "kf_send S (topicMessages (map relay_message rows)) (wd_kafka w)") (auto simp: publishBatch_def)
  have fr: "wd_db w1 = wd_db w" "wd_now w1 = wd_now w"
    using publishBatch_frame [of S "map relay_message rows" w] pub by simp_all
  have res: "drain_once cfg S w = (Inr 0, drain_failed cfg e rows w1)"
    using assms(2,3) pub by (simp add: drainOnce_def)
  note sel = drain_select_props [OF assms(2)]
  have "t_outbox (markFailed (outbox_maxAttempts cfg) (message_of e) (wd_now w) rows (wd_db w)) =
      map (\<lambda>r. if ob_id r \<in> ids rows then failed_row (outbox_maxAttempts cfg) (message_of e) (wd_now w) r else r)
        (t_outbox (wd_db w))"
    using sel(1) by (intro markFailed_table assms(1) sel(2)) auto
  with res fr show ?thesis by (simp add: failed_row_def relay_backoff_def cong: if_cong)
qed

subsection \<open>Polling\<close>

text \<open>A relay's life: ticks with any answers, and at most one shutdown.\<close>

datatype relay_event = Tick "err + nat" | Shutdown

definition relay_life :: "config \<Rightarrow> relay_event \<Rightarrow> relay \<Rightarrow> relay" where
  "relay_life cfg ev rl = (case ev of Tick a \<Rightarrow> relay_tick cfg a rl | Shutdown \<Rightarrow> relay_onApplicationShutdown rl)"

lemma relay_stopped_stays:
  "rl_stopped rl \<Longrightarrow> rl_timer rl = None \<Longrightarrow> rl_stopped (fold (relay_life cfg) evs rl) \<and> rl_timer (fold (relay_life cfg) evs rl) = None"
  by (induction evs arbitrary: rl)
     (auto simp: relay_life_def relay_tick_def relay_schedule_def relay_onApplicationShutdown_def Let_def
       split: relay_event.splits sum.splits)

text \<open>
  Polling never stops before shutdown and always after: whatever the polls answered, exceptions
  included, the relay has its next poll scheduled, at once if the last one published something and
  after the poll interval otherwise; once shut down it never schedules another.
\<close>

theorem relay_polls_until_shutdown:
  assumes "outbox_relayEnabled cfg"
  defines "rl0 \<equiv> relay_onApplicationBootstrap cfg free_relay"
  shows "rl_timer rl0 = Some 0
    \<and> rl_timer (fold (relay_life cfg) (map Tick answers @ [Tick a]) rl0) =
        Some (case a of Inr n \<Rightarrow> if 0 < n then 0 else outbox_pollIntervalMs cfg | Inl _ \<Rightarrow> outbox_pollIntervalMs cfg)
    \<and> rl_timer (fold (relay_life cfg) (map Tick answers @ [Shutdown] @ evs) rl0) = None"
proof -
  have start: "rl_timer rl0 = Some 0" "\<not> rl_stopped rl0"
    using assms by (simp_all add: relay_onApplicationBootstrap_def relay_schedule_def)
  have going: "\<not> rl_stopped (fold (relay_life cfg) (map Tick answers) rl)" if "\<not> rl_stopped rl" for rl
    using that by (induction answers arbitrary: rl)
      (auto simp: relay_life_def relay_tick_def relay_schedule_def Let_def split: sum.splits)
  have "rl_timer (fold (relay_life cfg) (map Tick answers @ [Tick a]) rl0) =
      Some (case a of Inr n \<Rightarrow> if 0 < n then 0 else outbox_pollIntervalMs cfg | Inl _ \<Rightarrow> outbox_pollIntervalMs cfg)"
    using going [OF start(2)] by (simp add: relay_life_def relay_tick_def relay_schedule_def Let_def split: sum.splits)
  moreover have "rl_timer (fold (relay_life cfg) (map Tick answers @ [Shutdown] @ evs) rl0) = None"
    by (simp add: relay_life_def [of cfg Shutdown] relay_stopped_stays relay_onApplicationShutdown_def)
  ultimately show ?thesis using start by blast
qed

subsection \<open>Concrete runs\<close>

lemma relay_polls_until_shutdown_witness:
  "rl_timer (fold (relay_life (default_config Pessimistic)) [Tick (Inl QueryFailedError), Tick (Inr 0)]
      (relay_onApplicationBootstrap (default_config Pessimistic) free_relay)) = Some 1000"
  using relay_polls_until_shutdown [of "default_config Pessimistic" "[Inl QueryFailedError]" "Inr 0"]
  by (simp add: default_config_def)

definition always_up :: "(mini_redis, mini_broker) services" where
  "always_up = mini\<lparr>kf_send := (\<lambda>b k. (Inr (), snd (mini_send b (True, snd k))))\<rparr>"


lemma refused_batch_witness:
  "map ob_status (t_outbox (wd_db (snd (drain_once one_by_one mini (ry_world sample_down))))) = [Failed, Pending]"
proof -
  have "drain_select one_by_one {} (ry_world sample_down) = Inr [sample_row ''o1'']"
    using sample_select by (simp add: drain_select_def sample_down_def mini_down_def)
  moreover have "distinct (map ob_id (t_outbox (wd_db (ry_world sample_down))))"
    using sample_down_start by (simp add: relays_start_def)
  moreover have "fst (kf_send mini b (wd_kafka (ry_world sample_down))) = Inl (JsError ''broker not available'')" for b
    by (simp add: mini_def mini_send_def sample_down_def mini_down_def)
  ultimately show ?thesis
    using refused_batch [of "ry_world sample_down" one_by_one "[sample_row ''o1'']" mini]
    by (simp add: sample_down_def mini_down_def sample_relays_def mini_world_def empty_db_def sample_row_def
        ids_def one_by_one_def)
qed

end
