(* ===== verification/TxLogic.thy ===== *)
theory TxLogic
  imports Transactions
begin

section \<open>A program logic for interleaved transactions\<close>

text \<open>
  \<open>safe\<close> reads a transaction body and collects what it may assume after each statement and what
  must hold when it ends, for any behaviour of the other transactions:

    \<^item> \<open>L\<close>: the committed rows whose locks it holds; nobody else can change them;
    \<^item> \<open>S\<close>: for the rows it has read, the seats available then; other transactions can only lower
      the counter, so the current value is at most that;
    \<^item> \<open>w\<close>: its own writes.

  A row that is read without a lock, or locked for the first time, may be any row with a
  non-negative counter. The body must commit a \<open>balanced\<close> set of writes: each counter it changed
  went down by exactly the seats of the bookings it adds, and not below zero, and (when
  \<open>matched\<close>) it adds one outbox row per booking, for that booking.
\<close>

type_synonym knowledge = "uuid \<Rightarrow> int option"
type_synonym rows = "uuid \<Rightarrow> event_row option"

definition known :: "rows \<Rightarrow> writes \<Rightarrow> uuid \<Rightarrow> event_row option" where
  "known L w e = (case w_events w e of Some r \<Rightarrow> Some r | None \<Rightarrow> L e)"

definition row_ok :: "uuid \<Rightarrow> event_row \<Rightarrow> bool" where
  "row_ok e r \<longleftrightarrow> ev_id r = e \<and> 0 \<le> ev_availableSeats r"

definition balanced :: "bool \<Rightarrow> rows \<Rightarrow> writes \<Rightarrow> bool" where
  "balanced matched L w \<longleftrightarrow>
     (\<forall>e. case w_events w e of
            None \<Rightarrow> sold e (w_bookings w) = 0
          | Some r' \<Rightarrow> (\<exists>r. L e = Some r \<and> ev_totalSeats r' = ev_totalSeats r
              \<and> ev_availableSeats r' = ev_availableSeats r - sold e (w_bookings w)
              \<and> 0 \<le> ev_availableSeats r'))
     \<and> (matched \<longrightarrow> map ob_aggregateId (w_outbox w) = map bk_id (w_bookings w))"

definition set_row :: "uuid \<Rightarrow> event_row \<Rightarrow> writes \<Rightarrow> writes" where
  "set_row e r w = w\<lparr>w_events := (w_events w)(e \<mapsto> r)\<rparr>"

definition add_booking :: "booking_row \<Rightarrow> writes \<Rightarrow> writes" where
  "add_booking b w = w\<lparr>w_bookings := w_bookings w @ [b]\<rparr>"

definition add_outbox :: "outbox_row \<Rightarrow> writes \<Rightarrow> writes" where
  "add_outbox r w = w\<lparr>w_outbox := w_outbox w @ [r]\<rparr>"

lemmas put_writes_defs = set_row_def add_booking_def add_outbox_def

lemma writes_simps [simp]:
  "w_events (set_row e r w) = (w_events w)(e \<mapsto> r)"
  "w_bookings (set_row e r w) = w_bookings w" "w_outbox (set_row e r w) = w_outbox w"
  "w_events (add_booking b w) = w_events w" "w_bookings (add_booking b w) = w_bookings w @ [b]"
  "w_outbox (add_booking b w) = w_outbox w"
  "w_events (add_outbox o' w) = w_events w" "w_bookings (add_outbox o' w) = w_bookings w"
  "w_outbox (add_outbox o' w) = w_outbox w @ [o']"
  "w_events no_writes = (\<lambda>_. None)" "w_bookings no_writes = []" "w_outbox no_writes = []"
  by (simp_all add: put_writes_defs no_writes_def)

primrec safe :: "'a tx \<Rightarrow> (err \<Rightarrow> knowledge \<Rightarrow> bool) \<Rightarrow> ('a \<Rightarrow> writes \<Rightarrow> bool) \<Rightarrow> bool
    \<Rightarrow> knowledge \<Rightarrow> rows \<Rightarrow> writes \<Rightarrow> bool" where
  "safe (Return x) X Q m S L w = (balanced m L w \<and> Q x w)"
| "safe (Throw e) X Q m S L w = X e S"
| "safe (FindEvent l e k) X Q m S L w =
     (case known L w e of
        Some r \<Rightarrow> safe (k (Some r)) X Q m S L w
      | None \<Rightarrow> safe (k None) X Q m S L w
          \<and> (\<forall>r. row_ok e r \<longrightarrow> safe (k (Some r)) X Q m (S(e \<mapsto> ev_availableSeats r))
                (if l then L(e \<mapsto> r) else L) w))"
| "safe (UpdateEvent e c f k) X Q m S L w =
     (case known L w e of
        Some r \<Rightarrow> if c r then \<forall>env. ev_id (f r) = e \<and> safe (k 1) X Q m S L (set_row e (touched env (f r)) w)
                  else safe (k 0) X Q m S L w
      | None \<Rightarrow> safe (k 0) X Q m S L w
          \<and> (\<forall>r env. row_ok e r \<longrightarrow> c r \<longrightarrow>
                ev_id (f r) = e \<and> safe (k 1) X Q m S (L(e \<mapsto> r)) (set_row e (touched env (f r)) w)))"
| "safe (SaveBooking n k) X Q m S L w =
     (\<forall>env. 0 < bn_quantity n \<longrightarrow>
        safe (k (saved_booking env n)) X Q m S L (add_booking (saved_booking env n) w))"
| "safe (SaveOutbox n k) X Q m S L w =
     (\<forall>env. safe (k (saved_outbox env n)) X Q m S L (add_outbox (saved_outbox env n) w))"

subsection \<open>The invariant of the interleaved system\<close>

definition knows :: "knowledge \<Rightarrow> db \<Rightarrow> bool" where
  "knows S d \<longleftrightarrow> (\<forall>e a. S e = Some a \<longrightarrow> (\<exists>r. find_event e d = Some r \<and> ev_availableSeats r \<le> a))"

definition held :: "'a sys \<Rightarrow> nat \<Rightarrow> rows" where
  "held s t = (\<lambda>e. if sys_locks s e = Some t then find_event e (sys_db s) else None)"

definition db_inv :: "bool \<Rightarrow> db \<Rightarrow> bool" where
  "db_inv m d \<longleftrightarrow> ledger_ok d \<and> (m \<longrightarrow> map ob_aggregateId (t_outbox d) = map bk_id (t_bookings d))"

definition own_writes_ok :: "'a sys \<Rightarrow> nat \<Rightarrow> bool" where
  "own_writes_ok s t \<longleftrightarrow>
     (\<forall>e r. w_events (sys_writes s t) e = Some r \<longrightarrow> ev_id r = e \<and> sys_locks s e = Some t)
     \<and> (\<forall>e. sys_locks s e = Some t \<longrightarrow> find_event e (sys_db s) \<noteq> None)
     \<and> (\<forall>b \<in> set (w_bookings (sys_writes s t)).
          0 < bk_quantity b \<and> find_event (bk_eventId b) (sys_db s) \<noteq> None)"

definition ended :: "'a sys \<Rightarrow> nat \<Rightarrow> bool" where
  "ended s t \<longleftrightarrow> (\<forall>e. sys_locks s e \<noteq> Some t) \<and> sys_writes s t = no_writes"

definition txn_inv :: "(err \<Rightarrow> knowledge \<Rightarrow> bool) \<Rightarrow> ('a \<Rightarrow> writes \<Rightarrow> bool) \<Rightarrow> bool \<Rightarrow> 'a sys \<Rightarrow> nat \<Rightarrow> bool" where
  "txn_inv X Q m s t =
     (case sys_status s t of
        Running p \<Rightarrow> own_writes_ok s t
          \<and> (\<exists>S. knows S (sys_db s) \<and> safe p X Q m S (held s t) (sys_writes s t))
      | Committed x \<Rightarrow> ended s t \<and> (\<exists>w. Q x w \<and> set (w_bookings w) \<subseteq> set (t_bookings (sys_db s))
          \<and> set (w_outbox w) \<subseteq> set (t_outbox (sys_db s)))
      | Aborted e \<Rightarrow> ended s t \<and> (\<exists>S. knows S (sys_db s) \<and> X e S)
      | Crashed \<Rightarrow> ended s t)"

text \<open>How a step of one transaction looks to the others.\<close>

definition undisturbed :: "nat \<Rightarrow> 'a sys \<Rightarrow> 'a sys \<Rightarrow> bool" where
  "undisturbed u s s' \<longleftrightarrow> sys_status s' u = sys_status s u \<and> sys_writes s' u = sys_writes s u
     \<and> (\<forall>e. sys_locks s' e = Some u \<longleftrightarrow> sys_locks s e = Some u)
     \<and> (\<forall>e. sys_locks s e = Some u \<longrightarrow> find_event e (sys_db s') = find_event e (sys_db s))"

definition grows :: "db \<Rightarrow> db \<Rightarrow> bool" where
  "grows d d' \<longleftrightarrow> (\<forall>e r. find_event e d = Some r \<longrightarrow>
       (\<exists>r'. find_event e d' = Some r' \<and> ev_availableSeats r' \<le> ev_availableSeats r))
     \<and> set (t_bookings d) \<subseteq> set (t_bookings d') \<and> set (t_outbox d) \<subseteq> set (t_outbox d')"

lemma grows_refl [simp]: "grows d d"
  by (simp add: grows_def)

lemma knows_grows: "knows S d \<Longrightarrow> grows d d' \<Longrightarrow> knows S d'"
  unfolding knows_def grows_def by (meson order_trans)

lemma find_grows: "grows d d' \<Longrightarrow> find_event e d \<noteq> None \<Longrightarrow> find_event e d' \<noteq> None"
  unfolding grows_def by fastforce

lemma txn_inv_undisturbed:
  assumes inv: "txn_inv X Q m s u" and same: "undisturbed u s s'" and grow: "grows (sys_db s) (sys_db s')"
  shows "txn_inv X Q m s' u"
proof -
  have held: "held s' u = held s u" and st: "sys_status s' u = sys_status s u"
    and wr: "sys_writes s' u = sys_writes s u"
    and lk: "\<And>e. sys_locks s' e = Some u \<longleftrightarrow> sys_locks s e = Some u"
    using same by (auto simp: undisturbed_def held_def)
  have own: "own_writes_ok s' u" if "own_writes_ok s u"
    using that find_grows [OF grow] by (simp add: own_writes_ok_def wr lk)
  have ended: "ended s' u = ended s u" by (simp add: ended_def lk wr)
  show ?thesis
  proof (cases "sys_status s u")
    case (Running p)
    with inv obtain S where S: "knows S (sys_db s)" "safe p X Q m S (held s u) (sys_writes s u)"
      and o: "own_writes_ok s u" by (auto simp: txn_inv_def)
    then show ?thesis
      using Running own [OF o] knows_grows [OF S(1) grow] held by (auto simp: txn_inv_def st wr)
  next
    case (Committed x)
    with inv obtain w where w: "ended s u" "Q x w" "set (w_bookings w) \<subseteq> set (t_bookings (sys_db s))"
        "set (w_outbox w) \<subseteq> set (t_outbox (sys_db s))" by (auto simp: txn_inv_def)
    moreover have "set (w_bookings w) \<subseteq> set (t_bookings (sys_db s'))"
      "set (w_outbox w) \<subseteq> set (t_outbox (sys_db s'))"
      using w(3,4) grow by (auto simp: grows_def)
    ultimately show ?thesis using Committed by (auto simp: txn_inv_def st ended)
  next
    case (Aborted e)
    with inv knows_grows [OF _ grow] show ?thesis by (auto simp: txn_inv_def st ended)
  next
    case Crashed
    with inv show ?thesis by (auto simp: txn_inv_def st ended)
  qed
qed

definition sys_inv :: "(nat \<Rightarrow> err \<Rightarrow> knowledge \<Rightarrow> bool) \<Rightarrow> (nat \<Rightarrow> 'a \<Rightarrow> writes \<Rightarrow> bool) \<Rightarrow> bool
    \<Rightarrow> 'a sys \<Rightarrow> bool" where
  "sys_inv X Q m s \<longleftrightarrow> db_inv m (sys_db s) \<and> (\<forall>t. txn_inv (X t) (Q t) m s t)"

lemma sys_inv_step:
  assumes "sys_inv X Q m s" and "db_inv m (sys_db s')" and "grows (sys_db s) (sys_db s')"
    and "\<And>u. u \<noteq> t \<Longrightarrow> undisturbed u s s'" and "txn_inv (X t) (Q t) m s' t"
  shows "sys_inv X Q m s'"
proof -
  have "txn_inv (X u) (Q u) m s' u" for u
    using assms txn_inv_undisturbed [of "X u" "Q u" m s u s']
    by (cases "u = t") (auto simp: sys_inv_def)
  with assms(2) show ?thesis by (simp add: sys_inv_def)
qed

subsection \<open>Steps inside a transaction\<close>

lemma undisturbed_goto: "u \<noteq> t \<Longrightarrow> undisturbed u s (goto t p s)"
  by (simp add: undisturbed_def goto_def)

lemma undisturbed_goto_put: "u \<noteq> t \<Longrightarrow> undisturbed u s (goto t p (put t f s))"
  by (simp add: undisturbed_def goto_def put_def)

lemma undisturbed_goto_lock:
  "u \<noteq> t \<Longrightarrow> free_for s t e \<Longrightarrow> undisturbed u s (goto t p (lock t e s))"
  by (auto simp: undisturbed_def goto_def lock_def free_for_def)

lemma undisturbed_goto_put_lock:
  "u \<noteq> t \<Longrightarrow> free_for s t e \<Longrightarrow> undisturbed u s (goto t p (put t f (lock t e s)))"
  by (auto simp: undisturbed_def goto_def put_def lock_def free_for_def)

lemma undisturbed_finish: "u \<noteq> t \<Longrightarrow> undisturbed u s (finish t st s)"
  by (auto simp: undisturbed_def finish_def)

lemma ended_finish: "ended (finish t st s) t"
  by (simp add: ended_def finish_def)

lemma sys_db_simps [simp]:
  "sys_db (goto t p s) = sys_db s" "sys_db (lock t e s) = sys_db s"
  "sys_db (put t f s) = sys_db s" "sys_db (finish t st s) = sys_db s"
  by (simp_all add: goto_def lock_def put_def finish_def)

lemma goto_simps [simp]:
  "sys_status (goto t p s) t = Running p" "sys_writes (goto t p s) = sys_writes s"
  "sys_locks (goto t p s) = sys_locks s" "held (goto t p s) = held s"
  "own_writes_ok (goto t p s) = own_writes_ok s"
  by (simp_all add: goto_def held_def own_writes_ok_def fun_eq_iff)

lemma put_simps [simp]:
  "sys_writes (put t f s) t = f (sys_writes s t)" "sys_locks (put t f s) = sys_locks s"
  "held (put t f s) = held s"
  by (simp_all add: put_def held_def fun_eq_iff)

lemma lock_simps [simp]:
  "sys_writes (lock t e s) = sys_writes s" "sys_locks (lock t e s) = (sys_locks s)(e := Some t)"
  "held (lock t e s) t = (held s t)(e := find_event e (sys_db s))"
  by (simp_all add: lock_def held_def fun_eq_iff)

lemma sys_inv_goto:
  assumes inv: "sys_inv X Q m s" and db: "sys_db s' = sys_db s"
    and other: "\<And>u. u \<noteq> t \<Longrightarrow> undisturbed u s (goto t p s')"
    and own: "own_writes_ok s' t" and kn: "knows S (sys_db s)"
    and sf: "safe p (X t) (Q t) m S (held s' t) (sys_writes s' t)"
  shows "sys_inv X Q m (goto t p s')"
proof (rule sys_inv_step [OF inv _ _ other])
  show "db_inv m (sys_db (goto t p s'))" using inv db by (simp add: sys_inv_def)
  show "grows (sys_db s) (sys_db (goto t p s'))" by (simp add: db)
  show "txn_inv (X t) (Q t) m (goto t p s') t" using own kn sf db by (auto simp: txn_inv_def)
qed

lemma sys_inv_goto_plain:
  assumes "sys_inv X Q m s" "own_writes_ok s t" "knows S (sys_db s)"
    and "safe p (X t) (Q t) m S (held s t) (sys_writes s t)"
  shows "sys_inv X Q m (goto t p s)"
  using assms by (intro sys_inv_goto [of X Q m s s t p S]) (simp_all add: undisturbed_goto)

lemma own_writes_lock:
  assumes "own_writes_ok s t" "find_event e (sys_db s) \<noteq> None"
  shows "own_writes_ok (lock t e s) t"
  using assms unfolding own_writes_ok_def lock_simps sys_db_simps by (metis fun_upd_apply)

lemma own_writes_put:
  assumes "own_writes_ok s t" "sys_locks s e = Some t" "ev_id r = e"
  shows "own_writes_ok (put t (\<lambda>w. w\<lparr>w_events := (w_events w)(e \<mapsto> r)\<rparr>) s) t"
  using assms unfolding own_writes_ok_def by simp

lemma sys_inv_goto_lock:
  assumes "sys_inv X Q m s" "own_writes_ok s t" "knows S (sys_db s)" "free_for s t e"
    and "find_event e (sys_db s) \<noteq> None"
    and "safe p (X t) (Q t) m S ((held s t)(e := find_event e (sys_db s))) (sys_writes s t)"
  shows "sys_inv X Q m (goto t p (lock t e s))"
  using assms
  by (intro sys_inv_goto [of X Q m s "lock t e s" t p S])
     (simp_all add: undisturbed_goto_lock own_writes_lock)

lemma sys_inv_goto_write:
  assumes "sys_inv X Q m s" "own_writes_ok s t" "knows S (sys_db s)" "free_for s t e"
    and "find_event e (sys_db s) \<noteq> None" "ev_id r = e"
    and "safe p (X t) (Q t) m S ((held s t)(e := find_event e (sys_db s))) (set_row e r (sys_writes s t))"
  shows "sys_inv X Q m (goto t p (put t (\<lambda>w. w\<lparr>w_events := (w_events w)(e \<mapsto> r)\<rparr>) (lock t e s)))"
  using assms
  by (intro sys_inv_goto [of X Q m s "put t (\<lambda>w. w\<lparr>w_events := (w_events w)(e \<mapsto> r)\<rparr>) (lock t e s)" t p S])
     (simp_all add: undisturbed_goto_put_lock set_row_def own_writes_put own_writes_lock)

lemma sys_inv_goto_booking:
  assumes "sys_inv X Q m s" "own_writes_ok s t" "knows S (sys_db s)" "booking_fits (sys_db s) b"
    and "safe p (X t) (Q t) m S (held s t) (add_booking b (sys_writes s t))"
  shows "sys_inv X Q m (goto t p (put t (\<lambda>w. w\<lparr>w_bookings := w_bookings w @ [b]\<rparr>) s))"
  using assms
  by (intro sys_inv_goto [of X Q m s "put t (\<lambda>w. w\<lparr>w_bookings := w_bookings w @ [b]\<rparr>) s" t p S])
     (simp_all add: undisturbed_goto_put add_booking_def, auto simp: own_writes_ok_def booking_fits_def)

lemma sys_inv_goto_outbox:
  assumes "sys_inv X Q m s" "own_writes_ok s t" "knows S (sys_db s)"
    and "safe p (X t) (Q t) m S (held s t) (add_outbox r (sys_writes s t))"
  shows "sys_inv X Q m (goto t p (put t (\<lambda>w. w\<lparr>w_outbox := w_outbox w @ [r]\<rparr>) s))"
  using assms
  by (intro sys_inv_goto [of X Q m s "put t (\<lambda>w. w\<lparr>w_outbox := w_outbox w @ [r]\<rparr>) s" t p S])
     (simp_all add: undisturbed_goto_put add_outbox_def, simp add: own_writes_ok_def)

lemma sys_inv_finish:
  assumes inv: "sys_inv X Q m s" and st: "st = Crashed \<or> (st = Aborted e \<and> knows S (sys_db s) \<and> X t e S)"
  shows "sys_inv X Q m (finish t st s)"
proof (rule sys_inv_step [OF inv _ _ undisturbed_finish])
  show "db_inv m (sys_db (finish t st s))" using inv by (simp add: sys_inv_def)
  show "grows (sys_db s) (sys_db (finish t st s))" by simp
  show "txn_inv (X t) (Q t) m (finish t st s) t"
    using st ended_finish [of t st s] by (auto simp: txn_inv_def finish_def)
qed

lemma seen_known:
  assumes "own_writes_ok s t"
  shows "known (held s t) (sys_writes s t) e =
    (if sys_locks s e = Some t then seen_event s t e else None)"
  using assms by (auto simp: known_def held_def seen_event_def own_writes_ok_def split: option.splits)

lemma seen_committed:
  assumes "own_writes_ok s t" "sys_locks s e \<noteq> Some t"
  shows "seen_event s t e = find_event e (sys_db s)"
  using assms by (auto simp: seen_event_def own_writes_ok_def split: option.splits)

lemma committed_row_ok: "db_inv m d \<Longrightarrow> find_event e d = Some r \<Longrightarrow> row_ok e r"
  by (auto simp: db_inv_def row_ok_def find_event_id ledger_okD)

lemma knows_upd: "knows S d \<Longrightarrow> find_event e d = Some r \<Longrightarrow> knows (S(e \<mapsto> ev_availableSeats r)) d"
  by (auto simp: knows_def)

end
