(* ===== verification/TxSound.thy ===== *)
theory TxSound
  imports TxLogic
begin

section \<open>Safe bodies keep the seat ledger, however they interleave\<close>

text \<open>
  Each statement of a safe body keeps the system invariant of \<open>TxLogic\<close>; so does losing a
  transaction at any point and creating an event. The locale \<open>tx_client\<close> states what a client has
  to show of its transaction bodies and derives what holds in every reachable state.
\<close>

lemma running_safe:
  assumes "sys_inv X Q m s" and "sys_status s t = Running p"
  obtains S where "own_writes_ok s t" "knows S (sys_db s)" "db_inv m (sys_db s)"
    "safe p (X t) (Q t) m S (held s t) (sys_writes s t)"
proof -
  from assms(1) have "txn_inv (X t) (Q t) m s t" and "db_inv m (sys_db s)" by (auto simp: sys_inv_def)
  with assms(2) that show thesis by (auto simp: txn_inv_def)
qed

text \<open>A statement about a row the transaction has locked, or about one it has not.\<close>

lemma row_cases:
  assumes own: "own_writes_ok s t"
  obtains (mine) r where "known (held s t) (sys_writes s t) e = Some r" "sys_locks s e = Some t"
      "seen_event s t e = Some r" "free_for s t e" "find_event e (sys_db s) \<noteq> None"
      "(held s t)(e := find_event e (sys_db s)) = held s t"
    | (absent) "known (held s t) (sys_writes s t) e = None" "seen_event s t e = None"
    | (other) r where "known (held s t) (sys_writes s t) e = None" "seen_event s t e = Some r"
      "find_event e (sys_db s) = Some r"
proof (cases "sys_locks s e = Some t")
  case True
  then have ex: "find_event e (sys_db s) \<noteq> None" using own by (simp add: own_writes_ok_def)
  then obtain r where r: "seen_event s t e = Some r"
    by (cases "w_events (sys_writes s t) e") (auto simp: seen_event_def)
  have "(held s t)(e := find_event e (sys_db s)) = held s t" using True by (auto simp: held_def)
  with True ex r show thesis using seen_known [OF own, of e] by (intro mine) (simp_all add: free_for_def)
next
  case False
  have k: "known (held s t) (sys_writes s t) e = None" using seen_known [OF own, of e] False by simp
  have seen: "seen_event s t e = find_event e (sys_db s)" by (rule seen_committed [OF own False])
  show thesis
    by (cases "find_event e (sys_db s)") (use k seen absent other in auto)
qed

lemma exec_find:
  assumes inv: "sys_inv X Q m s" and run: "sys_status s t = Running (FindEvent l e k)"
    and step: "tx_exec env t s = Some s'"
  shows "sys_inv X Q m s'"
proof (rule running_safe [OF inv run])
  fix S
  assume own: "own_writes_ok s t" and kn: "knows S (sys_db s)" and dbi: "db_inv m (sys_db s)"
    and sf: "safe (FindEvent l e k) (X t) (Q t) m S (held s t) (sys_writes s t)"
  show ?thesis
  proof (rule row_cases [OF own, of e])
    fix r
    assume k: "known (held s t) (sys_writes s t) e = Some r" "seen_event s t e = Some r"
      "free_for s t e" "find_event e (sys_db s) \<noteq> None"
      "(held s t)(e := find_event e (sys_db s)) = held s t"
    then have "s' = goto t (k (Some r)) (if l then lock t e s else s)"
      using step run by (auto simp: tx_exec_def split: if_splits)
    with k sf show ?thesis
      using sys_inv_goto_lock [OF inv own kn] sys_inv_goto_plain [OF inv own kn] by (cases l) simp_all
  next
    assume k: "known (held s t) (sys_writes s t) e = None" "seen_event s t e = None"
    then have "s' = goto t (k None) s" using step run by (simp add: tx_exec_def)
    with k sf show ?thesis using sys_inv_goto_plain [OF inv own kn] by simp
  next
    fix r
    assume k: "known (held s t) (sys_writes s t) e = None" "seen_event s t e = Some r"
      and r: "find_event e (sys_db s) = Some r"
    have kn': "knows (S(e \<mapsto> ev_availableSeats r)) (sys_db s)" by (rule knows_upd [OF kn r])
    have sf': "safe (k (Some r)) (X t) (Q t) m (S(e \<mapsto> ev_availableSeats r))
        (if l then (held s t)(e \<mapsto> r) else held s t) (sys_writes s t)"
      using sf k committed_row_ok [OF dbi r] by simp
    show ?thesis
    proof (cases l)
      case True
      with step run k have fr: "free_for s t e" and s': "s' = goto t (k (Some r)) (lock t e s)"
        by (auto simp: tx_exec_def split: if_splits)
      show ?thesis
        unfolding s' using True sf' r by (intro sys_inv_goto_lock [OF inv own kn' fr]) simp_all
    next
      case False
      have "s' = goto t (k (Some r)) s" using step run k False by (simp add: tx_exec_def)
      with False sf' show ?thesis using sys_inv_goto_plain [OF inv own kn'] by simp
    qed
  qed
qed

lemma exec_update:
  assumes inv: "sys_inv X Q m s" and run: "sys_status s t = Running (UpdateEvent e c f k)"
    and step: "tx_exec env t s = Some s'"
  shows "sys_inv X Q m s'"
proof (rule running_safe [OF inv run])
  fix S
  assume own: "own_writes_ok s t" and kn: "knows S (sys_db s)" and dbi: "db_inv m (sys_db s)"
    and sf: "safe (UpdateEvent e c f k) (X t) (Q t) m S (held s t) (sys_writes s t)"
  have go: ?thesis if seen: "seen_event s t e = Some r" and ex: "find_event e (sys_db s) \<noteq> None"
      and miss: "\<not> c r \<Longrightarrow> safe (k 0) (X t) (Q t) m S (held s t) (sys_writes s t)"
      and hit: "c r \<Longrightarrow> ev_id (f r) = e \<and> safe (k 1) (X t) (Q t) m S
          ((held s t)(e := find_event e (sys_db s))) (set_row e (touched env (f r)) (sys_writes s t))" for r
  proof -
    consider (no) "\<not> c r" "s' = goto t (k 0) s"
      | (bad) "s' = finish t Crashed s"
      | (ok) "c r" "free_for s t e" "s' = goto t (k 1)
          (put t (\<lambda>w. w\<lparr>w_events := (w_events w)(e \<mapsto> touched env (f r))\<rparr>) (lock t e s))"
      using step run seen by (auto simp: tx_exec_def split: if_splits)
    then show ?thesis
    proof cases
      case no
      then show ?thesis using sys_inv_goto_plain [OF inv own kn] miss by simp
    next
      case bad
      then show ?thesis using sys_inv_finish [OF inv] by blast
    next
      case ok
      then show ?thesis using sys_inv_goto_write [OF inv own kn ok(2) ex] hit by simp
    qed
  qed
  show ?thesis
  proof (rule row_cases [OF own, of e])
    fix r
    assume "known (held s t) (sys_writes s t) e = Some r" "seen_event s t e = Some r"
      "find_event e (sys_db s) \<noteq> None" "(held s t)(e := find_event e (sys_db s)) = held s t"
    then show ?thesis using sf by (intro go [of r]) simp_all
  next
    assume k: "known (held s t) (sys_writes s t) e = None" "seen_event s t e = None"
    then have "s' = goto t (k 0) s" using step run by (simp add: tx_exec_def)
    with k sf show ?thesis using sys_inv_goto_plain [OF inv own kn] by simp
  next
    fix r
    assume "known (held s t) (sys_writes s t) e = None" "seen_event s t e = Some r"
      and r: "find_event e (sys_db s) = Some r"
    then show ?thesis using sf committed_row_ok [OF dbi r] by (intro go [of r]) simp_all
  qed
qed

lemma exec_save_booking:
  assumes inv: "sys_inv X Q m s" and run: "sys_status s t = Running (SaveBooking n k)"
    and step: "tx_exec env t s = Some s'"
  shows "sys_inv X Q m s'"
proof (rule running_safe [OF inv run])
  fix S
  assume own: "own_writes_ok s t" and kn: "knows S (sys_db s)"
    and sf: "safe (SaveBooking n k) (X t) (Q t) m S (held s t) (sys_writes s t)"
  let ?b = "saved_booking env n"
  show ?thesis
  proof (cases "booking_fits (sys_db s) ?b")
    case True
    then have "0 < bn_quantity n" by (simp add: booking_fits_def saved_booking_def)
    with sf have sf': "safe (k ?b) (X t) (Q t) m S (held s t) (add_booking ?b (sys_writes s t))" by simp
    have "s' = goto t (k ?b) (put t (\<lambda>w. w\<lparr>w_bookings := w_bookings w @ [?b]\<rparr>) s)"
      using step run True by (simp add: tx_exec_def Let_def)
    with sys_inv_goto_booking [OF inv own kn True sf'] show ?thesis by simp
  next
    case False
    with step run have "s' = finish t Crashed s" by (simp add: tx_exec_def)
    then show ?thesis using sys_inv_finish [OF inv] by blast
  qed
qed

lemma exec_save_outbox:
  assumes inv: "sys_inv X Q m s" and run: "sys_status s t = Running (SaveOutbox n k)"
    and step: "tx_exec env t s = Some s'"
  shows "sys_inv X Q m s'"
proof (rule running_safe [OF inv run])
  fix S
  assume own: "own_writes_ok s t" and kn: "knows S (sys_db s)"
    and sf: "safe (SaveOutbox n k) (X t) (Q t) m S (held s t) (sys_writes s t)"
  show ?thesis
  proof (cases "outbox_fits (sys_db s) (saved_outbox env n)")
    case True
    let ?r = "saved_outbox env n"
    have sf': "safe (k ?r) (X t) (Q t) m S (held s t) (add_outbox ?r (sys_writes s t))" using sf by simp
    have "s' = goto t (k ?r) (put t (\<lambda>w. w\<lparr>w_outbox := w_outbox w @ [?r]\<rparr>) s)"
      using step run True by (simp add: tx_exec_def Let_def)
    with sys_inv_goto_outbox [OF inv own kn sf'] show ?thesis by simp
  next
    case False
    with step run have "s' = finish t Crashed s" by (simp add: tx_exec_def)
    then show ?thesis using sys_inv_finish [OF inv] by blast
  qed
qed

subsection \<open>The commit\<close>

lemma find_publish:
  assumes "\<And>e r. w_events w e = Some r \<Longrightarrow> ev_id r = e"
  shows "find_event e (publish_writes w d) =
    map_option (\<lambda>r. orElse (w_events w e) r) (find_event e d)"
proof -
  have "ev_id (orElse (w_events w (ev_id r)) r) = ev_id r" for r
    using assms by (cases "w_events w (ev_id r)") auto
  then have "find (\<lambda>r. ev_id r = e) (map (\<lambda>r. orElse (w_events w (ev_id r)) r) xs) =
      map_option (\<lambda>r. orElse (w_events w e) r) (find (\<lambda>r. ev_id r = e) xs)" for xs
    by (induction xs) auto
  then show ?thesis by (simp add: find_event_def publish_writes_def)
qed

lemma balanced_row:
  assumes bal: "balanced m (held s t) w" and own: "own_writes_ok s t" and w: "w = sys_writes s t"
    and find: "find_event e (sys_db s) = Some r"
  shows "ev_totalSeats (orElse (w_events w e) r) = ev_totalSeats r
    \<and> ev_availableSeats (orElse (w_events w e) r) = ev_availableSeats r - sold e (w_bookings w)
    \<and> (0 \<le> ev_availableSeats r \<longrightarrow> 0 \<le> ev_availableSeats (orElse (w_events w e) r))"
proof (cases "w_events w e")
  case None
  then have "sold e (w_bookings w) = 0"
    using bal [unfolded balanced_def, THEN conjunct1, THEN spec, of e] by simp
  with None show ?thesis by simp
next
  case (Some r')
  then have "sys_locks s e = Some t" using own w by (auto simp: own_writes_ok_def)
  then have "held s t e = Some r" using find by (simp add: held_def)
  moreover have "\<exists>r0. held s t e = Some r0 \<and> ev_totalSeats r' = ev_totalSeats r0
      \<and> ev_availableSeats r' = ev_availableSeats r0 - sold e (w_bookings w) \<and> 0 \<le> ev_availableSeats r'"
    using bal [unfolded balanced_def, THEN conjunct1, THEN spec, of e] Some by simp
  ultimately show ?thesis using Some by auto
qed

lemma publish_db_inv:
  assumes dbi: "db_inv m (sys_db s)" and own: "own_writes_ok s t" and bal: "balanced m (held s t) (sys_writes s t)"
  shows "db_inv m (publish_writes (sys_writes s t) (sys_db s))"
    and "grows (sys_db s) (publish_writes (sys_writes s t) (sys_db s))"
proof -
  let ?w = "sys_writes s t" and ?d = "sys_db s"
  let ?d' = "publish_writes ?w ?d"
  have ids: "\<And>e r. w_events ?w e = Some r \<Longrightarrow> ev_id r = e" using own by (simp add: own_writes_ok_def)
  have led: "ledger_ok ?d" using dbi by (simp add: db_inv_def)
  have pos: "0 \<le> sold e (w_bookings ?w)" for e
    using own by (intro sold_nonneg) (auto simp: own_writes_ok_def)
  have find: "find_event e ?d' = map_option (\<lambda>r. orElse (w_events ?w e) r) (find_event e ?d)" for e
    by (rule find_publish [OF ids])
  have idm: "ev_id (orElse (w_events ?w (ev_id r)) r) = ev_id r" for r
    using ids by (cases "w_events ?w (ev_id r)") auto
  have evs: "t_events ?d' = map (\<lambda>r. orElse (w_events ?w (ev_id r)) r) (t_events ?d)"
    by (simp add: publish_writes_def)
  have dist: "distinct (map ev_id (t_events ?d'))"
    using led by (simp add: evs ledger_ok_def comp_def idm)
  have row: "0 \<le> ev_availableSeats r' \<and>
      ev_availableSeats r' + sold (ev_id r') (t_bookings ?d') = ev_totalSeats r'" if "r' \<in> set (t_events ?d')" for r'
  proof -
    from that obtain r where r: "r \<in> set (t_events ?d)" and r': "r' = orElse (w_events ?w (ev_id r)) r"
      by (auto simp: evs)
    have f: "find_event (ev_id r) ?d = Some r"
      using led r by (intro find_event_unique) (auto simp: ledger_ok_def)
    from ledger_okD [OF led f] balanced_row [OF bal own refl f] show ?thesis
      by (simp add: r' idm publish_writes_def)
  qed
  have fk: "0 < bk_quantity b \<and> find_event (bk_eventId b) ?d' \<noteq> None" if "b \<in> set (t_bookings ?d')" for b
    using that led own by (auto simp: publish_writes_def ledger_ok_def own_writes_ok_def find [unfolded publish_writes_def])
  have "m \<longrightarrow> map ob_aggregateId (t_outbox ?d') = map bk_id (t_bookings ?d')"
    using dbi bal by (simp add: db_inv_def balanced_def publish_writes_def)
  with dist row fk show "db_inv m ?d'" by (simp add: db_inv_def ledger_ok_def)
  have "ev_availableSeats (orElse (w_events ?w e) r) \<le> ev_availableSeats r"
    if "find_event e ?d = Some r" for e r
    using balanced_row [OF bal own refl that] pos [of e] by linarith
  then have "\<forall>e r. find_event e ?d = Some r \<longrightarrow>
      (\<exists>r'. find_event e ?d' = Some r' \<and> ev_availableSeats r' \<le> ev_availableSeats r)"
    by (simp add: find)
  then show "grows ?d ?d'" unfolding grows_def by (simp add: publish_writes_def [of ?w ?d])
qed

lemma exec_return:
  assumes inv: "sys_inv X Q m s" and run: "sys_status s t = Running (Return x)"
  shows "sys_inv X Q m (commit t x s)"
proof (rule running_safe [OF inv run])
  fix S
  assume own: "own_writes_ok s t" and dbi: "db_inv m (sys_db s)"
    and sf: "safe (Return x) (X t) (Q t) m S (held s t) (sys_writes s t)"
  let ?d' = "publish_writes (sys_writes s t) (sys_db s)"
  have bal: "balanced m (held s t) (sys_writes s t)" and q: "Q t x (sys_writes s t)" using sf by auto
  have db: "sys_db (commit t x s) = ?d'" by (simp add: commit_def)
  show ?thesis
  proof (rule sys_inv_step [OF inv, of _ t])
    show "db_inv m (sys_db (commit t x s))" using publish_db_inv(1) [OF dbi own bal] by (simp add: db)
    show "grows (sys_db s) (sys_db (commit t x s))" using publish_db_inv(2) [OF dbi own bal] by (simp add: db)
    show "undisturbed u s (commit t x s)" if "u \<noteq> t" for u
    proof -
      have "find_event e ?d' = find_event e (sys_db s)" if "sys_locks s e = Some u" for e
      proof -
        have "w_events (sys_writes s t) e = None"
          using own that \<open>u \<noteq> t\<close> by (cases "w_events (sys_writes s t) e") (auto simp: own_writes_ok_def)
        moreover have "\<And>e r. w_events (sys_writes s t) e = Some r \<Longrightarrow> ev_id r = e"
          using own by (simp add: own_writes_ok_def)
        ultimately show ?thesis by (simp add: find_publish option.map_ident)
      qed
      with that show ?thesis by (auto simp: undisturbed_def commit_def finish_def)
    qed
    have "ended (commit t x s) t" by (simp add: commit_def ended_finish)
    moreover have "sys_status (commit t x s) t = Committed x" by (simp add: commit_def finish_def)
    ultimately show "txn_inv (X t) (Q t) m (commit t x s) t"
      using q by (auto simp: txn_inv_def db) (auto simp: publish_writes_def)
  qed
qed

lemma exec_sys_inv:
  assumes inv: "sys_inv X Q m s" and step: "tx_exec env t s = Some s'"
  shows "sys_inv X Q m s'"
proof -
  from step obtain p where run: "sys_status s t = Running p"
    by (auto simp: tx_exec_def split: status.splits)
  show ?thesis
  proof (cases p)
    case (Return x)
    with step run have "s' = commit t x s" by (simp add: tx_exec_def)
    with exec_return [OF inv] run Return show ?thesis by simp
  next
    case (Throw e)
    with step run have s': "s' = finish t (Aborted e) s" by (simp add: tx_exec_def)
    show ?thesis
      unfolding s'
    proof (rule running_safe [OF inv run])
      fix S
      assume "knows S (sys_db s)" and "safe p (X t) (Q t) m S (held s t) (sys_writes s t)"
      with Throw show "sys_inv X Q m (finish t (Aborted e) s)"
        by (intro sys_inv_finish [OF inv, of "Aborted e" e S t]) simp_all
    qed
  next
    case (FindEvent l e k)
    with exec_find [OF inv _ step] run show ?thesis by blast
  next
    case (UpdateEvent e c f k)
    with exec_update [OF inv _ step] run show ?thesis by blast
  next
    case (SaveBooking n k)
    with exec_save_booking [OF inv _ step] run show ?thesis by blast
  next
    case (SaveOutbox n k)
    with exec_save_outbox [OF inv _ step] run show ?thesis by blast
  qed
qed

subsection \<open>New events\<close>

lemma sold_unknown:
  assumes "\<And>b. b \<in> set bs \<Longrightarrow> bk_eventId b \<noteq> e"
  shows "sold e bs = 0"
proof -
  have "filter (\<lambda>b. bk_eventId b = e \<and> bk_status b = Confirmed) bs = []"
    using assms by (auto simp: filter_empty_conv)
  then show ?thesis by (simp only: sold_def) simp
qed

lemma create_db_inv:
  assumes dbi: "db_inv m d" and new: "find_event (ev_id r) d = None"
    and full: "ev_availableSeats r = ev_totalSeats r" "0 \<le> ev_totalSeats r"
  shows "db_inv m (d\<lparr>t_events := t_events d @ [r]\<rparr>)" and "grows d (d\<lparr>t_events := t_events d @ [r]\<rparr>)"
proof -
  have led: "ledger_ok d" using dbi by (simp add: db_inv_def)
  have fresh: "ev_id x \<noteq> ev_id r" if "x \<in> set (t_events d)" for x
    using new that find_NoneD [of "\<lambda>y. ev_id y = ev_id r" "t_events d" x] by (auto simp: find_event_def)
  have "sold (ev_id r) (t_bookings d) = 0"
    using led new by (intro sold_unknown) (auto simp: ledger_ok_def)
  moreover have "find_event (bk_eventId b) (d\<lparr>t_events := t_events d @ [r]\<rparr>) \<noteq> None"
    if "b \<in> set (t_bookings d)" for b
    using led that by (auto simp: ledger_ok_def find_event_append)
  ultimately have "ledger_ok (d\<lparr>t_events := t_events d @ [r]\<rparr>)"
    using led full by (auto simp: ledger_ok_def dest: fresh)
  with dbi show "db_inv m (d\<lparr>t_events := t_events d @ [r]\<rparr>)" by (simp add: db_inv_def)
  show "grows d (d\<lparr>t_events := t_events d @ [r]\<rparr>)" by (simp add: grows_def find_event_append)
qed

lemma locked_exists: "txn_inv X Q m s u \<Longrightarrow> sys_locks s e = Some u \<Longrightarrow> find_event e (sys_db s) \<noteq> None"
  by (auto simp: txn_inv_def own_writes_ok_def ended_def split: status.splits)

lemma create_sys_inv:
  assumes inv: "sys_inv X Q m s" and new: "find_event (ev_id r) (sys_db s) = None"
    and full: "ev_availableSeats r = ev_totalSeats r" "0 \<le> ev_totalSeats r"
  shows "sys_inv X Q m (s\<lparr>sys_db := (sys_db s)\<lparr>t_events := t_events (sys_db s) @ [r]\<rparr>\<rparr>)"
    (is "sys_inv X Q m ?s'")
proof -
  have dbi: "db_inv m (sys_db s)" using inv by (simp add: sys_inv_def)
  have "txn_inv (X u) (Q u) m ?s' u" for u
  proof (rule txn_inv_undisturbed)
    show t: "txn_inv (X u) (Q u) m s u" using inv by (simp add: sys_inv_def)
    show "grows (sys_db s) (sys_db ?s')" using create_db_inv(2) [OF dbi new full] by simp
    show "undisturbed u s ?s'"
      using locked_exists [OF t] by (fastforce simp: undisturbed_def find_event_append)
  qed
  with create_db_inv(1) [OF dbi new full] show ?thesis by (simp add: sys_inv_def)
qed

theorem sys_step_inv: "sys_step s s' \<Longrightarrow> sys_inv X Q m s \<Longrightarrow> sys_inv X Q m s'"
proof (induction rule: sys_step.induct)
  case (step_exec env t s s')
  then show ?case using exec_sys_inv by blast
next
  case (step_crash s t p)
  then show ?case using sys_inv_finish by blast
next
  case (step_create r s)
  then show ?case using create_sys_inv by blast
qed

lemma sys_steps_inv: "sys_steps s s' \<Longrightarrow> sys_inv X Q m s \<Longrightarrow> sys_inv X Q m s'"
  by (induction rule: sys_steps.induct) (auto intro: sys_step_inv)

lemma open_sys_inv:
  assumes "db_inv m d" and "\<And>t. safe (progs t) (X t) (Q t) m Map.empty Map.empty no_writes"
  shows "sys_inv X Q m (open_sys progs d)"
proof -
  let ?s = "open_sys progs d"
  have "txn_inv (X t) (Q t) m ?s t" for t
  proof -
    have held: "held ?s t = Map.empty" by (simp add: held_def open_sys_def fun_eq_iff)
    have own: "own_writes_ok ?s t" by (simp add: own_writes_ok_def open_sys_def)
    have kn: "knows Map.empty (sys_db ?s)" by (simp add: knows_def)
    have st: "sys_status ?s t = Running (progs t)" and wr: "sys_writes ?s t = no_writes"
      by (simp_all add: open_sys_def)
    have sf: "safe (progs t) (X t) (Q t) m Map.empty (held ?s t) (sys_writes ?s t)"
      using assms(2) [of t] held wr by simp
    show ?thesis
      unfolding txn_inv_def st status.case by (intro conjI exI [of _ Map.empty] own kn sf)
  qed
  moreover have "sys_db ?s = d" by (simp add: open_sys_def)
  ultimately show ?thesis using assms(1) by (simp add: sys_inv_def)
qed

subsection \<open>The interface\<close>

text \<open>
  A client of the transaction manager supplies one body per request and shows each body safe. In
  return the ledger holds in every reachable state, and what a finished request answered is true.
\<close>

locale tx_client =
  fixes body :: "'req \<Rightarrow> 'a tx"
    and ok :: "'req \<Rightarrow> bool"
    and rejects :: "'req \<Rightarrow> err \<Rightarrow> knowledge \<Rightarrow> bool"
    and answers :: "'req \<Rightarrow> 'a \<Rightarrow> writes \<Rightarrow> bool"
    and matched :: bool
  assumes body_safe:
    "ok q \<Longrightarrow> safe (body q) (rejects q) (answers q) matched Map.empty Map.empty no_writes"
begin

lemma reachable_inv:
  assumes "\<And>t. ok (reqs t)" "db_inv matched d" "sys_steps (open_sys (\<lambda>t. body (reqs t)) d) s"
  shows "sys_inv (\<lambda>t. rejects (reqs t)) (\<lambda>t. answers (reqs t)) matched s"
proof (rule sys_steps_inv [OF assms(3)], rule open_sys_inv [OF assms(2)])
  show "safe (body (reqs t)) (rejects (reqs t)) (answers (reqs t)) matched Map.empty Map.empty no_writes" for t
    by (rule body_safe) (rule assms(1))
qed

lemma reachable_ledger:
  assumes "\<And>t. ok (reqs t)" "db_inv matched d" "sys_steps (open_sys (\<lambda>t. body (reqs t)) d) s"
  shows "ledger_ok (sys_db s)"
  using reachable_inv [OF assms] by (simp add: sys_inv_def db_inv_def)

lemma reachable_matched:
  assumes "\<And>t. ok (reqs t)" "db_inv matched d" "sys_steps (open_sys (\<lambda>t. body (reqs t)) d) s" "matched"
  shows "map ob_aggregateId (t_outbox (sys_db s)) = map bk_id (t_bookings (sys_db s))"
  using reachable_inv [OF assms(1-3)] assms(4) by (simp add: sys_inv_def db_inv_def)

lemma rejected_truth:
  assumes "\<And>t. ok (reqs t)" "db_inv matched d" "sys_steps (open_sys (\<lambda>t. body (reqs t)) d) s"
    and "sys_status s t = Aborted x"
  shows "\<exists>S. knows S (sys_db s) \<and> rejects (reqs t) x S"
proof -
  have "txn_inv (rejects (reqs t)) (answers (reqs t)) matched s t"
    using reachable_inv [OF assms(1-3)] by (simp add: sys_inv_def)
  with assms(4) show ?thesis by (simp add: txn_inv_def)
qed

lemma committed_truth:
  assumes "\<And>t. ok (reqs t)" "db_inv matched d" "sys_steps (open_sys (\<lambda>t. body (reqs t)) d) s"
    and "sys_status s t = Committed x"
  shows "\<exists>w. answers (reqs t) x w \<and> set (w_bookings w) \<subseteq> set (t_bookings (sys_db s))
    \<and> set (w_outbox w) \<subseteq> set (t_outbox (sys_db s))"
proof -
  have "txn_inv (rejects (reqs t)) (answers (reqs t)) matched s t"
    using reachable_inv [OF assms(1-3)] by (simp add: sys_inv_def)
  with assms(4) show ?thesis by (simp add: txn_inv_def)
qed

end

end
