(* ===== verification/TxLive.thy ===== *)
theory TxLive
  imports Transactions
begin

section \<open>Transactions that lock one row never deadlock\<close>

text \<open>
  A body that only touches one event row and takes a bounded number of statements can always be
  brought to its end: whoever holds the row's lock is never blocked, and when it has ended the
  lock is free. The locale \<open>tx_single_row\<close> states the two facts a client shows of its bodies.
\<close>

primrec touches :: "uuid \<Rightarrow> 'a tx \<Rightarrow> bool" where
  "touches e (Return x) = True"
| "touches e (Throw x) = True"
| "touches e (FindEvent l e' k) = (e' = e \<and> (\<forall>r. touches e (k r)))"
| "touches e (UpdateEvent e' c f k) = (e' = e \<and> (\<forall>n. touches e (k n)))"
| "touches e (SaveBooking n k) = (\<forall>b. touches e (k b))"
| "touches e (SaveOutbox n k) = (\<forall>r. touches e (k r))"

text \<open>At most \<open>n\<close> more statements, the last of which ends the transaction.\<close>

primrec ends_in :: "'a tx \<Rightarrow> nat \<Rightarrow> bool" where
  "ends_in (Return x) n = (0 < n)"
| "ends_in (Throw x) n = (0 < n)"
| "ends_in (FindEvent l e k) n = (0 < n \<and> (\<forall>r. ends_in (k r) (n - 1)))"
| "ends_in (UpdateEvent e c f k) n = (0 < n \<and> (\<forall>m. ends_in (k m) (n - 1)))"
| "ends_in (SaveBooking b k) n = (0 < n \<and> (\<forall>r. ends_in (k r) (n - 1)))"
| "ends_in (SaveOutbox b k) n = (0 < n \<and> (\<forall>r. ends_in (k r) (n - 1)))"

definition is_running :: "'a sys \<Rightarrow> nat \<Rightarrow> bool" where
  "is_running s t = (case sys_status s t of Running _ \<Rightarrow> True | _ \<Rightarrow> False)"

lemma is_running_iff: "is_running s t \<longleftrightarrow> (\<exists>p. sys_status s t = Running p)"
  by (auto simp: is_running_def split: status.splits)

lemma ends_in_mono: "ends_in p n \<Longrightarrow> n \<le> m \<Longrightarrow> ends_in p m"
proof (induction p arbitrary: n m)
  case (FindEvent l e k)
  then show ?case by simp (meson diff_le_mono order_less_le_trans rangeI)
next
  case (UpdateEvent e c f k)
  then show ?case by simp (meson diff_le_mono order_less_le_trans rangeI)
next
  case (SaveBooking n k)
  then show ?case by simp (meson diff_le_mono order_less_le_trans rangeI)
next
  case (SaveOutbox n k)
  then show ?case by simp (meson diff_le_mono order_less_le_trans rangeI)
qed auto

lemma touches_bind:
  "touches e p \<Longrightarrow> (\<And>x. touches e (g x)) \<Longrightarrow> touches e (tx_bind p g)"
  by (induction p) auto

lemma ends_in_bind:
  "ends_in p n \<Longrightarrow> (\<And>x. ends_in (g x) m) \<Longrightarrow> 0 < m \<Longrightarrow> ends_in (tx_bind p g) (n + m)"
proof (induction p arbitrary: n)
  case (Return x)
  then show ?case using ends_in_mono [of "g x" m "n + m"] by simp
next
  case (Throw e)
  then show ?case by simp
next
  case (FindEvent l e k)
  then have "0 < n" and "ends_in (tx_bind (k r) g) (n - 1 + m)" for r
    using FindEvent.IH [OF rangeI, of r "n - 1"] by simp_all
  then show ?case by simp
next
  case (UpdateEvent e c f k)
  then have "0 < n" and "ends_in (tx_bind (k r) g) (n - 1 + m)" for r
    using UpdateEvent.IH [OF rangeI, of r "n - 1"] by simp_all
  then show ?case by simp
next
  case (SaveBooking b k)
  then have "0 < n" and "ends_in (tx_bind (k r) g) (n - 1 + m)" for r
    using SaveBooking.IH [OF rangeI, of r "n - 1"] by simp_all
  then show ?case by simp
next
  case (SaveOutbox b k)
  then have "0 < n" and "ends_in (tx_bind (k r) g) (n - 1 + m)" for r
    using SaveOutbox.IH [OF rangeI, of r "n - 1"] by simp_all
  then show ?case by simp
qed

subsection \<open>Steps\<close>

text \<open>What one statement of transaction \<open>t\<close> does to the status and the locks.\<close>

lemma exec_frame:
  assumes "tx_exec env t s = Some s'" and "u \<noteq> t"
  shows "sys_status s' u = sys_status s u" and "sys_locks s' e = Some u \<longleftrightarrow> sys_locks s e = Some u"
  using assms
  by (auto simp: tx_exec_def goto_def lock_def put_def finish_def commit_def free_for_def Let_def
      split: status.splits tx.splits option.splits if_splits)

lemma exec_own:
  assumes "tx_exec env t s = Some s'" and "sys_status s t = Running p" and "touches e p" and "ends_in p n"
    and "\<And>e'. sys_locks s e' = Some t \<Longrightarrow> e' = e"
  shows "(\<not> is_running s' t \<and> (\<forall>e'. sys_locks s' e' \<noteq> Some t))
    \<or> (\<exists>p'. sys_status s' t = Running p' \<and> touches e p' \<and> 0 < n \<and> ends_in p' (n - 1)
        \<and> (\<forall>e'. sys_locks s' e' = Some t \<longrightarrow> e' = e))"
  using assms
  by (cases p)
     (auto simp: tx_exec_def goto_def lock_def put_def finish_def commit_def is_running_def Let_def
      split: option.splits if_splits)

lemma exec_enabled:
  assumes "sys_status s t = Running p" and "touches e p" and "free_for s t e"
  shows "tx_exec env t s \<noteq> None"
  using assms by (cases p) (auto simp: tx_exec_def Let_def split: option.splits)

lemma exec_blocked:
  assumes "sys_status s t = Running p" and "touches e p" and "tx_exec env t s = None"
  obtains u where "u \<noteq> t" "sys_locks s e = Some u"
proof -
  have "\<not> free_for s t e" using exec_enabled [OF assms(1,2)] assms(3) by blast
  with that show thesis by (auto simp: free_for_def)
qed

subsection \<open>The invariant\<close>

definition single_row :: "(nat \<Rightarrow> uuid) \<Rightarrow> (nat \<Rightarrow> nat) \<Rightarrow> 'a sys \<Rightarrow> bool" where
  "single_row target bound s \<longleftrightarrow>
     (\<forall>t p. sys_status s t = Running p \<longrightarrow> touches (target t) p \<and> ends_in p (bound t))
     \<and> (\<forall>e t. sys_locks s e = Some t \<longrightarrow> e = target t \<and> is_running s t)"

lemma single_rowD:
  assumes "single_row target bound s"
  shows "sys_status s t = Running p \<Longrightarrow> touches (target t) p"
    and "sys_status s t = Running p \<Longrightarrow> ends_in p (bound t)"
    and "sys_locks s e = Some t \<Longrightarrow> e = target t" and "sys_locks s e = Some t \<Longrightarrow> is_running s t"
  using assms by (auto simp: single_row_def)

lemma single_row_exec:
  assumes inv: "single_row target bound s" and step: "tx_exec env t s = Some s'"
  shows "single_row target bound s'"
proof -
  obtain p where p: "sys_status s t = Running p"
    using step by (auto simp: tx_exec_def split: status.splits)
  note own = exec_own [OF step p single_rowD(1) [OF inv p] single_rowD(2) [OF inv p] single_rowD(3) [OF inv]]
  have "touches (target u) q \<and> ends_in q (bound u)" if "sys_status s' u = Running q" for u q
  proof (cases "u = t")
    case True
    with own that ends_in_mono [of q "bound t - 1" "bound t"] show ?thesis by (auto simp: is_running_def)
  next
    case False
    with that single_rowD(1,2) [OF inv] exec_frame(1) [OF step False] show ?thesis by simp
  qed
  moreover have "e = target u \<and> is_running s' u" if "sys_locks s' e = Some u" for e u
  proof (cases "u = t")
    case True
    with own that show ?thesis by (auto simp: is_running_def)
  next
    case False
    with that have "sys_locks s e = Some u" using exec_frame(2) [OF step False] by simp
    then show ?thesis
      using single_rowD(3,4) [OF inv] exec_frame(1) [OF step False] by (simp add: is_running_def)
  qed
  ultimately show ?thesis by (simp add: single_row_def)
qed

lemma single_row_step: "sys_step s s' \<Longrightarrow> single_row target bound s \<Longrightarrow> single_row target bound s'"
proof (induction rule: sys_step.induct)
  case (step_exec env t s s')
  then show ?case using single_row_exec by blast
next
  case (step_crash s t p)
  then show ?case by (auto simp: single_row_def finish_def is_running_def)
next
  case (step_create r s)
  then show ?case by (simp add: single_row_def is_running_def)
qed

lemma single_row_steps: "sys_steps s s' \<Longrightarrow> single_row target bound s \<Longrightarrow> single_row target bound s'"
  by (induction rule: sys_steps.induct) (auto intro: single_row_step)

subsection \<open>Bringing a transaction to its end\<close>

lemma run_alone_ends:
  assumes "single_row target bound s" "sys_status s t = Running p" "ends_in p n" "free_for s t (target t)"
  shows "\<exists>k s'. k \<le> n \<and> run_schedule (replicate k (t, env)) s = Some s' \<and> single_row target bound s'
    \<and> \<not> is_running s' t \<and> sys_locks s' (target t) = None
    \<and> (\<forall>u. u \<noteq> t \<longrightarrow> sys_status s' u = sys_status s u)"
  using assms
proof (induction n arbitrary: s p)
  case 0
  then show ?case by (cases p) auto
next
  case (Suc n)
  note inv = Suc.prems(1) and p = Suc.prems(2)
  obtain s1 where step: "tx_exec env t s = Some s1"
    using exec_enabled [OF p single_rowD(1) [OF inv p] Suc.prems(4)] by auto
  have inv1: "single_row target bound s1" by (rule single_row_exec [OF inv step])
  have frame: "sys_status s1 u = sys_status s u" if "u \<noteq> t" for u
    by (rule exec_frame(1) [OF step that])
  have free: "sys_locks s1 (target t) = None \<or> sys_locks s1 (target t) = Some t"
  proof (cases "sys_locks s1 (target t)")
    case (Some u)
    then show ?thesis
      using Suc.prems(4) exec_frame(2) [OF step, of u "target t"] by (cases "u = t") (auto simp: free_for_def)
  qed simp
  from exec_own [OF step p single_rowD(1) [OF inv p] Suc.prems(3) single_rowD(3) [OF inv]]
  consider (ended) "\<not> is_running s1 t" "\<forall>e. sys_locks s1 e \<noteq> Some t"
    | (going) p' where "sys_status s1 t = Running p'" "ends_in p' n"
    by auto
  then show ?case
  proof cases
    case ended
    with step inv1 frame free show ?thesis by (intro exI [of _ 1] exI [of _ s1]) auto
  next
    case going
    from Suc.IH [OF inv1 going] free obtain k s' where
      "k \<le> n" "run_schedule (replicate k (t, env)) s1 = Some s'" "single_row target bound s'"
      "\<not> is_running s' t" "sys_locks s' (target t) = None" "\<forall>u. u \<noteq> t \<longrightarrow> sys_status s' u = sys_status s1 u"
      by (auto simp: free_for_def)
    with step frame show ?thesis by (intro exI [of _ "Suc k"] exI [of _ s']) auto
  qed
qed

lemma run_schedule_append:
  "run_schedule (xs @ ys) s = (case run_schedule xs s of None \<Rightarrow> None | Some s' \<Rightarrow> run_schedule ys s')"
  by (induction xs arbitrary: s) (auto split: option.splits)

theorem single_row_completes:
  assumes inv: "single_row target bound s" and t: "is_running s t" and b: "\<And>u. bound u \<le> B"
  shows "\<exists>sch s'. length sch \<le> 2 * B \<and> run_schedule sch s = Some s' \<and> \<not> is_running s' t"
proof (cases "free_for s t (target t)")
  case True
  from t obtain p where p: "sys_status s t = Running p" by (auto simp: is_running_iff)
  from run_alone_ends [OF inv p single_rowD(2) [OF inv p] True] obtain k s' where
    "k \<le> bound t" "run_schedule (replicate k (t, undefined)) s = Some s'" "\<not> is_running s' t" by blast
  with b [of t] show ?thesis by (intro exI [of _ "replicate k (t, undefined)"] exI [of _ s']) auto
next
  case False
  then obtain u where u: "sys_locks s (target t) = Some u" "u \<noteq> t" by (auto simp: free_for_def)
  then have tgt: "target u = target t" and "is_running s u" using single_rowD(3,4) [OF inv] by metis+
  then obtain q where q: "sys_status s u = Running q" by (auto simp: is_running_iff)
  have "free_for s u (target u)" using u tgt by (simp add: free_for_def)
  from run_alone_ends [OF inv q single_rowD(2) [OF inv q] this] obtain k s1 where s1:
    "k \<le> bound u" "run_schedule (replicate k (u, undefined)) s = Some s1" "single_row target bound s1"
    "sys_locks s1 (target t) = None" "sys_status s1 t = sys_status s t"
    using u(2) tgt by (metis (no_types, lifting))
  from t s1(5) obtain p where p: "sys_status s1 t = Running p" by (auto simp: is_running_iff)
  have "free_for s1 t (target t)" using s1(4) by (simp add: free_for_def)
  from run_alone_ends [OF s1(3) p single_rowD(2) [OF s1(3) p] this] obtain j s' where
    "j \<le> bound t" "run_schedule (replicate j (t, undefined)) s1 = Some s'" "\<not> is_running s' t" by blast
  with s1 b [of t] b [of u] show ?thesis
    by (intro exI [of _ "replicate k (u, undefined) @ replicate j (t, undefined)"] exI [of _ s'])
       (auto simp: run_schedule_append)
qed

subsection \<open>The interface\<close>

locale tx_single_row =
  fixes body :: "'req \<Rightarrow> 'a tx"
    and row :: "'req \<Rightarrow> uuid"
    and statements :: "'req \<Rightarrow> nat"
  assumes body_touches: "touches (row q) (body q)"
    and body_ends_in: "ends_in (body q) (statements q)"
begin

lemma reachable_single_row:
  assumes "sys_steps (open_sys (\<lambda>t. body (reqs t)) d) s"
  shows "single_row (\<lambda>t. row (reqs t)) (\<lambda>t. statements (reqs t)) s"
proof (rule single_row_steps [OF assms])
  show "single_row (\<lambda>t. row (reqs t)) (\<lambda>t. statements (reqs t)) (open_sys (\<lambda>t. body (reqs t)) d)"
    using body_touches body_ends_in by (simp add: single_row_def open_sys_def)
qed

lemma completes:
  assumes "sys_steps (open_sys (\<lambda>t. body (reqs t)) d) s" "is_running s t"
    and "\<And>u. statements (reqs u) \<le> B"
  shows "\<exists>sch s'. length sch \<le> 2 * B \<and> run_schedule sch s = Some s' \<and> \<not> is_running s' t"
  by (rule single_row_completes [OF reachable_single_row [OF assms(1)] assms(2,3)])

lemma progress:
  assumes "sys_steps (open_sys (\<lambda>t. body (reqs t)) d) s" "is_running s t" "tx_exec env t s = None"
  shows "\<exists>u. u \<noteq> t \<and> sys_locks s (row (reqs t)) = Some u \<and> (\<forall>env'. tx_exec env' u s \<noteq> None)"
proof -
  note inv = reachable_single_row [OF assms(1)]
  from assms(2) obtain p where p: "sys_status s t = Running p" by (auto simp: is_running_iff)
  from exec_blocked [OF p single_rowD(1) [OF inv p] assms(3)] obtain u where
    u: "u \<noteq> t" "sys_locks s (row (reqs t)) = Some u" by blast
  then have tgt: "row (reqs u) = row (reqs t)" and "is_running s u"
    using single_rowD(3,4) [OF inv] by metis+
  then obtain q where q: "sys_status s u = Running q" by (auto simp: is_running_iff)
  have "tx_exec env' u s \<noteq> None" for env'
    by (rule exec_enabled [OF q single_rowD(1) [OF inv q]]) (simp add: u tgt free_for_def)
  with u show ?thesis by blast
qed

end

end
