(* ===== verification/BookingSafety.thy ===== *)
theory BookingSafety
  imports Bookings TxSound TxLive
begin

section \<open>Bookings under concurrency\<close>

text \<open>
  Many bookings at once, on any mixture of replicas (each request carries the configuration of
  the replica that serves it) and of the pessimistic and optimistic strategies: the seat ledger
  holds in every reachable state, rejections are truthful, and every booking has its outbox row.
  The unprotected strategy is shown to oversell. Nobody waits forever: whoever holds a row lock
  can always take its next step.
\<close>

type_synonym served = "config \<times> book_req"

definition book_body :: "served \<Rightarrow> booked tx" where
  "book_body q = book_tx (fst q) (snd q)"

definition locked_strategy :: "served \<Rightarrow> bool" where
  "locked_strategy q \<longleftrightarrow> booking_lockStrategy (fst q) \<noteq> NoLock"

text \<open>What a rejected request may conclude, from the counter values it has seen.\<close>

definition book_rejects :: "served \<Rightarrow> err \<Rightarrow> knowledge \<Rightarrow> bool" where
  "book_rejects q x S \<longleftrightarrow>
     x = event_not_found (bq_eventId (snd q)) \<or> x = contention
     \<or> (x = sold_out \<and> (\<exists>a. S (bq_eventId (snd q)) = Some a \<and> a < cb_quantity (bq_dto (snd q))))"

text \<open>What a confirmed request has written.\<close>

definition is_booking_of :: "book_req \<Rightarrow> booking_row \<Rightarrow> bool" where
  "is_booking_of q b \<longleftrightarrow> bk_eventId b = bq_eventId q \<and> bk_userId b = cb_userId (bq_dto q)
     \<and> bk_quantity b = cb_quantity (bq_dto q) \<and> bk_status b = Confirmed
     \<and> bk_idempotencyKey b = bq_idempotencyKey q"

definition announces :: "config \<Rightarrow> book_req \<Rightarrow> booked \<Rightarrow> outbox_row \<Rightarrow> bool" where
  "announces cfg q x r \<longleftrightarrow> ob_aggregateId r = bk_id (bd_booking x) \<and> ob_status r = Pending
     \<and> ob_topic r = topics_booking cfg \<and> ob_messageKey r = bq_eventId q
     \<and> ob_eventType r = BOOKING_CONFIRMED \<and> ob_attempts r = 0
     \<and> ob_payload r = booking_payload (bd_booking x) (bd_eventName x) (bq_traceId q)"

definition book_answers :: "served \<Rightarrow> booked \<Rightarrow> writes \<Rightarrow> bool" where
  "book_answers q x w \<longleftrightarrow> w_bookings w = [bd_booking x] \<and> is_booking_of (snd q) (bd_booking x)
     \<and> (if uses_outbox (fst q) then \<exists>r. w_outbox w = [r] \<and> announces (fst q) (snd q) x r
        else w_outbox w = [])"

subsection \<open>The bodies are safe\<close>

lemma saved_simps:
  "bk_eventId (saved_booking env n) = bn_eventId n" "bk_quantity (saved_booking env n) = bn_quantity n"
  "bk_status (saved_booking env n) = bn_status n" "bk_userId (saved_booking env n) = bn_userId n"
  "bk_idempotencyKey (saved_booking env n) = bn_idempotencyKey n"
  "ob_aggregateId (saved_outbox env m) = on_aggregateId m" "ob_status (saved_outbox env m) = on_status m"
  "ob_topic (saved_outbox env m) = on_topic m" "ob_messageKey (saved_outbox env m) = on_messageKey m"
  "ob_eventType (saved_outbox env m) = on_eventType m" "ob_attempts (saved_outbox env m) = on_attempts m"
  "ob_payload (saved_outbox env m) = on_payload m"
  by (simp_all add: saved_booking_def saved_outbox_def)

lemma balanced_one:
  assumes "w_events w = [e \<mapsto> r']" "w_bookings w = [b]" "bk_eventId b = e" "bk_status b = Confirmed"
    and "L e = Some r" "ev_totalSeats r' = ev_totalSeats r"
    and "ev_availableSeats r' = ev_availableSeats r - bk_quantity b" "0 \<le> ev_availableSeats r'"
    and "m \<longrightarrow> map ob_aggregateId (w_outbox w) = [bk_id b]"
  shows "balanced m L w"
  using assms by (simp add: balanced_def sold_Cons)

text \<open>The rest of the transaction, once the seats are taken from a row it holds.\<close>

lemma record_booking_safe:
  assumes L: "L (bq_eventId q) = Some r" and tot: "ev_totalSeats r' = ev_totalSeats r"
    and avail: "ev_availableSeats r' = ev_availableSeats r - cb_quantity (bq_dto q)" "0 \<le> ev_availableSeats r'"
    and m: "m \<longrightarrow> uses_outbox cfg"
  shows "safe (record_booking cfg q res) X (book_answers (cfg, q)) m S L (set_row (bq_eventId q) r' no_writes)"
proof -
  let ?w = "set_row (bq_eventId q) r' no_writes"
  have "balanced m L w" if "w_events w = [bq_eventId q \<mapsto> r']"
      "w_bookings w = [saved_booking env (new_booking q)]"
      "m \<longrightarrow> map ob_aggregateId (w_outbox w) = [bk_id (saved_booking env (new_booking q))]" for env w
    using that L tot avail
    by (intro balanced_one [of w "bq_eventId q" r' "saved_booking env (new_booking q)" L r])
       (simp_all add: saved_simps new_booking_def)
  with m show ?thesis
    by (auto simp: record_booking_def enqueue_def Let_def book_answers_def is_booking_of_def
        announces_def saved_simps) (simp_all add: new_booking_def)
qed

lemma pessimistic_safe:
  assumes "m \<longrightarrow> uses_outbox cfg"
  shows "safe (tx_bind (decrementPessimistic (bq_eventId q) (cb_quantity (bq_dto q))) (record_booking cfg q))
    (book_rejects (cfg, q)) (book_answers (cfg, q)) m Map.empty Map.empty no_writes"
  using assms
  by (auto simp: decrementPessimistic_def known_def row_ok_def book_rejects_def Let_def
      intro!: record_booking_safe)

lemma optimistic_safe:
  assumes "m \<longrightarrow> uses_outbox cfg"
  shows "safe (tx_bind (optimistic_attempts n (bq_eventId q) (cb_quantity (bq_dto q))) (record_booking cfg q))
    (book_rejects (cfg, q)) (book_answers (cfg, q)) m S Map.empty no_writes"
proof (induction n arbitrary: S)
  case 0
  then show ?case by (simp add: book_rejects_def)
next
  case (Suc n)
  with assms show ?case
    by (auto simp: known_def row_ok_def book_rejects_def intro!: record_booking_safe)
qed

lemma book_body_safe:
  assumes "locked_strategy q \<and> (m \<longrightarrow> uses_outbox (fst q))"
  shows "safe (book_body q) (book_rejects q) (book_answers q) m Map.empty Map.empty no_writes"
  using assms pessimistic_safe [of m "fst q" "snd q"] optimistic_safe [of m "fst q" _ "snd q"]
  by (cases "booking_lockStrategy (fst q)")
     (auto simp: book_body_def book_tx_def take_seats_def decrementOptimistic_def locked_strategy_def)

interpretation bookings: tx_client book_body "\<lambda>q. locked_strategy q \<and> (m \<longrightarrow> uses_outbox (fst q))"
  book_rejects book_answers m for m
  by unfold_locales (rule book_body_safe)

subsection \<open>One row, boundedly many statements\<close>

lemma take_seats_touches: "touches e (take_seats cfg e k)"
proof -
  have "touches e (optimistic_attempts n e k)" for n
    by (induction n) (auto split: option.splits)
  then show ?thesis
    by (auto simp: take_seats_def decrementNaive_def decrementPessimistic_def decrementOptimistic_def Let_def
        split: strategy.splits option.splits)
qed

lemma optimistic_ends_in: "ends_in (optimistic_attempts n e k) (2 * n + 1)"
proof (induction n)
  case 0
  then show ?case by simp
next
  case (Suc n)
  then show ?case by (auto split: option.splits)
qed

definition most_statements :: "config \<Rightarrow> nat" where
  "most_statements cfg = 2 * nat (booking_optimisticMaxRetries cfg + 1) + 6"

lemma take_seats_ends_in: "ends_in (take_seats cfg e k) (2 * nat (booking_optimisticMaxRetries cfg + 1) + 3)"
proof (cases "booking_lockStrategy cfg")
  case Optimistic
  with optimistic_ends_in [of "nat (booking_optimisticMaxRetries cfg + 1)" e k] show ?thesis
    by (auto simp: take_seats_def decrementOptimistic_def intro: ends_in_mono)
qed (auto simp: take_seats_def decrementNaive_def decrementPessimistic_def Let_def split: option.splits)

lemma record_booking_ends_in: "ends_in (record_booking cfg q res) 3"
  by (simp add: record_booking_def enqueue_def Let_def)

lemma record_booking_touches: "touches e (record_booking cfg q res)"
  by (simp add: record_booking_def enqueue_def Let_def)

interpretation booking_rows: tx_single_row book_body "\<lambda>q. bq_eventId (snd q)" "\<lambda>q. most_statements (fst q)"
proof unfold_locales
  fix q :: served
  show "touches (bq_eventId (snd q)) (book_body q)"
    by (simp add: book_body_def book_tx_def touches_bind take_seats_touches record_booking_touches)
  have "2 * nat (booking_optimisticMaxRetries (fst q) + 1) + 3 + 3 = most_statements (fst q)"
    by (simp add: most_statements_def)
  then show "ends_in (book_body q) (most_statements (fst q))"
    using ends_in_bind [OF take_seats_ends_in [of "fst q" "bq_eventId (snd q)" "cb_quantity (bq_dto (snd q))"]
        record_booking_ends_in [of "fst q" "snd q"]]
    by (simp add: book_body_def book_tx_def)
qed

subsection \<open>What the interleaved system guarantees\<close>

text \<open>Requests \<open>0, 1, 2, ...\<close>, all sent to the same database.\<close>

definition serving :: "(nat \<Rightarrow> served) \<Rightarrow> db \<Rightarrow> booked sys" where
  "serving reqs d = open_sys (\<lambda>t. book_body (reqs t)) d"

lemma ledger_inv: "ledger_ok d \<Longrightarrow> db_inv False d"
  by (simp add: db_inv_def)

lemma integrity_of_ledger:
  assumes "ledger_ok d" "find_event e d = Some r"
  shows "integrity e d = Inr \<lparr>si_eventId = e, si_totalSeats = ev_totalSeats r,
      si_availableSeats = ev_totalSeats r - sold e (t_bookings d), si_confirmedSeats = sold e (t_bookings d),
      si_oversoldBy = 0, si_counterDrift = False\<rparr>"
    and "sold e (t_bookings d) \<le> ev_totalSeats r"
  using ledger_okD [OF assms] assms(2) by (simp_all add: integrity_def Let_def)

text \<open>
  C1. No overselling. However many bookings run at once, on whatever mixture of the pessimistic and
  the optimistic strategy, however their statements interleave, whichever of them crash on the way
  and whichever events are created meanwhile: for every event the integrity endpoint reports
  \<open>oversoldBy\<close> 0 and no counter drift, the confirmed seats never exceed the seats of the event,
  and the counter shows exactly the seats that are left.
\<close>

theorem no_oversell:
  assumes "ledger_ok d" and "\<And>t. booking_lockStrategy (fst (reqs t)) \<noteq> NoLock"
    and "sys_steps (serving reqs d) s" and "find_event e (sys_db s) = Some r"
  shows "integrity e (sys_db s) = Inr \<lparr>si_eventId = e, si_totalSeats = ev_totalSeats r,
      si_availableSeats = ev_totalSeats r - sold e (t_bookings (sys_db s)),
      si_confirmedSeats = sold e (t_bookings (sys_db s)), si_oversoldBy = 0, si_counterDrift = False\<rparr>
    \<and> sold e (t_bookings (sys_db s)) \<le> ev_totalSeats r"
  using bookings.reachable_ledger [of reqs False d s] assms integrity_of_ledger [of "sys_db s" e r]
  by (simp add: ledger_inv serving_def locked_strategy_def)




text \<open>
  C21. No deadlock, under any strategy: a request whose next statement has to wait waits for the
  lock of its own event's row, and the request that holds it can always run its next statement.
\<close>

theorem booking_never_deadlocks:
  assumes "sys_steps (serving reqs d) s" and "is_running s t" and "tx_exec env t s = None"
  shows "\<exists>u. u \<noteq> t \<and> sys_locks s (bq_eventId (snd (reqs t))) = Some u \<and> (\<forall>env'. tx_exec env' u s \<noteq> None)"
  using booking_rows.progress [of reqs d s t env] assms by (simp add: serving_def)

text \<open>
  C22. Every request can be brought to its end from every reachable state, under any strategy, in
  a number of statements bounded by the configured retries: the optimistic loop gives up after
  \<open>optimisticMaxRetries + 1\<close> attempts, and a lock holder is at most one request away from its
  commit.
\<close>

theorem booking_completes:
  assumes "sys_steps (serving reqs d) s" and "is_running s t"
    and "\<And>u. most_statements (fst (reqs u)) \<le> B"
  shows "\<exists>sch s'. length sch \<le> 2 * B \<and> run_schedule sch s = Some s' \<and> \<not> is_running s' t"
  using booking_rows.completes [of reqs d s t B] assms by (simp add: serving_def)

subsection \<open>Concrete runs\<close>

text \<open>One seat, two buyers, served under the default configuration and a given strategy each.\<close>

definition one_seat :: event_row where
  "one_seat = \<lparr>ev_id = ''e1'', ev_name = ''Show'', ev_venue = ''Hall'', ev_totalSeats = 1,
     ev_availableSeats = 1, ev_priceCents = 100, ev_startsAt = 0, ev_version = 0, ev_createdAt = 0,
     ev_updatedAt = 0\<rparr>"

definition one_seat_db :: db where
  "one_seat_db = \<lparr>t_events = [one_seat], t_bookings = [], t_outbox = [], t_idempotency = [], t_processed = []\<rparr>"

definition buyer :: "string \<Rightarrow> book_req" where
  "buyer u = \<lparr>bq_eventId = ''e1'', bq_dto = \<lparr>cb_userId = u, cb_quantity = 1\<rparr>, bq_traceId = None,
     bq_idempotencyKey = None, bq_now = 0\<rparr>"

definition two_buyers :: "strategy \<Rightarrow> strategy \<Rightarrow> nat \<Rightarrow> served" where
  "two_buyers s0 s1 t =
     (if t = 0 then (default_config s0, buyer ''ann'') else (default_config s1, buyer ''bob''))"

definition draws :: "nat \<Rightarrow> txenv" where
  "draws t = \<lparr>te_booking_id = (if t = 0 then ''b0'' else ''b1''), te_outbox_id = (if t = 0 then ''o0'' else ''o1''), te_now = 5\<rparr>"

definition moves :: "nat list \<Rightarrow> (nat \<times> txenv) list" where
  "moves ts = map (\<lambda>t. (t, draws t)) ts"

definition committed_to :: "'a sys \<Rightarrow> nat \<Rightarrow> 'a option" where
  "committed_to s t = (case sys_status s t of Committed x \<Rightarrow> Some x | _ \<Rightarrow> None)"

definition aborted_with :: "'a sys \<Rightarrow> nat \<Rightarrow> err option" where
  "aborted_with s t = (case sys_status s t of Aborted e \<Rightarrow> Some e | _ \<Rightarrow> None)"

lemma ended_as:
  "committed_to s t = Some x \<longleftrightarrow> sys_status s t = Committed x"
  "aborted_with s t = Some e \<longleftrightarrow> sys_status s t = Aborted e"
  by (auto simp: committed_to_def aborted_with_def split: status.splits)

lemmas run_defs = moves_def draws_def serving_def open_sys_def two_buyers_def book_body_def book_tx_def
  take_seats_def record_booking_def new_booking_def buyer_def default_config_def one_seat_db_def one_seat_def
  tx_exec_def seen_event_def find_event_def goto_def lock_def put_def finish_def commit_def publish_writes_def
  free_for_def no_writes_def saved_booking_def saved_outbox_def booking_fits_def outbox_fits_def event_fits_def
  pg_int_def touched_def enqueue_def uses_outbox_def directPublishMode_def BOOKING_CONFIRMED_def
  decrementNaive_def decrementPessimistic_def decrementOptimistic_def Let_def

text \<open>
  The unprotected strategy oversells: two requests that both read the last seat before either
  has written are both confirmed, one seat is sold twice, and the counter drifts away from the
  bookings; the integrity endpoint reports exactly that.
\<close>

theorem naive_oversells:
  "\<exists>s. run_schedule (moves [0, 1, 0, 0, 0, 0, 1, 1, 1, 1]) (serving (two_buyers NoLock NoLock) one_seat_db) = Some s
    \<and> committed_to s 0 \<noteq> None \<and> committed_to s 1 \<noteq> None
    \<and> integrity ''e1'' (sys_db s) = Inr \<lparr>si_eventId = ''e1'', si_totalSeats = 1, si_availableSeats = 0,
        si_confirmedSeats = 2, si_oversoldBy = 1, si_counterDrift = True\<rparr>"
  by (simp add: run_defs committed_to_def integrity_def sold_def)

text \<open>The same two requests where one locks and the other compares: one wins, one is told the truth.\<close>

definition mixed_run :: "booked sys option" where
  "mixed_run = run_schedule (moves [1, 0, 0, 0, 0, 0, 1, 1, 1]) (serving (two_buyers Pessimistic Optimistic) one_seat_db)"

lemmas first_attempts = optimistic_attempts.simps(2) [of 5, unfolded Suc_numeral, unfolded add_num_simps]
  optimistic_attempts.simps(2) [of 4, unfolded Suc_numeral, unfolded add_num_simps]

lemma mixed_run_ends:
  "\<exists>s. mixed_run = Some s \<and> committed_to s 0 \<noteq> None \<and> sys_status s 1 = Aborted sold_out
    \<and> (\<exists>r. find_event ''e1'' (sys_db s) = Some r \<and> ev_totalSeats r = 1) \<and> length (t_bookings (sys_db s)) = 1"
  by (simp add: mixed_run_def run_defs committed_to_def sold_out_def first_attempts)

lemma mixed_reachable: "mixed_run = Some s \<Longrightarrow> sys_steps (serving (two_buyers Pessimistic Optimistic) one_seat_db) s"
  unfolding mixed_run_def by (rule run_schedule_steps)

lemma one_seat_ledger: "ledger_ok one_seat_db"
  by (simp add: ledger_ok_def one_seat_db_def one_seat_def)

lemma two_buyers_locked: "booking_lockStrategy (fst (two_buyers Pessimistic Optimistic t)) \<noteq> NoLock"
  by (simp add: two_buyers_def default_config_def)

lemma no_oversell_witness:
  "\<exists>s rep. mixed_run = Some s \<and> integrity ''e1'' (sys_db s) = Inr rep \<and> si_totalSeats rep = 1
     \<and> si_oversoldBy rep = 0 \<and> sold ''e1'' (t_bookings (sys_db s)) \<le> 1"
proof -
  obtain s r where s: "mixed_run = Some s" "find_event ''e1'' (sys_db s) = Some r" "ev_totalSeats r = 1"
    using mixed_run_ends by blast
  show ?thesis
    using no_oversell [OF one_seat_ledger two_buyers_locked mixed_reachable [OF s(1)] s(2)] s by auto
qed




text \<open>Both lock: the second waits for the first.\<close>

definition waiting_run :: "booked sys option" where
  "waiting_run = run_schedule (moves [0]) (serving (two_buyers Pessimistic Pessimistic) one_seat_db)"

lemma waiting_run_waits:
  "\<exists>s. waiting_run = Some s \<and> is_running s 1 \<and> tx_exec (draws 1) 1 s = None"
  by (simp add: waiting_run_def run_defs is_running_def)

lemma waiting_reachable:
  "waiting_run = Some s \<Longrightarrow> sys_steps (serving (two_buyers Pessimistic Pessimistic) one_seat_db) s"
  unfolding waiting_run_def by (rule run_schedule_steps)

lemma booking_never_deadlocks_witness:
  "\<exists>s u. waiting_run = Some s \<and> u \<noteq> 1 \<and> sys_locks s ''e1'' = Some u \<and> tx_exec (draws u) u s \<noteq> None"
proof -
  obtain s where s: "waiting_run = Some s" "is_running s 1" "tx_exec (draws 1) 1 s = None"
    using waiting_run_waits by blast
  show ?thesis
    using booking_never_deadlocks [OF waiting_reachable [OF s(1)] s(2,3)] s(1)
    by (auto simp: two_buyers_def buyer_def)
qed

lemma booking_completes_witness:
  "\<exists>s sch s'. waiting_run = Some s \<and> length sch \<le> 36 \<and> run_schedule sch s = Some s' \<and> \<not> is_running s' 1"
proof -
  obtain s where s: "waiting_run = Some s" "is_running s 1" using waiting_run_waits by blast
  have "most_statements (fst (two_buyers Pessimistic Pessimistic u)) \<le> 18" for u
    by (simp add: most_statements_def two_buyers_def default_config_def)
  from booking_completes [OF waiting_reachable [OF s(1)] s(2) this] s(1) show ?thesis by auto
qed

end
