(* ===== verification/BookOutcomes.thy ===== *)
theory BookOutcomes
  imports BookService RelayLive BookingSafety
begin

section \<open>What a booking request leaves behind\<close>

text \<open>
  Every outcome of \<open>book\<close> run on its own, in terms of the abstract sale; what survives a crash or a broker
  outage after the commit; and the way of an announcement from the booking to its Kafka topic.
\<close>

lemma invalidateCache_frame [simp]:
  "wd_db (invalidateCache S i w) = wd_db w" "wd_kafka (invalidateCache S i w) = wd_kafka w"
  "wd_now (invalidateCache S i w) = wd_now w" "wd_metrics (invalidateCache S i w) = wd_metrics w"
  by (simp_all add: invalidateCache_def cache_invalidate_def)

lemma count_booking_frame [simp]:
  "wd_db (count_booking r cfg w) = wd_db w" "wd_kafka (count_booking r cfg w) = wd_kafka w"
  "wd_redis (count_booking r cfg w) = wd_redis w" "wd_now (count_booking r cfg w) = wd_now w"
  by (simp_all add: count_booking_def)

lemma recordOversoldIfAny_frame:
  "recordOversoldIfAny e w = (r, w') \<Longrightarrow> wd_db w' = wd_db w \<and> wd_kafka w' = wd_kafka w \<and> wd_redis w' = wd_redis w
    \<and> wd_now w' = wd_now w \<and> bookingsTotal (wd_metrics w') = bookingsTotal (wd_metrics w)"
  by (auto simp: recordOversoldIfAny_def split: sum.splits if_splits)

lemma publishDirectly_frame [simp]:
  "wd_db (publishDirectly cfg S b n t w) = wd_db w" "wd_redis (publishDirectly cfg S b n t w) = wd_redis w"
  "wd_metrics (publishDirectly cfg S b n t w) = wd_metrics w" "wd_now (publishDirectly cfg S b n t w) = wd_now w"
  by (simp_all add: publishDirectly_def)

lemma sell_confirmed:
  assumes "sell cfg q env d = (Inr x, d')"
  shows "bd_booking x = saved_booking env (new_booking q)" "find_event (bq_eventId q) d' \<noteq> None"
    "t_bookings d' = t_bookings d @ [bd_booking x]" "records_fit cfg q env (bd_eventName x) d"
    "t_outbox d' = t_outbox d @ (if uses_outbox cfg then [announcement cfg q env (bd_eventName x)] else [])"
proof -
  obtain r where r: "find_event (bq_eventId q) d = Some r"
    "x = \<lparr>bd_booking = saved_booking env (new_booking q), bd_seatsRemaining = ev_availableSeats r - cb_quantity (bq_dto q), bd_eventName = ev_name r\<rparr>"
    "d' = (set_event (bq_eventId q) (touched env (sold_row cfg q r)) d)\<lparr>t_bookings := t_bookings d @ [saved_booking env (new_booking q)],
       t_outbox := t_outbox d @ (if uses_outbox cfg then [announcement cfg q env (ev_name r)] else [])\<rparr>"
    "records_fit cfg q env (ev_name r) d"
    using assms by (auto simp: sell_def Let_def split: option.splits if_splits)
  have "ev_id (touched env (sold_row cfg q r)) = bq_eventId q" using find_event_id [OF r(1)] by (simp add: sold_row_def)
  then have "find_event (bq_eventId q) (set_event (bq_eventId q) (touched env (sold_row cfg q r)) d) \<noteq> None"
    by (simp add: find_set_event r(1))
  then show "find_event (bq_eventId q) d' \<noteq> None" by (simp add: r(3) find_event_def)
qed (use assms in \<open>auto simp: sell_def Let_def split: option.splits if_splits\<close>)

lemma sell_refused: "sell cfg q env d = (Inl e, d') \<Longrightarrow> d' = d"
  by (auto simp: sell_def Let_def split: option.splits if_splits)

definition retries_ok :: "config \<Rightarrow> bool" where
  "retries_ok cfg \<longleftrightarrow> (booking_lockStrategy cfg = Optimistic \<longrightarrow> 0 \<le> booking_optimisticMaxRetries cfg)"

definition response_of :: "config \<Rightarrow> booked \<Rightarrow> booking_response" where
  "response_of cfg x = booking_response_from (bd_booking x) (bd_seatsRemaining x) (strategy_name (booking_lockStrategy cfg))"

text \<open>The call in terms of the sale: after a sale the overselling check finds the event, so it never throws.\<close>

lemma book_sale:
  assumes "retries_ok cfg" "sell cfg q env (wd_db w) = (Inr x, d')"
  shows "\<exists>w3. wd_db w3 = d' \<and> wd_kafka w3 = wd_kafka w \<and> wd_now w3 = wd_now w
    \<and> wd_redis w3 = wd_redis (invalidateCache S (bq_eventId q) w)
    \<and> bookingsTotal (wd_metrics w3) = inc2 ''confirmed'' (strategy_name (booking_lockStrategy cfg)) (bookingsTotal (wd_metrics w))
    \<and> book cfg S env dies q w =
        (if outbox_crashAfterCommit cfg \<and> dies then (None, w3)
         else (Some (Inr (response_of cfg x)),
               if directPublishMode cfg
               then publishDirectly cfg S (bd_booking x) (bd_eventName x) (bq_traceId q) w3 else w3))"
proof -
  let ?w2 = "invalidateCache S (bq_eventId q) (count_booking ''confirmed'' cfg (w\<lparr>wd_db := d'\<rparr>))"
  have tx: "transaction (book_tx cfg q) env (wd_db w) = (Inr x, d')"
    using assms by (simp add: book_tx_alone retries_ok_def)
  obtain c w3 where check: "(if booking_lockStrategy cfg = NoLock then recordOversoldIfAny (bq_eventId q) ?w2
      else (Inr (), ?w2)) = (c, w3)" by fastforce
  have "c = Inr ()"
    using check sell_confirmed(2) [OF assms(2)] by (auto simp: recordOversoldIfAny_def integrity_def Let_def split: if_splits)
  moreover have "wd_db w3 = d' \<and> wd_kafka w3 = wd_kafka w \<and> wd_now w3 = wd_now w \<and> wd_redis w3 = wd_redis ?w2
      \<and> bookingsTotal (wd_metrics w3) = bookingsTotal (wd_metrics ?w2)"
    using check recordOversoldIfAny_frame [of "bq_eventId q" ?w2 c w3] by (auto split: if_splits)
  moreover have "wd_redis ?w2 = wd_redis (invalidateCache S (bq_eventId q) w)"
    by (simp add: invalidateCache_def cache_invalidate_def)
  moreover have "bookingsTotal (wd_metrics ?w2) =
      inc2 ''confirmed'' (strategy_name (booking_lockStrategy cfg)) (bookingsTotal (wd_metrics w))"
    by (simp add: count_booking_def)
  ultimately show ?thesis
    using tx check by (intro exI [of _ w3]) (simp add: book_def response_of_def)
qed

lemma book_refusal:
  assumes "retries_ok cfg" "sell cfg q env (wd_db w) = (Inl e, d')"
  shows "book cfg S env dies q w = (Some (Inl e), count_booking (error_result e) cfg w)"
proof -
  have "transaction (book_tx cfg q) env (wd_db w) = (Inl e, wd_db w)"
    using assms sell_refused [OF assms(2)] by (simp add: book_tx_alone retries_ok_def)
  then show ?thesis by (simp add: book_def)
qed


text \<open>
  C12. What the gap between COMMIT and PUBLISH costs: when the process is killed right after the commit, or
  the broker refuses, the booking stands either way and Kafka has seen nothing; with the outbox the
  announcement is in the database, waiting for the relay; with direct publishing (or without the outbox) no
  trace of it is left anywhere, although a caller that gets an answer is told the booking is confirmed.
\<close>

theorem crash_after_commit:
  assumes "retries_ok cfg" and "sell cfg q env (wd_db w) = (Inr x, d')" and "book cfg S env dies q w = (answer, w')"
    and "outbox_crashAfterCommit cfg \<and> dies \<or> (\<forall>batch. \<exists>e. kf_send S batch (wd_kafka w) = (Inl e, wd_kafka w))"
  shows "bd_booking x \<in> set (t_bookings (wd_db w')) \<and> wd_kafka w' = wd_kafka w
    \<and> (if uses_outbox cfg
       then \<exists>r \<in> set (t_outbox (wd_db w')). announces cfg q x r
       else t_outbox (wd_db w') = t_outbox (wd_db w))
    \<and> (answer = Some (Inr (response_of cfg x)) \<or> answer = None \<and> dies)"
proof -
  obtain w3 where w3: "wd_db w3 = d'" "wd_kafka w3 = wd_kafka w"
    "book cfg S env dies q w = (if outbox_crashAfterCommit cfg \<and> dies then (None, w3)
         else (Some (Inr (response_of cfg x)), if directPublishMode cfg
               then publishDirectly cfg S (bd_booking x) (bd_eventName x) (bq_traceId q) w3 else w3))"
    using book_sale [OF assms(1,2), of S dies] by blast
  note sale = sell_confirmed [OF assms(2)]
  have "wd_db w' = d'" using assms(3) w3 by (auto split: if_splits)
  moreover have "wd_kafka w' = wd_kafka w"
  proof (cases "outbox_crashAfterCommit cfg \<and> dies")
    case False
    then obtain e where e: "kf_send S b (wd_kafka w) = (Inl (e b), wd_kafka w)" for b using assms(4) by metis
    have "wd_kafka (publishDirectly cfg S b n t w3) = wd_kafka w" for b n t
      by (simp add: publishDirectly_def publish_def publishBatch_def w3(2) e)
    with False assms(3) w3 show ?thesis by (auto split: if_splits)
  qed (use assms(3) w3 in auto)
  moreover have "announces cfg q x (announcement cfg q env (bd_eventName x))"
    by (simp add: announces_def announcement_def sale(1) Let_def saved_simps)
  ultimately show ?thesis using sale(3,5) assms(3) w3(3) by (auto split: if_splits)
qed

text \<open>
  C6. No event is lost between the booking and its topic: when a booking is confirmed with the outbox in use,
  even if the process is killed at once, then from any later moment at which the relay is left alone with an
  acknowledging broker, enough polls put the announcement of that booking on the booking topic, keyed by the
  event and carrying the id of its outbox row and the booking as its payload.
\<close>

theorem booking_event_reaches_topic:
  assumes "retries_ok cfg" and "uses_outbox cfg" and "sell cfg q env (wd_db w) = (Inr x, d')"
    and "book cfg S env dies q w = (answer, w')" and "bq_now q \<le> later"
    and "distinct (map ob_id (t_outbox (wd_db w)))" and "broker_ok S logs"
    and "\<And>b k. fst (kf_send S b k) = Inr ()" and "0 < outbox_batchSize cfg"
    and "length (backlog (w'\<lparr>wd_now := later\<rparr>)) \<le> n * nat (outbox_batchSize cfg)"
  shows "\<exists>m. m \<in> logs (wd_kafka (drain_times cfg S n (w'\<lparr>wd_now := later\<rparr>))) (topics_booking cfg)
    \<and> km_key m = bq_eventId q \<and> km_value m = JSON_stringify (booking_payload (bd_booking x) (bd_eventName x) (bq_traceId q))
    \<and> map_of (km_headers m) HEADER_MESSAGE_ID = Some (te_outbox_id env)"
proof -
  let ?r = "announcement cfg q env (bd_eventName x)" and ?w = "w'\<lparr>wd_now := later\<rparr>"
  note sale = sell_confirmed [OF assms(3)]
  have db: "wd_db w' = d'"
    using book_sale [OF assms(1,3), of S dies] assms(4) by (auto split: if_splits)
  have out: "t_outbox (wd_db w') = t_outbox (wd_db w) @ [?r]" using sale(5) assms(2) by (simp add: db)
  have "outbox_fits (wd_db w) ?r" using sale(4) assms(2) by (simp add: records_fit_def)
  then have "distinct (map ob_id (t_outbox (wd_db ?w)))" using assms(6) by (simp add: out outbox_fits_def)
  moreover have "is_due {} later ?r"
    using assms(5) by (simp add: is_due_def announcement_def saved_outbox_def Let_def)
  then have "?r \<in> set (backlog ?w)" by (simp add: due_rows_def out)
  ultimately have "delivered S logs (drain_times cfg S n ?w) ?r"
    using drain_times_delivers [OF assms(8,9,7), of ?w ?r n] assms(10) by simp
  then show ?thesis
    by (intro exI [of _ "to_kmsg (relay_message ?r)"])
       (simp add: delivered_def to_kmsg_def relay_message_def announcement_def saved_outbox_def Let_def sale(1))
qed

subsection \<open>Concrete runs\<close>

text \<open>Ann buys the last seat.\<close>

abbreviation ann_config :: config where
  "ann_config \<equiv> default_config Optimistic"

lemma ann_retries: "retries_ok ann_config"
  by (simp add: retries_ok_def default_config_def)

lemma ann_facts:
  "booking_lockStrategy ann_config = Optimistic" "\<not> outbox_crashAfterCommit ann_config"
  "topics_booking ann_config = ''booking.events''" "bq_eventId (buyer u) = ''e1''" "0 < outbox_batchSize ann_config"
  "bq_now (buyer u) = 0" "bookingsTotal (wd_metrics (mini_world d)) a b = 0"
  by (simp_all add: default_config_def buyer_def mini_world_def zero_metrics_def)

lemma ann_sale: "\<exists>x d'. sell ann_config (buyer ''ann'') (draws 0) one_seat_db = (Inr x, d')"
  by (simp add: sell_def run_defs records_fit_def sold_row_def announcement_def)

lemma strategies_agree_alone_witness:
  "\<exists>x d'. transaction (book_tx ann_config (buyer ''ann'')) (draws 0) one_seat_db = (Inr x, d')"
  using ann_sale strategies_agree_alone [of ann_config "buyer ''ann''" "draws 0" one_seat_db]
  by (simp add: default_config_def)


lemma crash_after_commit_witness:
  "\<exists>x :: booked. bd_booking x \<in> set (t_bookings (wd_db (snd (book (ann_config\<lparr>outbox_directPublishMode := True\<rparr>) mini (draws 0) False
        (buyer ''ann'') (mini_down (mini_world one_seat_db))))))
     \<and> t_outbox (wd_db (snd (book (ann_config\<lparr>outbox_directPublishMode := True\<rparr>) mini (draws 0) False
        (buyer ''ann'') (mini_down (mini_world one_seat_db))))) = []"
proof -
  let ?cfg = "ann_config\<lparr>outbox_directPublishMode := True\<rparr>" and ?w = "mini_down (mini_world one_seat_db)"
  have "\<exists>x d'. sell ?cfg (buyer ''ann'') (draws 0) one_seat_db = (Inr x, d')"
    by (simp add: sell_def run_defs records_fit_def sold_row_def announcement_def)
  then obtain x d' where s: "sell ?cfg (buyer ''ann'') (draws 0) (wd_db ?w) = (Inr x, d')"
    by (auto simp: mini_world_def mini_down_def)
  obtain answer w' where b: "book ?cfg mini (draws 0) False (buyer ''ann'') ?w = (answer, w')" by fastforce
  have r: "retries_ok ?cfg" by (simp add: retries_ok_def default_config_def)
  have down: "\<forall>batch. \<exists>e. kf_send mini batch (wd_kafka ?w) = (Inl e, wd_kafka ?w)"
    by (simp add: mini_def mini_send_def mini_down_def)
  have no: "\<not> uses_outbox ?cfg" "t_outbox (wd_db ?w) = []"
    by (simp_all add: uses_outbox_def directPublishMode_def mini_world_def mini_down_def one_seat_db_def)
  have "bd_booking x \<in> set (t_bookings (wd_db w')) \<and> t_outbox (wd_db w') = []"
    using crash_after_commit [OF r s b disjI2 [OF down]] no by simp
  then show ?thesis unfolding b snd_conv by blast
qed

lemma booking_event_reaches_topic_witness:
  "\<exists>m. m \<in> mini_held (wd_kafka (drain_times ann_config always_up 1 ((snd (book ann_config always_up (draws 0) False
        (buyer ''ann'') (mini_world one_seat_db)))\<lparr>wd_now := 9\<rparr>))) ''booking.events'' \<and> km_key m = ''e1''"
proof -
  obtain x d' where s: "sell ann_config (buyer ''ann'') (draws 0) (wd_db (mini_world one_seat_db)) = (Inr x, d')"
    using ann_sale by (auto simp: mini_world_def)
  obtain answer w' where b: "book ann_config always_up (draws 0) False (buyer ''ann'') (mini_world one_seat_db) = (answer, w')"
    by fastforce
  have uses: "uses_outbox ann_config" by (simp add: uses_outbox_def directPublishMode_def default_config_def)
  have "wd_db w' = d'" using book_sale [OF ann_retries s, of always_up False] b by (auto split: if_splits)
  then have "length (t_outbox (wd_db w')) = 1"
    using sell_confirmed(5) [OF s] uses by (simp add: mini_world_def one_seat_db_def)
  then have "length (backlog (w'\<lparr>wd_now := 9\<rparr>)) \<le> 1 * nat (outbox_batchSize ann_config)"
    using length_filter_le [of "is_due {} 9" "t_outbox (wd_db w')"] by (simp add: due_rows_def default_config_def)
  moreover have "broker_ok always_up mini_held"
    by (fastforce simp: broker_ok_def always_up_def mini_send_def mini_held_def)
  moreover have "fst (kf_send always_up batch k) = Inr ()" for batch k by (simp add: always_up_def)
  moreover have "distinct (map ob_id (t_outbox (wd_db (mini_world one_seat_db))))"
    by (simp add: mini_world_def one_seat_db_def)
  ultimately obtain m where "m \<in> mini_held (wd_kafka (drain_times ann_config always_up 1 (w'\<lparr>wd_now := 9\<rparr>)))
      (topics_booking ann_config)" "km_key m = bq_eventId (buyer ''ann'')"
    using booking_event_reaches_topic [OF ann_retries uses s b, of 9 mini_held 1] ann_facts(5,6) by auto
  then show ?thesis unfolding b ann_facts by - (rule exI [of _ m], simp)
qed

end
