(* ===== verification/TokenBucket.thy ===== *)
theory TokenBucket
  imports Redis
begin

section \<open>The token bucket\<close>

text \<open>
  \<open>TOKEN_BUCKET_LUA\<close> and \<open>consumeToken\<close> of \<open>redis/redis.service.ts\<close>. \<open>token_bucket\<close> is the
  arithmetic of the script on what \<open>HMGET\<close> found. A missing field makes the bucket full. A refill of
  zero makes \<open>capacity / refill\<close> infinite, which \<open>PEXPIRE\<close> rejects after \<open>HSET\<close> has run.
\<close>

record bucket_out =
  bo_allowed :: bool
  bo_tokens :: rat
  bo_retry :: int

definition token_bucket :: "rat \<Rightarrow> rat \<Rightarrow> rat \<Rightarrow> rat \<Rightarrow> rat option \<times> rat option \<Rightarrow> bucket_out" where
  "token_bucket capacity refill now cost found =
     (let (tokens, ts) = (case found of (Some a, Some b) \<Rightarrow> (a, b) | _ \<Rightarrow> (capacity, now));
          elapsed = max 0 (now - ts) / 1000;
          tokens = min capacity (tokens + elapsed * refill);
          allowed = (cost \<le> tokens);
          tokens = (if allowed then tokens - cost else tokens)
      in \<lparr>bo_allowed = allowed, bo_tokens = tokens,
          bo_retry = (if allowed then 0 else \<lceil>(cost - tokens) / refill * 1000\<rceil>)\<rparr>)"

definition bucket_expiry :: "rat \<Rightarrow> rat \<Rightarrow> int" where
  "bucket_expiry capacity refill = \<lceil>capacity / refill * 1000\<rceil> + 1000"

record token_result =
  tr_allowed :: bool
  tr_remaining :: int
  tr_retryAfterMs :: int

definition consumeToken :: "('s, 'k) services \<Rightarrow> string \<Rightarrow> int \<Rightarrow> rat \<Rightarrow> int \<Rightarrow> ('s, 'k, token_result) call" where
  "consumeToken S key capacity refillPerSecond cost w =
     (if \<not> rd_up S (wd_redis w) then (Inl RedisDown, w)
      else let out = token_bucket (of_int capacity) refillPerSecond (of_int (wd_now w)) (of_int cost)
                       (rd_hmget S key (wd_redis w));
               s = rd_hset S key (bo_tokens out) (of_int (wd_now w)) (wd_redis w) in
           if refillPerSecond = 0
           then (Inl (JsError ''ERR value is not an integer or out of range''), w\<lparr>wd_redis := s\<rparr>)
           else (Inr \<lparr>tr_allowed = bo_allowed out, tr_remaining = \<lfloor>bo_tokens out\<rfloor>,
                      tr_retryAfterMs = bo_retry out\<rparr>,
                 w\<lparr>wd_redis := rd_pexpire S key (bucket_expiry (of_int capacity) refillPerSecond) s\<rparr>))"

subsection \<open>One bucket over time\<close>

text \<open>Requests of one token at the given instants, and how many of them pass.\<close>

fun bucket_run :: "rat \<Rightarrow> rat \<Rightarrow> rat list \<Rightarrow> rat \<times> rat \<Rightarrow> nat" where
  "bucket_run capacity refill [] b = 0"
| "bucket_run capacity refill (t # ts) (tokens, ts0) =
     (let out = token_bucket capacity refill t 1 (Some tokens, Some ts0) in
      (if bo_allowed out then 1 else 0) + bucket_run capacity refill ts (bo_tokens out, t))"

lemma bucket_step:
  assumes "0 \<le> refill" "ts0 \<le> t"
  shows "(if bo_allowed (token_bucket c refill t 1 (Some tokens, Some ts0)) then 1 else 0)
      + bo_tokens (token_bucket c refill t 1 (Some tokens, Some ts0)) = min c (tokens + (t - ts0) / 1000 * refill)"
  using assms by (simp add: token_bucket_def Let_def)

lemma bucket_tokens_nonneg:
  assumes "0 \<le> refill" "0 \<le> tokens" "0 \<le> c"
  shows "0 \<le> bo_tokens (token_bucket c refill t 1 (Some tokens, Some ts0))"
proof -
  have "0 \<le> max 0 (t - ts0) / 1000 * refill" using assms by simp
  then show ?thesis using assms by (auto simp: token_bucket_def Let_def)
qed

lemma bucket_run_le:
  assumes "0 \<le> refill" "0 \<le> c" "0 \<le> tokens" "sorted (ts0 # ts)"
  shows "of_nat (bucket_run c refill ts (tokens, ts0)) \<le> tokens + (last (ts0 # ts) - ts0) / 1000 * refill"
  using assms(3,4)
proof (induction ts arbitrary: tokens ts0)
  case Nil
  then show ?case by simp
next
  case (Cons t ts)
  let ?out = "token_bucket c refill t 1 (Some tokens, Some ts0)"
  have lt: "ts0 \<le> t" and srt: "sorted (t # ts)" using Cons.prems by auto
  have "of_nat (bucket_run c refill ts (bo_tokens ?out, t)) \<le>
      bo_tokens ?out + (last (t # ts) - t) / 1000 * refill"
    by (rule Cons.IH [OF bucket_tokens_nonneg [OF assms(1) Cons.prems(1) assms(2)] srt])
  moreover have "(if bo_allowed ?out then 1 else 0) + bo_tokens ?out \<le> tokens + (t - ts0) / 1000 * refill"
    unfolding bucket_step [OF assms(1) lt] by simp
  moreover have "tokens + (t - ts0) / 1000 * refill + (last (t # ts) - t) / 1000 * refill =
      tokens + (last (t # ts) - ts0) / 1000 * refill"
    by (simp add: field_simps)
  moreover have "last (ts0 # t # ts) = last (t # ts)" by simp
  ultimately show ?case by (auto simp: Let_def split: if_splits)
qed





text \<open>
  Expiry is invisible: once the key's \<open>PEXPIRE\<close> has run out since the last request, a bucket that
  was kept would have refilled completely, so losing it changes no decision.
\<close>

theorem bucket_expiry_invisible:
  assumes "0 < refill" and "0 \<le> tokens" and "0 \<le> capacity"
    and "of_int (bucket_expiry capacity refill) \<le> now - ts0"
  shows "token_bucket capacity refill now cost (Some tokens, Some ts0) =
    token_bucket capacity refill now cost (None, None)"
proof -
  have "capacity / refill * 1000 \<le> now - ts0"
    using assms(4) le_of_int_ceiling [of "capacity / refill * 1000"]
    unfolding bucket_expiry_def of_int_add of_int_numeral by linarith
  then have "capacity \<le> (now - ts0) / 1000 * refill" using assms(1) by (simp add: field_simps)
  also have "\<dots> \<le> max 0 (now - ts0) / 1000 * refill" using assms(1) by (intro mult_right_mono divide_right_mono max.cobounded2) simp_all
  finally have "min capacity (tokens + max 0 (now - ts0) / 1000 * refill) = capacity" using assms(2) by simp
  moreover have "min capacity (capacity + max 0 (now - now) / 1000 * refill) = capacity" by simp
  ultimately show ?thesis by (simp only: token_bucket_def Let_def prod.case option.case)
qed

lemma bucket_expiry_invisible_witness:
  "token_bucket 20 10 (3000 :: rat) 1 (Some 0, Some 0) = token_bucket 20 10 3000 1 (None, None)"
  using bucket_expiry_invisible [of 10 0 20 3000 0 1] by (simp add: bucket_expiry_def)

text \<open>
  Clocks that disagree break the budget: two replicas whose clocks are one second apart and that
  take turns are admitted once per round, however many rounds they fit into one second, because
  each step back of the clock lets the same second be refilled again.
\<close>

theorem skewed_clocks_inflate_budget:
  "bucket_run 1 1 (concat (replicate n [1000, 0])) (0, 0) = n"
proof -
  have "bucket_run 1 1 (concat (replicate n [1000, 0])) (0, 0) = n" for n
    by (induction n) (simp_all add: token_bucket_def Let_def)
  then show ?thesis .
qed

end
