(* ===== verification/HttpMetrics.thy ===== *)
theory HttpMetrics
  imports World
begin

section \<open>HTTP request metrics\<close>

text \<open>
  \<open>metrics/http-metrics.interceptor.ts\<close>. A request is what the interceptor reads of it; the
  handler's observable is the list of the signals it emits, and \<open>record\<close> runs on each value and on an
  error, not on completion.
\<close>

record http_request =
  hr_method :: string
  hr_routePath :: "string option"
  hr_originalUrl :: "string option"
  hr_path :: string

datatype 'v signal = Next 'v | Fault err | Complete

text \<open>The empty route path is falsy, so the URL is used.\<close>

definition routeOf :: "http_request \<Rightarrow> string" where
  "routeOf r =
     (case hr_routePath r of
        Some p \<Rightarrow> if p \<noteq> [] then p
                  else (case hr_originalUrl r of None \<Rightarrow> ''unknown'' | Some u \<Rightarrow> hd (split_on (CHR ''?'') u))
      | None \<Rightarrow> (case hr_originalUrl r of None \<Rightarrow> ''unknown'' | Some u \<Rightarrow> hd (split_on (CHR ''?'') u)))"

definition http_begin :: "metrics \<Rightarrow> metrics" where
  "http_begin m = m\<lparr>httpRequestsInFlight := httpRequestsInFlight m + 1\<rparr>"

definition http_record :: "http_request \<Rightarrow> int \<Rightarrow> metrics \<Rightarrow> metrics" where
  "http_record r statusCode m =
     m\<lparr>httpRequestsTotal := (\<lambda>a b c. httpRequestsTotal m a b c
          + (if a = hr_method r \<and> b = routeOf r \<and> c = int_str statusCode then 1 else 0)),
       httpRequestsInFlight := httpRequestsInFlight m - 1\<rparr>"

definition http_signal :: "http_request \<Rightarrow> int \<Rightarrow> 'v signal \<Rightarrow> metrics \<Rightarrow> metrics" where
  "http_signal r statusCode sig m = (case sig of Complete \<Rightarrow> m | _ \<Rightarrow> http_record r statusCode m)"

text \<open>The whole interceptor: non-HTTP contexts pass through.\<close>

definition http_intercept :: "bool \<Rightarrow> http_request \<Rightarrow> int \<Rightarrow> 'v signal list \<Rightarrow> metrics \<Rightarrow> metrics" where
  "http_intercept isHttp r statusCode sigs m =
     (if \<not> isHttp then m else fold (http_signal r statusCode) sigs (http_begin m))"

subsection \<open>Requests in flight\<close>

text \<open>Requests begin and answer in any order; a route handler answers once, with a value or an error.\<close>

datatype http_event = Begins nat http_request | Answers nat int

record http_log =
  hl_open :: "nat \<Rightarrow> http_request option"
  hl_metrics :: metrics

fun http_steps :: "http_event list \<Rightarrow> http_log \<Rightarrow> http_log option" where
  "http_steps [] l = Some l"
| "http_steps (Begins i r # es) l =
     (if hl_open l i = None
      then http_steps es \<lparr>hl_open = (hl_open l)(i \<mapsto> r), hl_metrics = http_begin (hl_metrics l)\<rparr>
      else None)"
| "http_steps (Answers i code # es) l =
     (case hl_open l i of
        None \<Rightarrow> None
      | Some r \<Rightarrow> http_steps es \<lparr>hl_open = (hl_open l)(i := None),
                                   hl_metrics = http_signal r code (Next ()) (hl_metrics l)\<rparr>)"

definition http_ok :: "http_log \<Rightarrow> bool" where
  "http_ok l \<longleftrightarrow> finite (dom (hl_open l)) \<and> httpRequestsInFlight (hl_metrics l) = int (card (dom (hl_open l)))"

lemma http_steps_ok: "http_steps es l = Some l' \<Longrightarrow> http_ok l \<Longrightarrow> http_ok l'"
proof (induction es l rule: http_steps.induct)
  case (2 i r es l)
  then have new: "hl_open l i = None" by (auto split: if_splits)
  then have "i \<notin> dom (hl_open l)" by blast
  with 2(3) have "http_ok \<lparr>hl_open = (hl_open l)(i \<mapsto> r), hl_metrics = http_begin (hl_metrics l)\<rparr>"
    by (simp add: http_ok_def http_begin_def)
  with 2 new show ?case by simp
next
  case (3 i code es l)
  then obtain r where r: "hl_open l i = Some r" by (auto split: option.splits)
  then have "i \<in> dom (hl_open l)" by blast
  with 3(3) have "card (dom ((hl_open l)(i := None))) = card (dom (hl_open l)) - 1"
      "0 < card (dom (hl_open l))"
    by (auto simp: http_ok_def card_gt_0_iff)
  then have "http_ok \<lparr>hl_open = (hl_open l)(i := None), hl_metrics = http_signal r code (Next ()) (hl_metrics l)\<rparr>"
    using 3(3) by (simp add: http_ok_def http_signal_def http_record_def)
  with 3 r show ?case by simp
qed simp

text \<open>
  The in-flight gauge is exact: starting from zero, after any interleaving of requests that begin
  and requests that answer, \<open>http_requests_in_flight\<close> is the number of requests that have begun and
  not answered; in particular it is back at zero when all have.
\<close>

theorem http_in_flight_exact:
  assumes "http_steps es \<lparr>hl_open = (\<lambda>_. None), hl_metrics = zero_metrics\<rparr> = Some l"
  shows "httpRequestsInFlight (hl_metrics l) = int (card (dom (hl_open l)))
    \<and> ((\<forall>i. hl_open l i = None) \<longrightarrow> httpRequestsInFlight (hl_metrics l) = 0)"
proof -
  have "http_ok \<lparr>hl_open = (\<lambda>_. None), hl_metrics = zero_metrics\<rparr>"
    by (simp add: http_ok_def zero_metrics_def)
  from http_steps_ok [OF assms this] show ?thesis by (auto simp: http_ok_def dom_def)
qed

definition get_event_request :: http_request where
  "get_event_request = \<lparr>hr_method = ''GET'', hr_routePath = Some ''/v1/events/:id'',
     hr_originalUrl = Some ''/v1/events/7?x=1'', hr_path = ''/v1/events/7''\<rparr>"

lemma http_in_flight_exact_witness:
  "\<exists>l. http_steps [Begins 0 get_event_request, Begins 1 get_event_request, Answers 0 200]
       \<lparr>hl_open = (\<lambda>_. None), hl_metrics = zero_metrics\<rparr> = Some l
     \<and> httpRequestsInFlight (hl_metrics l) = int (card (dom (hl_open l)))"
proof -
  obtain l where l: "http_steps [Begins 0 get_event_request, Begins 1 get_event_request, Answers 0 200]
       \<lparr>hl_open = (\<lambda>_. None), hl_metrics = zero_metrics\<rparr> = Some l" by simp
  with http_in_flight_exact [OF l] show ?thesis by blast
qed

end
