(* ===== verification/RateLimit.thy ===== *)
theory RateLimit
  imports TokenBucket HttpMetrics
begin

section \<open>The rate limit guard\<close>

text \<open>
  \<open>ratelimit/rate-limit.guard.ts\<close> and the options of \<open>ratelimit/rate-limit.decorator.ts\<close>. The
  answer is the boolean or the exception, the headers set on the response, and the world.
\<close>

record rate_limit_options =
  ro_bucket :: string
  ro_capacity :: "int option"
  ro_refillPerSecond :: "rat option"

record guarded_request =
  gr_http :: http_request
  gr_userId :: "string option"
  gr_forwardedFor :: "string option"
  gr_ip :: "string option"

text \<open>An empty user id is falsy; \<open>??\<close> passes over an absent header only, not over an empty one.\<close>

definition identify :: "guarded_request \<Rightarrow> string" where
  "identify r =
     (case gr_userId r of
        Some (c # cs) \<Rightarrow> ''user:'' @ (c # cs)
      | _ \<Rightarrow> ''ip:'' @ (case gr_forwardedFor r of
                        Some f \<Rightarrow> trim (hd (split_on (CHR '','') f))
                      | None \<Rightarrow> orElse (gr_ip r) ''unknown''))"

definition bucket_key :: "rate_limit_options \<Rightarrow> guarded_request \<Rightarrow> string" where
  "bucket_key options r = ''ratelimit:'' @ ro_bucket options @ '':'' @ identify r"

definition limit_capacity :: "config \<Rightarrow> rate_limit_options \<Rightarrow> int" where
  "limit_capacity cfg options = orElse (ro_capacity options) (rateLimit_capacity cfg)"

definition limit_refill :: "config \<Rightarrow> rate_limit_options \<Rightarrow> rat" where
  "limit_refill cfg options = orElse (ro_refillPerSecond options) (rateLimit_refillPerSecond cfg)"

definition retryAfterSeconds :: "int \<Rightarrow> int" where
  "retryAfterSeconds retryAfterMs = max 1 \<lceil>(of_int retryAfterMs :: rat) / 1000\<rceil>"

definition canActivate :: "config \<Rightarrow> ('s, 'k) services \<Rightarrow> rate_limit_options option \<Rightarrow> guarded_request
    \<Rightarrow> ('s, 'k) world \<Rightarrow> (err + bool) \<times> msg_headers \<times> ('s, 'k) world" where
  "canActivate cfg S options r w =
     (if \<not> rateLimit_enabled cfg then (Inr True, [], w)
      else case options of
        None \<Rightarrow> (Inr True, [], w)
      | Some opts \<Rightarrow>
          let route = routeOf (gr_http r); capacity = limit_capacity cfg opts in
          case consumeToken S (bucket_key opts r) capacity (limit_refill cfg opts) 1 w of
            (Inl _, w') \<Rightarrow> (Inr True, [], w')
          | (Inr decision, w') \<Rightarrow>
              let hs = [(''RateLimit-Limit'', int_str capacity),
                        (''RateLimit-Remaining'', int_str (max 0 (tr_remaining decision)))] in
              if tr_allowed decision
              then (Inr True, hs, upd_metrics (\<lambda>m. m\<lparr>rateLimitDecisionsTotal :=
                       inc2 ''allowed'' route (rateLimitDecisionsTotal m)\<rparr>) w')
              else (Inl (TooManyRequests (tr_retryAfterMs decision)),
                    hs @ [(''Retry-After'', int_str (retryAfterSeconds (tr_retryAfterMs decision)))],
                    upd_metrics (\<lambda>m. m\<lparr>rateLimitDecisionsTotal :=
                       inc2 ''blocked'' route (rateLimitDecisionsTotal m)\<rparr>) w'))"

text \<open>
  The guard refuses only for lack of tokens: it refuses exactly when it is enabled, the route is
  limited, Redis answers and the caller's own bucket holds less than one token. It then throws nothing
  but 429 and sends a \<open>Retry-After\<close> of whole seconds, at least one, that covers \<open>retryAfterMs\<close>.
  In particular it fails open: with Redis unreachable every request passes and nothing is counted.
\<close>

theorem rate_limit_guard:
  assumes "canActivate cfg S options r w = (answer, hs, w')"
  shows "(thrown answer \<longleftrightarrow> rateLimit_enabled cfg \<and> (\<exists>opts. options = Some opts \<and> rd_up S (wd_redis w)
           \<and> limit_refill cfg opts \<noteq> 0
           \<and> \<not> bo_allowed (token_bucket (of_int (limit_capacity cfg opts)) (limit_refill cfg opts)
                 (of_int (wd_now w)) 1 (rd_hmget S (bucket_key opts r) (wd_redis w)))))
    \<and> (\<forall>e. answer = Inl e \<longrightarrow> (\<exists>ms s. e = TooManyRequests ms \<and> (''Retry-After'', int_str s) \<in> set hs
           \<and> 1 \<le> s \<and> ms \<le> s * 1000))
    \<and> (\<not> rd_up S (wd_redis w) \<longrightarrow> answer = Inr True \<and> w' = w)"
proof -
  have cover: "ms \<le> retryAfterSeconds ms * 1000 \<and> 1 \<le> retryAfterSeconds ms" for ms
  proof -
    have "(of_int ms :: rat) / 1000 \<le> of_int \<lceil>(of_int ms :: rat) / 1000\<rceil>" by (rule le_of_int_ceiling)
    then have "(of_int ms :: rat) \<le> of_int (\<lceil>(of_int ms :: rat) / 1000\<rceil> * 1000)"
      unfolding of_int_mult of_int_numeral by linarith
    then have "ms \<le> \<lceil>(of_int ms :: rat) / 1000\<rceil> * 1000" by (simp only: of_int_le_iff)
    then show ?thesis by (auto simp: retryAfterSeconds_def)
  qed
  then have header: "\<exists>s. int_str s = int_str (retryAfterSeconds ms) \<and> 1 \<le> s \<and> ms \<le> s * 1000" for ms
    by blast
  show ?thesis
  proof (cases "rateLimit_enabled cfg \<and> options \<noteq> None \<and> rd_up S (wd_redis w)")
    case False
    then consider "\<not> rateLimit_enabled cfg" | "options = None" | opts where "options = Some opts" "\<not> rd_up S (wd_redis w)"
      by blast
    then have "answer = Inr True \<and> hs = [] \<and> w' = w"
    proof cases
      case 3
      then show ?thesis
        using assms by (cases "rateLimit_enabled cfg") (simp_all add: canActivate_def consumeToken_def Let_def)
    qed (use assms in \<open>simp_all add: canActivate_def split: if_splits\<close>)
    with False show ?thesis by auto
  next
    case True
    then obtain opts where opts: "options = Some opts" and on: "rateLimit_enabled cfg" "rd_up S (wd_redis w)" by auto
    show ?thesis
      using assms on by (auto simp: canActivate_def opts consumeToken_def Let_def split: if_splits intro: header)
  qed
qed

definition limited_request :: guarded_request where
  "limited_request = \<lparr>gr_http = get_event_request, gr_userId = Some ''ann'', gr_forwardedFor = None, gr_ip = None\<rparr>"

definition booking_limit :: rate_limit_options where
  "booking_limit = \<lparr>ro_bucket = ''booking'', ro_capacity = None, ro_refillPerSecond = None\<rparr>"

text \<open>A world in which the caller's bucket was emptied at this very moment.\<close>

definition spent_world :: "(mini_redis, mini_broker) world" where
  "spent_world = (mini_world empty_db)\<lparr>wd_redis := (\<lambda>_. None, [''ratelimit:booking:user:ann'' \<mapsto> (0, 0)])\<rparr>"

lemma rate_limit_guard_witness:
  "thrown (fst (canActivate (default_config Pessimistic) mini (Some booking_limit) limited_request spent_world))"
proof -
  obtain answer hs w' where c: "canActivate (default_config Pessimistic) mini (Some booking_limit)
      limited_request spent_world = (answer, hs, w')" by (metis prod.exhaust)
  have "bucket_key booking_limit limited_request = ''ratelimit:booking:user:ann''"
    by (simp add: bucket_key_def booking_limit_def identify_def limited_request_def)
  with rate_limit_guard [OF c] c show ?thesis
    by (simp add: mini_def spent_world_def mini_world_def token_bucket_def Let_def limit_refill_def
        limit_capacity_def booking_limit_def default_config_def)
qed

text \<open>
  One aggressive user cannot burn the budget of others: under one decorator, callers with different
  user ids have different buckets, wherever they connect from, and no anonymous caller shares a bucket
  with an identified one; callers with the same user id always share theirs.
\<close>

theorem buckets_are_per_user:
  assumes "gr_userId r = Some u" and "u \<noteq> []"
  shows "(bucket_key opts r = bucket_key opts r') \<longleftrightarrow> gr_userId r' = Some u"
  using assms
  by (cases u) (auto simp: bucket_key_def identify_def split: option.splits list.splits)

lemma buckets_are_per_user_witness:
  "bucket_key booking_limit limited_request \<noteq> bucket_key booking_limit (limited_request\<lparr>gr_userId := Some ''bob''\<rparr>)"
  using buckets_are_per_user [of limited_request "''ann''" booking_limit "limited_request\<lparr>gr_userId := Some ''bob''\<rparr>"]
  by (simp add: limited_request_def)

end
