(* ===== verification/ClaimStore.thy ===== *)
theory ClaimStore
  imports World
begin

section \<open>Claiming work by inserting a row\<close>

text \<open>
  Idempotency keys and processed messages are the same pattern: a row is inserted with
  \<open>ON CONFLICT DO NOTHING\<close> before the work, the winner of the insert works, and a failed worker deletes
  the row again. The locale \<open>claim_store\<close> is that interface; its lemmas hold for any number of
  workers that interleave (\<open>work_step\<close>) and are used by both components.
\<close>

record ('st, 'k) work =
  wk_store :: 'st
  wk_active :: "nat \<Rightarrow> 'k option"
  wk_done :: "'k \<Rightarrow> nat"

text \<open>
  Worker \<open>i\<close> claims and wins, claims and loses, finishes its work, fails and takes its claim back, or is
  lost with its claim left behind (it crashed, or taking the claim back failed).
\<close>

inductive work_step :: "('r \<Rightarrow> 'st \<Rightarrow> bool \<times> 'st) \<Rightarrow> ('k \<Rightarrow> 'st \<Rightarrow> 'st) \<Rightarrow> ('r \<Rightarrow> 'k)
    \<Rightarrow> ('st, 'k) work \<Rightarrow> ('st, 'k) work \<Rightarrow> bool"
  for claim :: "'r \<Rightarrow> 'st \<Rightarrow> bool \<times> 'st" and release :: "'k \<Rightarrow> 'st \<Rightarrow> 'st" and key :: "'r \<Rightarrow> 'k" where
  wk_claim: "wk_active y i = None \<Longrightarrow> claim r (wk_store y) = (True, st) \<Longrightarrow>
     work_step claim release key y (y\<lparr>wk_store := st, wk_active := (wk_active y)(i \<mapsto> key r)\<rparr>)"
| wk_duplicate: "claim r (wk_store y) = (False, st) \<Longrightarrow> work_step claim release key y (y\<lparr>wk_store := st\<rparr>)"
| wk_finish: "wk_active y i = Some k \<Longrightarrow>
     work_step claim release key y (y\<lparr>wk_active := (wk_active y)(i := None), wk_done := inc1 k (wk_done y)\<rparr>)"
| wk_fail: "wk_active y i = Some k \<Longrightarrow>
     work_step claim release key y (y\<lparr>wk_store := release k (wk_store y), wk_active := (wk_active y)(i := None)\<rparr>)"
| wk_lose: "wk_active y i = Some k \<Longrightarrow>
     work_step claim release key y (y\<lparr>wk_active := (wk_active y)(i := None)\<rparr>)"

inductive work_steps :: "('r \<Rightarrow> 'st \<Rightarrow> bool \<times> 'st) \<Rightarrow> ('k \<Rightarrow> 'st \<Rightarrow> 'st) \<Rightarrow> ('r \<Rightarrow> 'k)
    \<Rightarrow> ('st, 'k) work \<Rightarrow> ('st, 'k) work \<Rightarrow> bool"
  for claim :: "'r \<Rightarrow> 'st \<Rightarrow> bool \<times> 'st" and release :: "'k \<Rightarrow> 'st \<Rightarrow> 'st" and key :: "'r \<Rightarrow> 'k" where
  wks_refl: "work_steps claim release key y y"
| wks_more: "work_steps claim release key y y' \<Longrightarrow> work_step claim release key y' y'' \<Longrightarrow>
     work_steps claim release key y y''"

definition work_start :: "'st \<Rightarrow> ('st, 'k) work" where
  "work_start st = \<lparr>wk_store = st, wk_active = (\<lambda>_. None), wk_done = (\<lambda>_. 0)\<rparr>"

text \<open>Each key has been worked off at most once, or is being worked on by one worker, and then it is held.\<close>

definition work_inv :: "('st \<Rightarrow> 'k set) \<Rightarrow> ('st, 'k) work \<Rightarrow> bool" where
  "work_inv held y \<longleftrightarrow>
     (\<forall>i k. wk_active y i = Some k \<longrightarrow> k \<in> held (wk_store y) \<and> wk_done y k = 0)
     \<and> (\<forall>i j k. wk_active y i = Some k \<longrightarrow> wk_active y j = Some k \<longrightarrow> i = j)
     \<and> (\<forall>k. wk_done y k \<le> 1 \<and> (0 < wk_done y k \<longrightarrow> k \<in> held (wk_store y)))"

locale claim_store =
  fixes claim :: "'r \<Rightarrow> 'st \<Rightarrow> bool \<times> 'st"
    and release :: "'k \<Rightarrow> 'st \<Rightarrow> 'st"
    and key :: "'r \<Rightarrow> 'k"
    and held :: "'st \<Rightarrow> 'k set"
  assumes claim_wins: "fst (claim r s) \<longleftrightarrow> key r \<notin> held s"
    and held_claim: "held (snd (claim r s)) = insert (key r) (held s)"
    and held_release: "held (release k s) = held s - {k}"
begin

lemma claim_True: "claim r s = (True, s') \<Longrightarrow> key r \<notin> held s \<and> held s' = insert (key r) (held s)"
  using claim_wins [of r s] held_claim [of r s] by simp

lemma claim_False: "claim r s = (False, s') \<Longrightarrow> key r \<in> held s \<and> held s' = held s"
  using claim_wins [of r s] held_claim [of r s] by auto

lemma work_step_inv: "work_step claim release key y y' \<Longrightarrow> work_inv held y \<Longrightarrow> work_inv held y'"
proof (induction rule: work_step.induct)
  case (wk_claim y i r st)
  have none: "wk_active y j \<noteq> Some (key r)" for j
    using wk_claim(3) claim_True [OF wk_claim(2)] by (auto simp: work_inv_def)
  then show ?case
    using wk_claim(3) claim_True [OF wk_claim(2)] unfolding work_inv_def by (auto split: if_splits)
next
  case (wk_duplicate r y st)
  then show ?case using claim_False [OF wk_duplicate(1)] by (simp add: work_inv_def)
next
  case (wk_finish y i k)
  then show ?case unfolding work_inv_def by (auto split: if_splits)
next
  case (wk_fail y i k)
  then show ?case unfolding work_inv_def by (auto simp: held_release split: if_splits)
next
  case (wk_lose y i k)
  then show ?case unfolding work_inv_def by (auto split: if_splits)
qed

lemma work_steps_inv:
  assumes "work_steps claim release key (work_start st) y"
  shows "work_inv held y"
  using assms
proof (induction "work_start st :: ('st, 'k) work" y rule: work_steps.induct)
  case wks_refl
  show ?case by (simp add: work_inv_def work_start_def)
next
  case (wks_more y y')
  then show ?case using work_step_inv by blast
qed

lemma done_at_most_once:
  "work_steps claim release key (work_start st) y \<Longrightarrow> wk_done y k \<le> 1"
  using work_steps_inv by (auto simp: work_inv_def)

lemma one_worker_per_key:
  "work_steps claim release key (work_start st) y \<Longrightarrow> wk_active y i = Some k \<Longrightarrow>
    wk_active y j = Some k \<Longrightarrow> i = j"
  using work_steps_inv unfolding work_inv_def by blast

lemma released_can_be_claimed: "fst (claim r (release (key r) s))"
  by (simp add: claim_wins held_release)

end

end
