(* ===== verification/Idempotency.thy ===== *)
theory Idempotency
  imports ClaimStore Redis Fingerprint
begin

section \<open>Idempotent requests\<close>

text \<open>
  \<open>idempotency/idempotency.interceptor.ts\<close>: \<open>claim\<close> is two statements, the insert
  (\<open>claim_insert\<close>) and, when it lost, the read (\<open>claim_read\<close>), between which other requests may act;
  \<open>complete\<close> and \<open>release\<close> run after the handler. \<open>intercept_key\<close> is the interceptor around a handler,
  and \<open>sweepExpiredKeys\<close> of \<open>idempotency/idempotency-cleanup.job.ts\<close> deletes expired rows under a Redis
  lease. The fingerprint is computed by \<open>Fingerprint\<close>.
\<close>

definition TTL_HOURS :: int where
  "TTL_HOURS = 24"

record idem_request =
  iq_key :: string
  iq_endpoint :: string
  iq_fingerprint :: string

datatype claim_outcome = Proceed | Replay int "jsval option"

definition key_reused :: err where
  "key_reused = UnprocessableEntityException
     ''This Idempotency-Key was already used with a different request body''"

definition key_in_progress :: err where
  "key_in_progress = ConflictException
     ''A request with this Idempotency-Key is still in progress, retry shortly''"

definition idem_fits :: "idem_row \<Rightarrow> bool" where
  "idem_fits r \<longleftrightarrow> length (ik_key r) \<le> 200 \<and> length (ik_endpoint r) \<le> 200 \<and> length (ik_requestHash r) \<le> 64"

definition claim_row :: "idem_request \<Rightarrow> ms \<Rightarrow> idem_row" where
  "claim_row q now =
     \<lparr>ik_key = iq_key q, ik_endpoint = iq_endpoint q, ik_requestHash = iq_fingerprint q,
      ik_status = InProgress, ik_responseStatus = None, ik_responseBody = None, ik_createdAt = now,
      ik_expiresAt = now + TTL_HOURS * 3600 * 1000\<rparr>"

definition insert_key :: "idem_row \<Rightarrow> idem_row list \<Rightarrow> bool \<times> idem_row list" where
  "insert_key r t = insert_ignore ik_key r t"

definition claim_insert :: "idem_request \<Rightarrow> ms \<Rightarrow> db \<Rightarrow> err + bool \<times> db" where
  "claim_insert q now d =
     (if idem_fits (claim_row q now)
      then case insert_key (claim_row q now) (t_idempotency d) of (won, t) \<Rightarrow> Inr (won, d\<lparr>t_idempotency := t\<rparr>)
      else Inl QueryFailedError)"

definition find_key :: "string \<Rightarrow> db \<Rightarrow> idem_row option" where
  "find_key k d = find (\<lambda>r. ik_key r = k) (t_idempotency d)"

definition claim_read :: "idem_request \<Rightarrow> db \<Rightarrow> err + claim_outcome" where
  "claim_read q d =
     (case find_key (iq_key q) d of
        None \<Rightarrow> Inr Proceed
      | Some existing \<Rightarrow>
          if ik_requestHash existing \<noteq> iq_fingerprint q then Inl key_reused
          else if ik_status existing = Completed \<and> ik_responseStatus existing \<noteq> None
          then Inr (Replay (the (ik_responseStatus existing)) (ik_responseBody existing))
          else Inl key_in_progress)"

text \<open>The two statements in a row, when nothing happens between them.\<close>

definition claim :: "idem_request \<Rightarrow> ms \<Rightarrow> db \<Rightarrow> (err + claim_outcome) \<times> db" where
  "claim q now d =
     (case claim_insert q now d of
        Inl e \<Rightarrow> (Inl e, d)
      | Inr (won, d') \<Rightarrow> if won then (Inr Proceed, d') else (claim_read q d', d'))"

definition complete_key :: "string \<Rightarrow> int \<Rightarrow> jsval \<Rightarrow> db \<Rightarrow> db" where
  "complete_key k st body d = d\<lparr>t_idempotency := upd_where (\<lambda>r. ik_key r = k)
     (\<lambda>r. r\<lparr>ik_status := Completed, ik_responseStatus := Some st, ik_responseBody := Some body\<rparr>)
     (t_idempotency d)\<rparr>"

definition release_row :: "string \<Rightarrow> idem_row list \<Rightarrow> idem_row list" where
  "release_row k t = del_where (\<lambda>r. ik_key r = k) t"

definition release_key :: "string \<Rightarrow> db \<Rightarrow> db" where
  "release_key k d = d\<lparr>t_idempotency := release_row k (t_idempotency d)\<rparr>"

subsection \<open>The interceptor\<close>

record http_response =
  hs_status :: int
  hs_headers :: msg_headers
  hs_body :: "jsval option"

text \<open>
  \<open>handler\<close> answers a status and a body or throws. With no key, or a blank one, it runs unprotected.
  \<open>complete\<close> and \<open>release\<close> are not awaited; here they have taken effect when the call returns.
\<close>

definition idem_endpoint :: "string \<Rightarrow> string option \<Rightarrow> string \<Rightarrow> string" where
  "idem_endpoint method routePath path = method @ '' '' @ orElse routePath path"

definition intercept_key :: "string option \<Rightarrow> (string \<Rightarrow> idem_request) \<Rightarrow> ('s, 'k, int \<times> jsval) call
    \<Rightarrow> ('s, 'k, http_response) call" where
  "intercept_key header request handler w =
     (let run = (\<lambda>w. case handler w of
                   (Inl e, w') \<Rightarrow> (Inl e, w')
                 | (Inr (st, body), w') \<Rightarrow> (Inr \<lparr>hs_status = st, hs_headers = [], hs_body = Some body\<rparr>, w')) in
      case header of
        None \<Rightarrow> run w
      | Some h \<Rightarrow>
          if trim h = [] then run w
          else let q = request (trim h) in
            case claim q (wd_now w) (wd_db w) of
              (Inl e, d) \<Rightarrow> (Inl e, w\<lparr>wd_db := d\<rparr>)
            | (Inr (Replay st body), d) \<Rightarrow>
                (Inr \<lparr>hs_status = st, hs_headers = [(''Idempotent-Replay'', ''true'')], hs_body = body\<rparr>, w\<lparr>wd_db := d\<rparr>)
            | (Inr Proceed, d) \<Rightarrow>
                (case handler (w\<lparr>wd_db := d\<rparr>) of
                   (Inl e, w') \<Rightarrow> (Inl e, w'\<lparr>wd_db := release_key (iq_key q) (wd_db w')\<rparr>)
                 | (Inr (st, body), w') \<Rightarrow>
                     (Inr \<lparr>hs_status = st, hs_headers = [], hs_body = Some body\<rparr>,
                      w'\<lparr>wd_db := complete_key (iq_key q) st body (wd_db w')\<rparr>)))"

subsection \<open>The cleanup job\<close>

definition delete_expired :: "ms \<Rightarrow> db \<Rightarrow> db" where
  "delete_expired now d = d\<lparr>t_idempotency := del_where (\<lambda>r. ik_expiresAt r < now) (t_idempotency d)\<rparr>"

definition sweepExpiredKeys :: "('s, 'k) services \<Rightarrow> uuid \<Rightarrow> ('s, 'k, unit option) call" where
  "sweepExpiredKeys S randomUUID w =
     withLock S ''cron:idempotency-cleanup'' 60000 randomUUID
       (\<lambda>w. (Inr (), w\<lparr>wd_db := delete_expired (wd_now w) (wd_db w)\<rparr>)) w"

subsection \<open>The table as a claim store\<close>

interpretation idem_keys: claim_store insert_key release_row ik_key "\<lambda>t. ik_key ` set t"
proof unfold_locales
  fix r :: idem_row and t k
  show "fst (insert_key r t) \<longleftrightarrow> ik_key r \<notin> ik_key ` set t" by (simp add: insert_key_def)
  show "ik_key ` set (snd (insert_key r t)) = insert (ik_key r) (ik_key ` set t)" by (simp add: insert_key_def)
  show "ik_key ` set (release_row k t) = ik_key ` set t - {k}" by (auto simp: release_row_def)
qed

text \<open>
  One key, one worker: however requests claim keys, finish, fail and release, or crash, as long as
  a request that lost the insert does not work, two requests never work under one key at the same time, and
  the work of a key is finished at most once; and a released key can be claimed again.
\<close>

theorem idempotency_claims_are_exclusive:
  assumes "work_steps insert_key release_row ik_key (work_start t) y"
  shows "wk_done y k \<le> 1
    \<and> (\<forall>i j. wk_active y i = Some k \<and> wk_active y j = Some k \<longrightarrow> i = j)
    \<and> fst (insert_key r (release_row (ik_key r) (wk_store y)))"
  using idem_keys.done_at_most_once [OF assms] idem_keys.one_worker_per_key [OF assms]
    idem_keys.released_can_be_claimed by blast

subsection \<open>One request after another\<close>

lemma find_key_insert:
  "find_key k (d\<lparr>t_idempotency := t_idempotency d @ [r]\<rparr>) =
     (case find_key k d of Some x \<Rightarrow> Some x | None \<Rightarrow> if ik_key r = k then Some r else None)"
proof -
  have "find P (xs @ [y]) = (case find P xs of Some x \<Rightarrow> Some x | None \<Rightarrow> if P y then Some y else None)"
    for P and xs :: "idem_row list" and y by (induction xs) auto
  then show ?thesis by (simp add: find_key_def)
qed

lemma find_key_None: "find_key k d = None \<longleftrightarrow> k \<notin> ik_key ` set (t_idempotency d)"
  by (auto simp: find_key_def find_None_iff)

lemma find_key_complete:
  "find_key k (complete_key k' st body d) = map_option (\<lambda>r. if ik_key r = k'
     then r\<lparr>ik_status := Completed, ik_responseStatus := Some st, ik_responseBody := Some body\<rparr> else r) (find_key k d)"
  by (simp add: find_key_def complete_key_def find_upd_where)

lemma find_key_id: "find_key k d = Some r \<Longrightarrow> ik_key r = k"
  by (auto simp: find_key_def dest: find_SomeD)

lemma key_known: "List.list_ex (\<lambda>x. ik_key x = k) t \<longleftrightarrow> k \<in> ik_key ` set t"
  by (auto simp: list_ex_iff)

lemma claim_insert_eq:
  "idem_fits (claim_row q now) \<Longrightarrow> claim_insert q now d = Inr
     (if find_key (iq_key q) d = None then (True, d\<lparr>t_idempotency := t_idempotency d @ [claim_row q now]\<rparr>)
      else (False, d))"
  by (simp add: claim_insert_def insert_key_def insert_ignore_def key_known find_key_None)
     (simp add: claim_row_def)

text \<open>
  C20. The life of a key: the first request under it proceeds; while it runs, the same request again is
  told 409 and a different one 422; once it has answered, the same request gets that answer, status and
  body, and a different one still 422; once it has failed, the key is free again. None of the refused
  or replayed requests changes the table.
\<close>

theorem idempotency_lifecycle:
  assumes "idem_fits (claim_row q now)" and "idem_fits (claim_row q' later)" and "iq_key q' = iq_key q"
    and "find_key (iq_key q) d = None" and "claim q now d = (answer, d1)"
  shows "answer = Inr Proceed
    \<and> claim q' later d1 = (Inl (if iq_fingerprint q' = iq_fingerprint q then key_in_progress else key_reused), d1)
    \<and> claim q' later (complete_key (iq_key q) st body d1) =
        (if iq_fingerprint q' = iq_fingerprint q then Inr (Replay st (Some body)) else Inl key_reused,
         complete_key (iq_key q) st body d1)
    \<and> fst (claim q' later (release_key (iq_key q) d1)) = Inr Proceed"
proof -
  have d1: "answer = Inr Proceed" "d1 = d\<lparr>t_idempotency := t_idempotency d @ [claim_row q now]\<rparr>"
    using assms(1,4,5) by (simp_all add: claim_def claim_insert_eq)
  have f1: "find_key (iq_key q) d1 = Some (claim_row q now)"
    using assms(4) by (simp add: d1 find_key_insert claim_row_def)
  have f2: "find_key (iq_key q) (complete_key (iq_key q) st body d1) =
      Some ((claim_row q now)\<lparr>ik_status := Completed, ik_responseStatus := Some st, ik_responseBody := Some body\<rparr>)"
    by (simp add: find_key_complete f1) (simp add: claim_row_def)
  have f3: "find_key (iq_key q) (release_key (iq_key q) d1) = None"
    by (auto simp: find_key_None release_key_def release_row_def)
  show ?thesis
    using assms(2,3) d1(1) f1 f2 f3
    by (auto simp: claim_def claim_insert_eq claim_read_def claim_row_def)
qed

definition key_request :: "string \<Rightarrow> idem_request" where
  "key_request fp = \<lparr>iq_key = ''k1'', iq_endpoint = ''POST /v1'', iq_fingerprint = fp\<rparr>"

lemma idempotency_lifecycle_witness:
  "claim (key_request ''f1'') 7 (complete_key ''k1'' 201 JNull (snd (claim (key_request ''f1'') 5 empty_db))) =
     (Inr (Replay 201 (Some JNull)), complete_key ''k1'' 201 JNull (snd (claim (key_request ''f1'') 5 empty_db)))"
proof -
  obtain a d1 where c: "claim (key_request ''f1'') 5 empty_db = (a, d1)" by fastforce
  have "idem_fits (claim_row (key_request ''f1'') t)" for t
    by (simp add: idem_fits_def claim_row_def key_request_def)
  moreover have "find_key (iq_key (key_request ''f1'')) empty_db = None" by (simp add: find_key_def empty_db_def)
  ultimately have "claim (key_request ''f1'') 7 (complete_key (iq_key (key_request ''f1'')) 201 JNull d1) =
      (Inr (Replay 201 (Some JNull)), complete_key (iq_key (key_request ''f1'')) 201 JNull d1)"
    using idempotency_lifecycle [OF _ _ refl _ c, of 7 201 JNull] by simp
  then show ?thesis by (simp add: c) (simp add: key_request_def)
qed

lemma idempotency_claims_are_exclusive_witness:
  "\<exists>y. work_steps insert_key release_row ik_key (work_start []) y \<and> wk_active y 3 = Some ''k1''
     \<and> (\<forall>j. wk_active y j = Some ''k1'' \<longrightarrow> j = 3)"
proof -
  let ?r = "claim_row (key_request ''f1'') 0"
  let ?s = "work_start [] :: (idem_row list, string) work"
  let ?y = "?s\<lparr>wk_store := [?r], wk_active := (wk_active ?s)(3 \<mapsto> ik_key ?r)\<rparr>"
  have "work_steps insert_key release_row ik_key (work_start []) ?y"
    by (rule wks_more [OF wks_refl wk_claim]) (simp_all add: work_start_def insert_key_def insert_ignore_def)
  moreover have "wk_active ?y 3 = Some ''k1''" by (simp add: claim_row_def key_request_def)
  ultimately show ?thesis using idempotency_claims_are_exclusive by blast
qed

end
