(* ===== verification/BookEndpoint.thy ===== *)
theory BookEndpoint
  imports BookOutcomes RateLimit Idempotency
begin

section \<open>The booking endpoint\<close>

text \<open>
  \<open>POST /v1/events/:eventId/bookings\<close> (\<open>create\<close> of \<open>bookings/bookings.controller.ts\<close>) as the decorators
  compose it: the rate limit guard, then the idempotency interceptor around the validation pipe and the
  booking. The pipe (\<open>validate\<close>), the hash and the collation behind the fingerprint are arguments.
\<close>

record booking_http =
  bh_guarded :: guarded_request
  bh_eventId :: uuid
  bh_body :: jsval
  bh_key :: "string option"
  bh_traceId :: "string option"

definition booking_options :: rate_limit_options where
  "booking_options = \<lparr>ro_bucket = ''booking'', ro_capacity = None, ro_refillPerSecond = None\<rparr>"

definition booking_json :: "booking_response \<Rightarrow> jsval" where
  "booking_json r = JObj
     [(''id'', JStr (br_id r)), (''eventId'', JStr (br_eventId r)), (''userId'', JStr (br_userId r)),
      (''quantity'', JNum (of_int (br_quantity r))), (''status'', JStr (br_status r)),
      (''seatsRemaining'', JNum (of_int (br_seatsRemaining r))), (''lockStrategy'', JStr (br_lockStrategy r)),
      (''createdAt'', JStr (br_createdAt r))]"

definition booking_request :: "booking_http \<Rightarrow> create_booking_dto \<Rightarrow> ms \<Rightarrow> book_req" where
  "booking_request r dto now =
     \<lparr>bq_eventId = bh_eventId r, bq_dto = dto, bq_traceId = bh_traceId r,
      bq_idempotencyKey = map_option trim (bh_key r), bq_now = now\<rparr>"

text \<open>The pipe and the controller method; an unharmed process always answers.\<close>

definition create_booking :: "config \<Rightarrow> ('s, 'k) services \<Rightarrow> txenv \<Rightarrow> (jsval \<Rightarrow> err + create_booking_dto)
    \<Rightarrow> booking_http \<Rightarrow> ('s, 'k, int \<times> jsval) call" where
  "create_booking cfg S env validate r w =
     (case validate (bh_body r) of
        Inl e \<Rightarrow> (Inl e, w)
      | Inr dto \<Rightarrow>
          (case book cfg S env False (booking_request r dto (wd_now w)) w of
             (Some (Inr answer), w') \<Rightarrow> (Inr (201, booking_json answer), w')
           | (Some (Inl e), w') \<Rightarrow> (Inl e, w')
           | (None, w') \<Rightarrow> (Inl (JsError ''process exited''), w')))"

definition booking_key :: "(string \<Rightarrow> string) \<Rightarrow> (string \<Rightarrow> 'o::linorder) \<Rightarrow> booking_http \<Rightarrow> string \<Rightarrow> idem_request" where
  "booking_key sha256 collate r k =
     (let h = gr_http (bh_guarded r) in
      \<lparr>iq_key = k, iq_endpoint = idem_endpoint (hr_method h) (hr_routePath h) (hr_path h),
       iq_fingerprint = requestFingerprint sha256 collate (hr_method h) (orElse (hr_originalUrl h) []) (bh_body r)\<rparr>)"

definition post_booking :: "config \<Rightarrow> ('s, 'k) services \<Rightarrow> txenv \<Rightarrow> (jsval \<Rightarrow> err + create_booking_dto)
    \<Rightarrow> (string \<Rightarrow> string) \<Rightarrow> (string \<Rightarrow> 'o::linorder) \<Rightarrow> booking_http \<Rightarrow> ('s, 'k) world
    \<Rightarrow> (err + http_response) \<times> msg_headers \<times> ('s, 'k) world" where
  "post_booking cfg S env validate sha256 collate r w =
     (case canActivate cfg S (Some booking_options) (bh_guarded r) w of
        (Inl e, hs, w1) \<Rightarrow> (Inl e, hs, w1)
      | (Inr _, hs, w1) \<Rightarrow>
          (case intercept_key (bh_key r) (booking_key sha256 collate r) (create_booking cfg S env validate r) w1 of
             (answer, w2) \<Rightarrow> (answer, hs, w2)))"

text \<open>
  What a request leaves behind whose process is killed right after the commit: the key is claimed, the
  booking stands, and neither \<open>complete\<close> nor \<open>release\<close> runs.
\<close>

definition killed_booking :: "config \<Rightarrow> ('s, 'k) services \<Rightarrow> txenv \<Rightarrow> create_booking_dto
    \<Rightarrow> (string \<Rightarrow> string) \<Rightarrow> (string \<Rightarrow> 'o::linorder) \<Rightarrow> booking_http \<Rightarrow> string \<Rightarrow> ('s, 'k) world \<Rightarrow> ('s, 'k) world" where
  "killed_booking cfg S env dto sha256 collate r k w =
     (case claim (booking_key sha256 collate r k) (wd_now w) (wd_db w) of
        (Inr Proceed, d) \<Rightarrow> snd (book cfg S env True (booking_request r dto (wd_now w)) (w\<lparr>wd_db := d\<rparr>))
      | (_, d) \<Rightarrow> w\<lparr>wd_db := d\<rparr>)"

subsection \<open>What the layers leave alone\<close>

lemma canActivate_frame:
  "canActivate cfg S options r w = (a, hs, w') \<Longrightarrow> wd_db w' = wd_db w \<and> wd_kafka w' = wd_kafka w
    \<and> (\<forall>e. a = Inl e \<longrightarrow> (\<exists>ms. e = TooManyRequests ms))"
  by (auto simp: canActivate_def consumeToken_def Let_def split: if_splits option.splits prod.splits sum.splits)

lemma canActivate_clock: "canActivate cfg S options r w = (a, hs, w') \<Longrightarrow> wd_now w' = wd_now w"
  by (auto simp: canActivate_def consumeToken_def Let_def split: if_splits option.splits prod.splits sum.splits)

lemma sell_idempotency:
  "sell cfg q env d = (sale, d') \<Longrightarrow> t_idempotency d' = t_idempotency d"
  by (auto simp: sell_def set_event_def Let_def split: option.splits if_splits)

lemma book_db:
  assumes "retries_ok cfg" "book cfg S env dies q w = (answer, w')" "sell cfg q env (wd_db w) = (sale, d')"
  shows "wd_db w' = d'" "sale = Inl e \<Longrightarrow> answer = Some (Inl e) \<and> wd_db w' = wd_db w \<and> wd_kafka w' = wd_kafka w"
    and "sale = Inr x \<Longrightarrow> answer = (if outbox_crashAfterCommit cfg \<and> dies then None else Some (Inr (response_of cfg x)))"
proof -
  consider (no) e where "sale = Inl e" | (yes) x where "sale = Inr x" by (cases sale) auto
  then have "wd_db w' = d' \<and> (\<forall>e. sale = Inl e \<longrightarrow> answer = Some (Inl e) \<and> wd_db w' = wd_db w \<and> wd_kafka w' = wd_kafka w)
    \<and> (\<forall>x. sale = Inr x \<longrightarrow> answer = (if outbox_crashAfterCommit cfg \<and> dies then None else Some (Inr (response_of cfg x))))"
  proof cases
    case no
    then show ?thesis
      using book_refusal [OF assms(1), of q env w e d' S dies] sell_refused [of cfg q env "wd_db w" e d'] assms by simp
  next
    case yes
    then show ?thesis using book_sale [OF assms(1), of q env w x d' S dies] assms by (auto split: if_splits)
  qed
  then show "wd_db w' = d'" "sale = Inl e \<Longrightarrow> answer = Some (Inl e) \<and> wd_db w' = wd_db w \<and> wd_kafka w' = wd_kafka w"
    "sale = Inr x \<Longrightarrow> answer = (if outbox_crashAfterCommit cfg \<and> dies then None else Some (Inr (response_of cfg x)))"
    by blast+
qed

lemma create_booking_props:
  assumes "retries_ok cfg" "create_booking cfg S env validate r w = (answer, w')"
  shows "t_idempotency (wd_db w') = t_idempotency (wd_db w)"
    and "thrown answer \<Longrightarrow> wd_db w' = wd_db w \<and> wd_kafka w' = wd_kafka w"
proof -
  have "t_idempotency (wd_db w') = t_idempotency (wd_db w) \<and> (thrown answer \<longrightarrow> wd_db w' = wd_db w \<and> wd_kafka w' = wd_kafka w)"
  proof (cases "validate (bh_body r)")
    case (Inl e)
    with assms(2) show ?thesis by (auto simp: create_booking_def)
  next
    case (Inr dto)
    let ?q = "booking_request r dto (wd_now w)"
    obtain a w1 where b: "book cfg S env False ?q w = (a, w1)" by fastforce
    obtain sale d' where s: "sell cfg ?q env (wd_db w) = (sale, d')" by fastforce
    note db = book_db [OF assms(1) b s]
    show ?thesis
      using assms(2) Inr b db sell_idempotency [OF s] by (cases sale) (auto simp: create_booking_def)
  qed
  then show "t_idempotency (wd_db w') = t_idempotency (wd_db w)"
    "thrown answer \<Longrightarrow> wd_db w' = wd_db w \<and> wd_kafka w' = wd_kafka w" by blast+
qed

lemma find_append: "find P (xs @ [y]) = (case find P xs of Some x \<Rightarrow> Some x | None \<Rightarrow> if P y then Some y else None)"
  by (induction xs) auto

text \<open>The first row of a key survives the cleanup while it has not expired.\<close>

lemma find_key_unexpired:
  assumes "find_key k d = Some row" "now \<le> ik_expiresAt row"
  shows "find_key k (delete_expired now d) = find_key k d"
proof -
  have "find P (filter Q xs) = Some x" if "find P xs = Some x" "Q x" for P Q and xs :: "idem_row list" and x
    using that by (induction xs) (auto split: if_splits)
  then show ?thesis using assms by (simp add: find_key_def delete_expired_def del_where_def)
qed

text \<open>A claim that wins appends its row; one that does not leaves the table alone.\<close>

lemma claim_cases:
  assumes "claim q now d = (answer, d')"
  shows "d' = d \<and> answer \<noteq> Inr Proceed \<or> answer = Inr Proceed \<and> find_key (iq_key q) d = None
    \<and> d' = d\<lparr>t_idempotency := t_idempotency d @ [claim_row q now]\<rparr>"
proof (cases "idem_fits (claim_row q now)")
  case True
  show ?thesis
  proof (cases "find_key (iq_key q) d = None")
    case False
    then have "claim_read q d \<noteq> Inr Proceed" by (auto simp: claim_read_def split: if_splits)
    with True False assms show ?thesis by (auto simp: claim_def claim_insert_eq)
  qed (use True assms in \<open>auto simp: claim_def claim_insert_eq\<close>)
qed (use assms in \<open>auto simp: claim_def claim_insert_def\<close>)

lemma release_claimed:
  assumes "find_key k d = None" "ik_key row = k" "t_idempotency d' = t_idempotency d @ [row]"
  shows "t_idempotency (release_key k d') = t_idempotency d"
  using assms by (auto simp: release_key_def release_row_def del_where_def find_key_None image_iff intro!: filter_True)


subsection \<open>Retries under a key\<close>

lemma intercept_replay:
  assumes "bh_key r = Some h" "trim h \<noteq> []" "idem_fits (claim_row (booking_key sha collate r (trim h)) (wd_now w))"
    and "find_key (trim h) (wd_db w) = Some row" "ik_requestHash row = iq_fingerprint (booking_key sha collate r (trim h))"
    and "intercept_key (bh_key r) (booking_key sha collate r) handler w = (answer, w')"
  shows "w' = w \<and> answer = (if ik_status row = Completed \<and> ik_responseStatus row \<noteq> None
    then Inr \<lparr>hs_status = the (ik_responseStatus row), hs_headers = [(''Idempotent-Replay'', ''true'')],
              hs_body = ik_responseBody row\<rparr>
    else Inl key_in_progress)"
proof -
  have k: "iq_key (booking_key sha collate r (trim h)) = trim h" by (simp add: booking_key_def Let_def)
  have "claim (booking_key sha collate r (trim h)) (wd_now w) (wd_db w) =
      (if ik_status row = Completed \<and> ik_responseStatus row \<noteq> None
       then Inr (Replay (the (ik_responseStatus row)) (ik_responseBody row)) else Inl key_in_progress, wd_db w)"
    using assms(3-5) by (simp add: claim_def claim_insert_eq k claim_read_def)
  with assms(1,2,6) show ?thesis by (auto simp: intercept_key_def Let_def)
qed

lemma intercept_proceeds:
  assumes "retries_ok cfg" "bh_key r = Some h" "trim h \<noteq> []" "find_key (trim h) (wd_db w) = None"
    and "intercept_key (bh_key r) (booking_key sha collate r) (create_booking cfg S env validate r) w = (Inr resp, w')"
  shows "\<exists>row. find_key (trim h) (wd_db w') = Some row \<and> ik_requestHash row = iq_fingerprint (booking_key sha collate r (trim h))
    \<and> ik_status row = Completed \<and> ik_responseStatus row = Some (hs_status resp) \<and> ik_responseBody row = hs_body resp
    \<and> hs_headers resp = []"
proof -
  let ?q = "booking_key sha collate r (trim h)"
  have k: "iq_key ?q = trim h" by (simp add: booking_key_def Let_def)
  obtain c d where c: "claim ?q (wd_now w) (wd_db w) = (c, d)" by fastforce
  have "c = Inr Proceed"
  proof (cases "idem_fits (claim_row ?q (wd_now w))")
    case True
    with c assms(4) k show ?thesis by (simp add: claim_def claim_insert_eq)
  next
    case False
    with c have "c = Inl QueryFailedError" by (simp add: claim_def claim_insert_def)
    with c assms(2,3,5) k show ?thesis by (simp add: intercept_key_def Let_def)
  qed
  with claim_cases [OF c] have d: "d = (wd_db w)\<lparr>t_idempotency := t_idempotency (wd_db w) @ [claim_row ?q (wd_now w)]\<rparr>"
    by auto
  obtain x w2 where hd: "create_booking cfg S env validate r (w\<lparr>wd_db := d\<rparr>) = (x, w2)" by fastforce
  obtain st body where x: "x = Inr (st, body)" "resp = \<lparr>hs_status = st, hs_headers = [], hs_body = Some body\<rparr>"
    "w' = w2\<lparr>wd_db := complete_key (trim h) st body (wd_db w2)\<rparr>"
    using hd \<open>c = Inr Proceed\<close> c assms(2,3,5) k by (auto simp: intercept_key_def Let_def split: sum.splits prod.splits)
  have "t_idempotency (wd_db w2) = t_idempotency d" using create_booking_props(1) [OF assms(1) hd] by simp
  then have "find_key (trim h) (wd_db w2) = Some (claim_row ?q (wd_now w))"
    using assms(4) k by (simp add: find_key_def d) (simp add: find_append claim_row_def)
  then show ?thesis
    using k by (simp add: x find_key_complete claim_row_def)
qed


text \<open>
  C27. A killed request blocks its key: when the process dies right after the commit, the booking stands but
  its key stays in progress; until that row is removed, which the cleanup does not do before 24 hours
  have passed, every retry is rate limited or told 409, and the client never gets the answer.
\<close>

theorem killed_booking_blocks_its_key:
  assumes "retries_ok cfg" and "outbox_crashAfterCommit cfg" and "bh_key r = Some h" and "trim h \<noteq> []"
    and "find_key (trim h) (wd_db w) = None" and "idem_fits (claim_row (booking_key sha256 collate r (trim h)) (wd_now w))"
    and "sell cfg (booking_request r dto (wd_now w)) env
        ((wd_db w)\<lparr>t_idempotency := t_idempotency (wd_db w) @ [claim_row (booking_key sha256 collate r (trim h)) (wd_now w)]\<rparr>)
      = (Inr x, d')"
    and "find_key (trim h) (wd_db later) = find_key (trim h) (wd_db (killed_booking cfg S env dto sha256 collate r (trim h) w))"
    and "idem_fits (claim_row (booking_key sha256 collate r (trim h)) (wd_now later))"
    and "post_booking cfg2 S2 env2 validate2 sha256 collate r later = (answer, hs, later')"
  shows "bd_booking x \<in> set (t_bookings (wd_db (killed_booking cfg S env dto sha256 collate r (trim h) w)))
    \<and> ((\<exists>ms. answer = Inl (TooManyRequests ms)) \<or> answer = Inl key_in_progress)
    \<and> wd_db later' = wd_db later
    \<and> (\<forall>now. now \<le> wd_now w + 24 * 3600 * 1000 \<longrightarrow>
        find_key (trim h) (delete_expired now (wd_db later)) = find_key (trim h) (wd_db later))"
proof -
  let ?q = "booking_key sha256 collate r (trim h)" and ?k = "killed_booking cfg S env dto sha256 collate r (trim h) w"
  let ?row = "claim_row ?q (wd_now w)"
  have k: "iq_key ?q = trim h" by (simp add: booking_key_def Let_def)
  have c: "claim ?q (wd_now w) (wd_db w) = (Inr Proceed, (wd_db w)\<lparr>t_idempotency := t_idempotency (wd_db w) @ [?row]\<rparr>)"
    using assms(5,6) k by (simp add: claim_def claim_insert_eq)
  obtain a w2 where b: "book cfg S env True (booking_request r dto (wd_now w))
      (w\<lparr>wd_db := (wd_db w)\<lparr>t_idempotency := t_idempotency (wd_db w) @ [?row]\<rparr>\<rparr>) = (a, w2)" by fastforce
  have "wd_db w2 = d'" using book_db(1) [OF assms(1) b] assms(7) by simp
  then have db: "wd_db ?k = d'" by (simp add: killed_booking_def c b)
  have id: "t_idempotency d' = t_idempotency (wd_db w) @ [?row]" using sell_idempotency [OF assms(7)] by simp
  have found: "find_key (trim h) d' = Some ?row"
    using assms(5) k by (simp add: find_key_def id find_append claim_row_def)
  have stays: "find_key (trim h) (delete_expired now (wd_db later)) = find_key (trim h) (wd_db later)"
    if "now \<le> wd_now w + 24 * 3600 * 1000" for now
    using assms(8) found that by (intro find_key_unexpired [of _ _ ?row]) (simp_all add: db claim_row_def TTL_HOURS_def)
  obtain g hs1 l1 where g: "canActivate cfg2 S2 (Some booking_options) (bh_guarded r) later = (g, hs1, l1)" by (metis prod_cases3)
  note fr = canActivate_frame [OF g]
  have "((\<exists>ms. answer = Inl (TooManyRequests ms)) \<or> answer = Inl key_in_progress) \<and> wd_db later' = wd_db later"
  proof (cases g)
    case (Inl e)
    with g fr assms(10) show ?thesis by (auto simp: post_booking_def)
  next
    case (Inr u)
    then have i2: "intercept_key (bh_key r) (booking_key sha256 collate r) (create_booking cfg2 S2 env2 validate2 r) l1 = (answer, later')"
      using g assms(10) by (auto simp: post_booking_def split: prod.splits)
    have "find_key (trim h) (wd_db l1) = Some ?row" using fr assms(8) found db by simp
    from intercept_replay [OF assms(3,4) _ this _ i2] assms(9) canActivate_clock [OF g] fr show ?thesis
      by (simp add: claim_row_def)
  qed
  moreover have "bd_booking x \<in> set (t_bookings (wd_db ?k))" using sell_confirmed(3) [OF assms(7)] by (simp add: db)
  ultimately show ?thesis using stays by blast
qed

subsection \<open>Concrete runs\<close>

text \<open>Ann clicks once, with a key, and her client retries.\<close>

definition click_config :: config where
  "click_config = (default_config Optimistic)\<lparr>rateLimit_enabled := False\<rparr>"

definition click :: booking_http where
  "click = \<lparr>bh_guarded = \<lparr>gr_http = \<lparr>hr_method = ''POST'', hr_routePath = Some ''/v1/events/:eventId/bookings'',
       hr_originalUrl = Some ''/v1/events/e1/bookings'', hr_path = ''/v1/events/e1/bookings''\<rparr>,
       gr_userId = Some ''ann'', gr_forwardedFor = None, gr_ip = None\<rparr>,
     bh_eventId = ''e1'', bh_body = JNull, bh_key = Some ''k1'', bh_traceId = None\<rparr>"

definition click_dto :: create_booking_dto where
  "click_dto = \<lparr>cb_userId = ''ann'', cb_quantity = 1\<rparr>"

definition same_print :: "string \<Rightarrow> string" where
  "same_print text = ''f1''"

lemma click_facts:
  "retries_ok click_config" "bh_key click = Some ''k1''" "trim ''k1'' = ''k1''"
  "find_key ''k1'' (wd_db (mini_world one_seat_db)) = None"
  "canActivate click_config S (Some booking_options) (bh_guarded click) w = (Inr True, [], w)"
  "\<not> outbox_crashAfterCommit click_config"
  by (simp_all add: retries_ok_def click_config_def default_config_def click_def find_key_def mini_world_def one_seat_db_def
      canActivate_def trim_def is_ws_def)

lemma click_fits: "idem_fits (claim_row (booking_key same_print length click ''k1'') t)"
  by (simp add: idem_fits_def claim_row_def booking_key_def Let_def idem_endpoint_def same_print_def requestFingerprint_def click_def)

lemma click_sale:
  "\<exists>x d'. sell (click_config\<lparr>outbox_crashAfterCommit := b\<rparr>) (booking_request click click_dto t) (draws 0)
     (one_seat_db\<lparr>t_idempotency := rows\<rparr>) = (Inr x, d')"
  by (simp add: sell_def run_defs records_fit_def sold_row_def announcement_def click_config_def booking_request_def
      click_def click_dto_def click_facts(3))

lemma click_world: "wd_db (mini_world d) = d" "wd_now (mini_world d) = 0"
  by (simp_all add: mini_world_def)

lemma click_answered:
  "\<exists>resp hs w'. post_booking click_config mini (draws 0) (\<lambda>_. Inr click_dto) same_print length click (mini_world one_seat_db)
     = (Inr resp, hs, w')"
proof -
  let ?q = "booking_key same_print length click ''k1''" and ?w = "mini_world one_seat_db"
  let ?d = "(wd_db ?w)\<lparr>t_idempotency := t_idempotency (wd_db ?w) @ [claim_row ?q (wd_now ?w)]\<rparr>"
  have k: "iq_key ?q = ''k1''" by (simp add: booking_key_def Let_def)
  have c: "claim ?q (wd_now ?w) (wd_db ?w) = (Inr Proceed, ?d)"
    by (simp add: claim_def claim_insert_eq click_fits k click_facts(4))
  have same: "click_config\<lparr>outbox_crashAfterCommit := False\<rparr> = click_config"
    by (simp add: click_config_def default_config_def)
  obtain x d' where "sell click_config (booking_request click click_dto (wd_now ?w)) (draws 0) (wd_db (?w\<lparr>wd_db := ?d\<rparr>)) = (Inr x, d')"
    using click_sale [of False 0 "t_idempotency one_seat_db @ [claim_row ?q 0]"] by (auto simp: same click_world)
  from book_sale [OF click_facts(1) this, of mini False] obtain w3 where
    "book click_config mini (draws 0) False (booking_request click click_dto (wd_now ?w)) (?w\<lparr>wd_db := ?d\<rparr>)
     = (Some (Inr (response_of click_config x)), w3)" by auto
  then have "create_booking click_config mini (draws 0) (\<lambda>_. Inr click_dto) click (?w\<lparr>wd_db := ?d\<rparr>)
     = (Inr (201, booking_json (response_of click_config x)), w3)" by (simp add: create_booking_def)
  with c show ?thesis
    by (simp add: post_booking_def click_facts intercept_key_def Let_def k)
qed



lemma killed_booking_blocks_its_key_witness:
  "fst (post_booking click_config mini (draws 1) (\<lambda>_. Inr click_dto) same_print length click
     (killed_booking (click_config\<lparr>outbox_crashAfterCommit := True\<rparr>) mini (draws 0) click_dto same_print length click (trim ''k1'')
       (mini_world one_seat_db))) \<in> {Inl key_in_progress} \<union> Inl ` range TooManyRequests"
proof -
  let ?cfg = "click_config\<lparr>outbox_crashAfterCommit := True\<rparr>" and ?w = "mini_world one_seat_db"
  let ?later = "killed_booking ?cfg mini (draws 0) click_dto same_print length click (trim ''k1'') ?w"
  let ?q = "booking_key same_print length click (trim ''k1'')"
  have cfg: "retries_ok ?cfg" "outbox_crashAfterCommit ?cfg" by (simp_all add: retries_ok_def click_config_def default_config_def)
  have fits: "idem_fits (claim_row ?q t)" for t using click_fits by (simp add: click_facts(3))
  have ne: "trim ''k1'' \<noteq> []" "find_key (trim ''k1'') (wd_db ?w) = None" using click_facts(3,4) by simp_all
  obtain x d' where s: "sell ?cfg (booking_request click click_dto (wd_now ?w)) (draws 0)
      ((wd_db ?w)\<lparr>t_idempotency := t_idempotency (wd_db ?w) @ [claim_row ?q (wd_now ?w)]\<rparr>) = (Inr x, d')"
    using click_sale [of True 0 "t_idempotency one_seat_db @ [claim_row ?q 0]"] by (auto simp: click_world)
  obtain answer hs later' where p: "post_booking click_config mini (draws 1) (\<lambda>_. Inr click_dto) same_print length click ?later
      = (answer, hs, later')" by (metis prod_cases3)
  have "(\<exists>ms. answer = Inl (TooManyRequests ms)) \<or> answer = Inl key_in_progress"
    using killed_booking_blocks_its_key [OF cfg click_facts(2) ne fits s refl fits p] by blast
  then show ?thesis unfolding p fst_conv by auto
qed

end
