(* ===== verification/BookingRace.thy ===== *)
theory BookingRace
  imports BookingSafety
begin

section \<open>A race for the last seats\<close>

text \<open>
  How many of many simultaneous bookings are confirmed: not too many, and not too few. The bookings a run
  has added are those of its committed transactions, each once; a transaction that cannot end with
  \<open>Event not found\<close> or \<open>Seat contention too high\<close> ends confirmed or sold out.
\<close>

subsection \<open>The log of the commits\<close>

text \<open>The bookings a state has beyond \<open>bs\<close>, by the transaction that committed them.\<close>

definition commit_log :: "(nat \<Rightarrow> 'a \<Rightarrow> writes \<Rightarrow> bool) \<Rightarrow> booking_row list \<Rightarrow> 'a sys \<Rightarrow> (nat \<times> writes) list \<Rightarrow> bool" where
  "commit_log Q bs s cs \<longleftrightarrow>
     t_bookings (sys_db s) = bs @ concat (map (\<lambda>m. w_bookings (snd m)) cs) \<and> distinct (map fst cs)
     \<and> (\<forall>t x. sys_status s t = Committed x \<longrightarrow> t \<in> fst ` set cs)
     \<and> (\<forall>m \<in> set cs. \<exists>x. sys_status s (fst m) = Committed x \<and> Q (fst m) x (snd m))"

lemma exec_commits:
  assumes "tx_exec env t s = Some s'"
  obtains (ends) x where "sys_status s t = Running (Return x)" "s' = commit t x s"
    | (goes_on) "sys_db s' = sys_db s" "\<And>u x. sys_status s' u = Committed x \<longleftrightarrow> sys_status s u = Committed x"
proof -
  from assms obtain p where p: "sys_status s t = Running p" by (auto simp: tx_exec_def split: status.splits)
  show thesis
  proof (cases "\<exists>x. p = Return x")
    case True
    with assms p ends show thesis by (auto simp: tx_exec_def)
  next
    case False
    have "sys_db s' = sys_db s" and "\<And>u x. sys_status s' u = Committed x \<longleftrightarrow> sys_status s u = Committed x"
      using assms p False
      by (auto simp: tx_exec_def Let_def goto_def lock_def put_def finish_def
          split: tx.splits option.splits if_splits)
    with goes_on show thesis by blast
  qed
qed

lemma commit_log_same:
  assumes "commit_log Q bs s cs" "t_bookings (sys_db s') = t_bookings (sys_db s)"
    and "\<And>u x. sys_status s' u = Committed x \<longleftrightarrow> sys_status s u = Committed x"
  shows "commit_log Q bs s' cs"
  using assms by (simp add: commit_log_def)

lemma commit_log_commit:
  assumes cs: "commit_log Q bs s cs" and run: "sys_status s t = Running (Return x)"
    and q: "Q t x (sys_writes s t)"
  shows "commit_log Q bs (commit t x s) (cs @ [(t, sys_writes s t)])"
proof -
  have new: "t \<notin> fst ` set cs" using cs run by (auto simp: commit_log_def)
  have st: "sys_status (commit t x s) = (sys_status s)(t := Committed x)" by (simp add: commit_def finish_def)
  have "t_bookings (sys_db (commit t x s)) = t_bookings (sys_db s) @ w_bookings (sys_writes s t)"
    by (simp add: commit_def publish_writes_def)
  with cs q new show ?thesis unfolding commit_log_def st by force
qed

lemma commit_log_step:
  assumes step: "sys_step s s'" and inv: "sys_inv X Q m s" and cs: "commit_log Q bs s cs"
  shows "\<exists>cs'. commit_log Q bs s' cs'"
  using step
proof cases
  case (step_exec env t)
  from step_exec show ?thesis
  proof (cases rule: exec_commits)
    case (ends x)
    have "Q t x (sys_writes s t)" by (rule running_safe [OF inv ends(1)]) simp
    from commit_log_commit [OF cs ends(1) this] show ?thesis unfolding ends(2) by blast
  next
    case goes_on
    with commit_log_same [OF cs, of s'] show ?thesis by auto
  qed
next
  case (step_crash t p)
  then have "commit_log Q bs s' cs" by (intro commit_log_same [OF cs]) (simp_all add: finish_def)
  then show ?thesis ..
next
  case (step_create r)
  then have "commit_log Q bs s' cs" by (intro commit_log_same [OF cs]) simp_all
  then show ?thesis ..
qed

subsection \<open>How a transaction may fail\<close>

text \<open>Every exception the body can throw satisfies \<open>ok\<close>, as long as the event \<open>e\<close> exists.\<close>

primrec throws_only :: "(err \<Rightarrow> bool) \<Rightarrow> uuid \<Rightarrow> 'a tx \<Rightarrow> bool" where
  "throws_only ok e (Return x) = True"
| "throws_only ok e (Throw x) = ok x"
| "throws_only ok e (FindEvent l e' k) = (\<forall>r. (e' = e \<longrightarrow> r \<noteq> None) \<longrightarrow> throws_only ok e (k r))"
| "throws_only ok e (UpdateEvent e' c f k) = (\<forall>n. throws_only ok e (k n))"
| "throws_only ok e (SaveBooking b k) = (\<forall>r. throws_only ok e (k r))"
| "throws_only ok e (SaveOutbox b k) = (\<forall>r. throws_only ok e (k r))"

lemma throws_only_bind:
  "throws_only ok e p \<Longrightarrow> (\<And>x. throws_only ok e (g x)) \<Longrightarrow> throws_only ok e (tx_bind p g)"
  by (induction p) auto

text \<open>Transaction \<open>t\<close> has failed, if it has, as its body allows.\<close>

definition fails_as :: "(err \<Rightarrow> bool) \<Rightarrow> uuid \<Rightarrow> 'a status \<Rightarrow> bool" where
  "fails_as ok e st = (case st of Running p \<Rightarrow> throws_only ok e p | Aborted x \<Rightarrow> ok x | _ \<Rightarrow> True)"

lemma seen_exists: "find_event e (sys_db s) \<noteq> None \<Longrightarrow> seen_event s t e \<noteq> None"
  by (auto simp: seen_event_def split: option.splits)

lemma exec_fails_as:
  assumes step: "tx_exec env t s = Some s'" and ex: "find_event e (sys_db s) \<noteq> None"
    and all: "\<And>u. fails_as ok e (sys_status s u)"
  shows "fails_as ok e (sys_status s' u)"
proof -
  from step obtain p where p: "sys_status s t = Running p" by (auto simp: tx_exec_def split: status.splits)
  with all [of t] have body: "throws_only ok e p" by (simp add: fails_as_def)
  have "fails_as ok e (sys_status s' t)"
    using step p body seen_exists [OF ex, of t]
    by (auto simp: tx_exec_def Let_def goto_def finish_def commit_def fails_as_def lock_def put_def
        split: tx.splits option.splits if_splits)
  moreover have "sys_status s' u = sys_status s u" if "u \<noteq> t"
    using step p that
    by (auto simp: tx_exec_def Let_def goto_def finish_def commit_def lock_def put_def
        split: tx.splits option.splits if_splits)
  ultimately show ?thesis using all [of u] by (cases "u = t") simp_all
qed

lemma step_fails_as:
  assumes step: "sys_step s s'" and ex: "find_event e (sys_db s) \<noteq> None"
    and all: "\<And>u. fails_as ok e (sys_status s u)"
  shows "fails_as ok e (sys_status s' u)"
  using step
proof cases
  case (step_exec env t)
  from exec_fails_as [OF this ex all] show ?thesis .
next
  case (step_crash t p)
  with all [of u] show ?thesis by (simp add: finish_def fails_as_def)
next
  case (step_create r)
  with all [of u] show ?thesis by simp
qed

text \<open>Events are never removed, and keep their size.\<close>

lemma step_keeps_event:
  assumes step: "sys_step s s'" and inv: "sys_inv X Q m s" and ex: "find_event e (sys_db s) = Some r"
  shows "\<exists>r'. find_event e (sys_db s') = Some r' \<and> ev_totalSeats r' = ev_totalSeats r"
  using step
proof cases
  case (step_exec env t)
  from step_exec show ?thesis
  proof (cases rule: exec_commits)
    case (ends x)
    have own: "own_writes_ok s t" and bal: "balanced m (held s t) (sys_writes s t)"
      by (rule running_safe [OF inv ends(1)], simp)+
    then have "\<And>e r. w_events (sys_writes s t) e = Some r \<Longrightarrow> ev_id r = e" by (simp add: own_writes_ok_def)
    then have "find_event e (publish_writes (sys_writes s t) (sys_db s)) = Some (orElse (w_events (sys_writes s t) e) r)"
      using ex by (simp add: find_publish)
    with balanced_row [OF bal own refl ex] show ?thesis by (simp add: ends(2) commit_def)
  next
    case goes_on
    with ex show ?thesis by simp
  qed
next
  case (step_crash t p)
  with ex show ?thesis by simp
next
  case (step_create r)
  with ex show ?thesis by (auto simp: find_event_append)
qed

text \<open>All of it, in every reachable state.\<close>

context tx_client
begin

lemma reachable_commit_log:
  assumes ok: "\<And>t. ok (reqs t)" and d: "db_inv matched d"
    and steps: "sys_steps (open_sys (\<lambda>t. body (reqs t)) d) s"
  shows "\<exists>cs. commit_log (\<lambda>t. answers (reqs t)) (t_bookings d) s cs"
  using steps
proof (induction "open_sys (\<lambda>t. body (reqs t)) d" s rule: sys_steps.induct)
  case steps_refl
  have "commit_log (\<lambda>t. answers (reqs t)) (t_bookings d) (open_sys (\<lambda>t. body (reqs t)) d) []"
    by (simp add: commit_log_def open_sys_def)
  then show ?case ..
next
  case (steps_more s s')
  with commit_log_step [OF steps_more(3) reachable_inv [OF ok d steps_more(1)]] show ?case by blast
qed

lemma reachable_event:
  assumes ok: "\<And>t. ok (reqs t)" and d: "db_inv matched d" and e: "find_event e d = Some r"
    and steps: "sys_steps (open_sys (\<lambda>t. body (reqs t)) d) s"
  shows "\<exists>r'. find_event e (sys_db s) = Some r' \<and> ev_totalSeats r' = ev_totalSeats r"
  using steps
proof (induction "open_sys (\<lambda>t. body (reqs t)) d" s rule: sys_steps.induct)
  case steps_refl
  with e show ?case by (simp add: open_sys_def)
next
  case (steps_more s s')
  with step_keeps_event [OF steps_more(3) reachable_inv [OF ok d steps_more(1)]] show ?case by fastforce
qed

lemma reachable_fails_as:
  assumes ok: "\<And>t. ok (reqs t)" and d: "db_inv matched d" and e: "find_event e d = Some r"
    and bodies: "\<And>t. throws_only allowed e (body (reqs t))"
    and steps: "sys_steps (open_sys (\<lambda>t. body (reqs t)) d) s"
  shows "fails_as allowed e (sys_status s t)"
  using steps
proof (induction "open_sys (\<lambda>t. body (reqs t)) d" s arbitrary: t rule: sys_steps.induct)
  case steps_refl
  with bodies show ?case by (simp add: open_sys_def fails_as_def)
next
  case (steps_more s s')
  have "find_event e (sys_db s) \<noteq> None" using reachable_event [OF ok d e steps_more(1)] by auto
  from step_fails_as [OF steps_more(3) this] steps_more(2) show ?case by blast
qed

end

subsection \<open>Requests for one seat each\<close>

lemma pessimistic_throws:
  assumes "booking_lockStrategy (fst q) = Pessimistic" and "bq_eventId (snd q) = e"
  shows "throws_only (\<lambda>x. x = sold_out) e (book_body q)"
proof -
  have "throws_only ok e (record_booking cfg q' res)" for ok cfg q' res
    by (simp add: record_booking_def enqueue_def Let_def)
  then show ?thesis
    using assms unfolding book_body_def book_tx_def
    by (intro throws_only_bind) (auto simp: take_seats_def decrementPessimistic_def Let_def)
qed

lemma sold_of_log:
  "\<forall>m \<in> set cs. \<exists>b. w_bookings (snd m) = [b] \<and> bk_eventId b = e \<and> bk_quantity b = 1 \<and> bk_status b = Confirmed \<Longrightarrow>
   sold e (concat (map (\<lambda>m. w_bookings (snd m)) cs)) = int (length cs)"
  by (induction cs) (auto simp: sold_Cons)

definition confirmed_requests :: "'a sys \<Rightarrow> nat set" where
  "confirmed_requests s = {t. \<exists>x. sys_status s t = Committed x}"

text \<open>The seats of the bookings that a run has added are as many as the requests it has confirmed.\<close>

lemma one_seat_sales:
  assumes d: "ledger_ok d" and locked: "\<And>t. booking_lockStrategy (fst (reqs t)) \<noteq> NoLock"
    and one: "\<And>t. bq_eventId (snd (reqs t)) = e \<and> cb_quantity (bq_dto (snd (reqs t))) = 1"
    and steps: "sys_steps (serving reqs d) s"
  shows "finite (confirmed_requests s)"
    and "sold e (t_bookings (sys_db s)) = sold e (t_bookings d) + int (card (confirmed_requests s))"
proof -
  from bookings.reachable_commit_log [of reqs False d s] locked steps
  obtain cs where cs: "commit_log (\<lambda>t. book_answers (reqs t)) (t_bookings d) s cs"
    by (auto simp: serving_def locked_strategy_def ledger_inv [OF d])
  then have ids: "fst ` set cs = confirmed_requests s" and dist: "distinct (map fst cs)"
    by (auto simp: commit_log_def confirmed_requests_def)
  then show "finite (confirmed_requests s)" by (metis finite_imageI finite_set)
  have "card (confirmed_requests s) = length cs"
    using ids distinct_card [OF dist] by simp
  moreover have "\<exists>b. w_bookings (snd m) = [b] \<and> bk_eventId b = e \<and> bk_quantity b = 1 \<and> bk_status b = Confirmed"
    if "m \<in> set cs" for m
    using cs that one [of "fst m"] unfolding commit_log_def by (fastforce simp: book_answers_def is_booking_of_def)
  ultimately show "sold e (t_bookings (sys_db s)) = sold e (t_bookings d) + int (card (confirmed_requests s))"
    using cs sold_of_log [of cs e] by (simp add: commit_log_def)
qed

text \<open>
  C2. A race sells exactly the seats there are. Of \<open>n\<close> simultaneous requests for one seat each of an event,
  under the pessimistic strategy and however they interleave, as many are confirmed as there were seats left, or
  all of them if there were enough; and all the others are answered \<open>Sold out\<close>, once none is under way and
  none was lost. Not one seat too many is sold, and not one too few.
\<close>

theorem race_sells_exactly:
  assumes "ledger_ok d" and "find_event e d = Some r"
    and "\<And>t. booking_lockStrategy (fst (reqs t)) = Pessimistic"
    and "\<And>t. bq_eventId (snd (reqs t)) = e \<and> cb_quantity (bq_dto (snd (reqs t))) = 1"
    and "sys_steps (serving reqs d) s"
    and "\<And>t. t < n \<Longrightarrow> \<not> is_running s t \<and> sys_status s t \<noteq> Crashed" and "\<And>t. n \<le> t \<Longrightarrow> is_running s t"
  shows "card (confirmed_requests s) = min n (nat (ev_availableSeats r))
    \<and> {t. sys_status s t = Aborted sold_out} = {..<n} - confirmed_requests s"
proof -
  have locked: "booking_lockStrategy (fst (reqs t)) \<noteq> NoLock" for t using assms(3) [of t] by simp
  have fails: "fails_as (\<lambda>x. x = sold_out) e (sys_status s t)" for t
    using bookings.reachable_fails_as [of reqs False d e r "\<lambda>x. x = sold_out" s t] assms locked
    by (auto simp: serving_def locked_strategy_def ledger_inv intro: pessimistic_throws)
  have sub: "confirmed_requests s \<subseteq> {..<n}"
    using assms(7) by (auto simp: confirmed_requests_def is_running_iff) (metis not_less status.distinct(1))
  have others: "sys_status s t = Aborted sold_out" if "t < n" "t \<notin> confirmed_requests s" for t
    using assms(6) [OF that(1)] that(2) fails [of t]
    by (cases "sys_status s t") (auto simp: confirmed_requests_def is_running_def fails_as_def)
  have ends: "{t. sys_status s t = Aborted sold_out} = {..<n} - confirmed_requests s"
    using others assms(7) by (auto simp: confirmed_requests_def is_running_iff) (metis not_less status.distinct(3))
  note sales = one_seat_sales [OF assms(1) locked assms(4,5)]
  from bookings.reachable_event [of reqs False d e r s] bookings.reachable_ledger [of reqs False d s] assms locked
  obtain r' where r': "find_event e (sys_db s) = Some r'" "ev_totalSeats r' = ev_totalSeats r" and "ledger_ok (sys_db s)"
    by (auto simp: serving_def locked_strategy_def ledger_inv)
  note now = ledger_okD [OF this(3) r'(1)] and before = ledger_okD [OF assms(1,2)]
  have le: "int (card (confirmed_requests s)) \<le> ev_availableSeats r" using now before sales(2) r'(2) by linarith
  have "card (confirmed_requests s) = n \<or> int (card (confirmed_requests s)) = ev_availableSeats r"
  proof (cases "confirmed_requests s = {..<n}")
    case False
    with sub obtain t where "t < n" "t \<notin> confirmed_requests s" by auto
    from bookings.rejected_truth [of reqs False d s t sold_out] others [OF this] assms locked
    obtain S where "knows S (sys_db s)" "book_rejects (reqs t) sold_out S"
      by (auto simp: ledger_inv serving_def locked_strategy_def)
    with assms(4) [of t] r'(1) have "ev_availableSeats r' < 1"
      by (fastforce simp: book_rejects_def sold_out_def contention_def event_not_found_def knows_def)
    with now before sales(2) r'(2) show ?thesis by linarith
  qed simp
  moreover have "card (confirmed_requests s) \<le> n" using card_mono [OF _ sub] by simp
  ultimately have "card (confirmed_requests s) = min n (nat (ev_availableSeats r))" using le by linarith
  with ends show ?thesis by blast
qed

text \<open>One seat, two buyers who both lock: one is confirmed, the other is told.\<close>

definition race_run :: "booked sys option" where
  "race_run = run_schedule (moves [0, 0, 0, 0, 0, 1, 1]) (serving (two_buyers Pessimistic Pessimistic) one_seat_db)"

lemma race_run_ends:
  "\<exists>s. race_run = Some s \<and> committed_to s 0 \<noteq> None \<and> aborted_with s 1 = Some sold_out
    \<and> (\<forall>t. 2 \<le> t \<longrightarrow> is_running s t)"
  by (simp add: race_run_def run_defs committed_to_def aborted_with_def sold_out_def is_running_def)

lemma race_sells_exactly_witness:
  "\<exists>s. race_run = Some s \<and> card (confirmed_requests s) = 1 \<and> {t. sys_status s t = Aborted sold_out} = {1}"
proof -
  obtain s where s: "race_run = Some s" "committed_to s 0 \<noteq> None" "aborted_with s 1 = Some sold_out"
    and rest: "\<And>t. 2 \<le> t \<Longrightarrow> is_running s t"
    using race_run_ends by blast
  have steps: "sys_steps (serving (two_buyers Pessimistic Pessimistic) one_seat_db) s"
    using s(1) unfolding race_run_def by (rule run_schedule_steps)
  obtain x where x: "sys_status s 0 = Committed x" using s(2) by (metis ended_as(1) not_None_eq)
  have y: "sys_status s 1 = Aborted sold_out" using s(3) by (simp add: ended_as(2))
  have two: "\<not> is_running s t \<and> sys_status s t \<noteq> Crashed" if "t < 2" for t
    using that x y by (auto simp: less_2_cases_iff is_running_def)
  have pess: "booking_lockStrategy (fst (two_buyers Pessimistic Pessimistic t)) = Pessimistic"
    and one: "bq_eventId (snd (two_buyers Pessimistic Pessimistic t)) = ''e1''
      \<and> cb_quantity (bq_dto (snd (two_buyers Pessimistic Pessimistic t))) = 1" for t
    by (simp_all add: two_buyers_def default_config_def buyer_def)
  have seat: "find_event ''e1'' one_seat_db = Some one_seat" by (simp add: find_event_def one_seat_db_def one_seat_def)
  from race_sells_exactly [OF one_seat_ledger seat pess one steps two rest]
  have race: "card (confirmed_requests s) = min 2 (nat (ev_availableSeats one_seat))
    \<and> {t. sys_status s t = Aborted sold_out} = {..<2} - confirmed_requests s" by blast
  have "{..<2} - confirmed_requests s = {1}"
    using x y by (auto simp: confirmed_requests_def less_2_cases_iff)
  with race s(1) show ?thesis by (auto simp: one_seat_def)
qed

end
