(* ===== verification/IdempotencyRace.thy ===== *)
theory IdempotencyRace
  imports Idempotency
begin

section \<open>Requests under one key, interleaved\<close>

text \<open>
  Requests \<open>0, 1, 2, ...\<close> go through the interceptor statement by statement: insert, read (for those that
  lost), handler, then \<open>complete\<close> or \<open>release\<close>. A step is marked when it removes rows: a handler
  that failed releases its key, and the cleanup deletes expired ones.
\<close>

datatype idem_phase = Arrived | Reading | Handling | Ended

record idem_sys =
  is_db :: db
  is_phase :: "nat \<Rightarrow> idem_phase"
  is_ran :: "nat set"
  is_now :: ms

definition go :: "nat \<Rightarrow> idem_phase \<Rightarrow> db \<Rightarrow> idem_sys \<Rightarrow> idem_sys" where
  "go i p d x = x\<lparr>is_db := d, is_phase := (is_phase x)(i := p),
     is_ran := (if p = Handling then insert i (is_ran x) else is_ran x)\<rparr>"

inductive idem_step :: "(nat \<Rightarrow> idem_request) \<Rightarrow> bool \<Rightarrow> idem_sys \<Rightarrow> idem_sys \<Rightarrow> bool"
  for rq :: "nat \<Rightarrow> idem_request" where
  is_insert: "is_phase x i = Arrived \<Longrightarrow> claim_insert (rq i) (is_now x) (is_db x) = Inr (won, d) \<Longrightarrow>
     idem_step rq False x (go i (if won then Handling else Reading) d x)"
| is_insert_fails: "is_phase x i = Arrived \<Longrightarrow> claim_insert (rq i) (is_now x) (is_db x) = Inl e \<Longrightarrow>
     idem_step rq False x (go i Ended (is_db x) x)"
| is_read: "is_phase x i = Reading \<Longrightarrow>
     idem_step rq False x (go i (if claim_read (rq i) (is_db x) = Inr Proceed then Handling else Ended) (is_db x) x)"
| is_complete: "is_phase x i = Handling \<Longrightarrow>
     idem_step rq False x (go i Ended (complete_key (iq_key (rq i)) st body (is_db x)) x)"
| is_crash: "is_phase x i \<noteq> Ended \<Longrightarrow> idem_step rq False x (go i Ended (is_db x) x)"
| is_clock: "is_now x \<le> t \<Longrightarrow> idem_step rq False x (x\<lparr>is_now := t\<rparr>)"
| is_failed: "is_phase x i = Handling \<Longrightarrow>
     idem_step rq True x (go i Ended (release_key (iq_key (rq i)) (is_db x)) x)"
| is_sweep: "idem_step rq True x (x\<lparr>is_db := delete_expired (is_now x) (is_db x)\<rparr>)"

inductive idem_steps :: "(nat \<Rightarrow> idem_request) \<Rightarrow> bool \<Rightarrow> idem_sys \<Rightarrow> idem_sys \<Rightarrow> bool"
  for rq :: "nat \<Rightarrow> idem_request" where
  iss_refl: "idem_steps rq False x x"
| iss_more: "idem_steps rq a x y \<Longrightarrow> idem_step rq b y z \<Longrightarrow> idem_steps rq (a \<or> b) x z"

definition idem_start :: "db \<Rightarrow> ms \<Rightarrow> idem_sys" where
  "idem_start d now = \<lparr>is_db = d, is_phase = (\<lambda>_. Arrived), is_ran = {}, is_now = now\<rparr>"

abbreviation keys_of :: "db \<Rightarrow> string set" where
  "keys_of d \<equiv> ik_key ` set (t_idempotency d)"

definition idem_inv :: "(nat \<Rightarrow> idem_request) \<Rightarrow> idem_sys \<Rightarrow> bool" where
  "idem_inv rq x \<longleftrightarrow> inj_on (\<lambda>i. iq_key (rq i)) (is_ran x)
     \<and> (\<forall>i. (i \<in> is_ran x \<or> is_phase x i = Reading) \<longrightarrow> iq_key (rq i) \<in> keys_of (is_db x))
     \<and> (\<forall>i. is_phase x i = Arrived \<longrightarrow> i \<notin> is_ran x)"

lemma keys_complete: "keys_of (complete_key k st body d) = keys_of d"
proof -
  have "map ik_key (t_idempotency (complete_key k st body d)) = map ik_key (t_idempotency d)"
    by (simp add: complete_key_def map_upd_where)
  then show ?thesis by (metis set_map)
qed

lemma claim_row_key: "ik_key (claim_row q t) = iq_key q"
  by (simp add: claim_row_def)

lemma claim_insert_won: "claim_insert q now d = Inr (True, d') \<Longrightarrow>
    iq_key q \<notin> keys_of d \<and> keys_of d' = insert (iq_key q) (keys_of d)"
  using idem_keys.claim_True [of "claim_row q now" "t_idempotency d"]
  by (auto simp: claim_insert_def claim_row_def split: if_splits prod.splits)

lemma claim_insert_lost: "claim_insert q now d = Inr (False, d') \<Longrightarrow>
    iq_key q \<in> keys_of d \<and> keys_of d' = keys_of d"
  using idem_keys.claim_False [of "claim_row q now" "t_idempotency d"]
  by (auto simp: claim_insert_def claim_row_def split: if_splits prod.splits)

lemma idem_step_inv: "idem_step rq b x y \<Longrightarrow> \<not> b \<Longrightarrow> idem_inv rq x \<Longrightarrow> idem_inv rq y"
proof (induction rule: idem_step.induct)
  case (is_insert x i won d)
  show ?case
  proof (cases won)
    case True
    have won: "iq_key (rq i) \<notin> keys_of (is_db x) \<and> keys_of d = insert (iq_key (rq i)) (keys_of (is_db x))"
      using is_insert(2) True by (intro claim_insert_won) simp
    have "iq_key (rq j) \<noteq> iq_key (rq i)" if "j \<in> is_ran x" for j
      using that won is_insert(4) unfolding idem_inv_def by metis
    then have "inj_on (\<lambda>i. iq_key (rq i)) (insert i (is_ran x))"
      using is_insert(4) by (auto simp: idem_inv_def inj_on_def)
    then show ?thesis using True won is_insert(4) by (auto simp: idem_inv_def go_def)
  next
    case False
    then have "iq_key (rq i) \<in> keys_of (is_db x) \<and> keys_of d = keys_of (is_db x)"
      using is_insert(2) by (intro claim_insert_lost) simp
    then show ?thesis using False is_insert(4) by (auto simp: idem_inv_def go_def)
  qed
next
  case (is_read x i)
  then have "find_key (iq_key (rq i)) (is_db x) \<noteq> None" by (auto simp: idem_inv_def find_key_None)
  then have "claim_read (rq i) (is_db x) \<noteq> Inr Proceed" by (auto simp: claim_read_def split: if_splits)
  then show ?case using is_read(3) by (auto simp: idem_inv_def go_def)
qed (auto simp: idem_inv_def go_def keys_complete)

lemma idem_steps_inv: "idem_steps rq b x y \<Longrightarrow> \<not> b \<Longrightarrow> idem_inv rq x \<Longrightarrow> idem_inv rq y"
  by (induction rule: idem_steps.induct) (auto intro: idem_step_inv)

text \<open>
  C19. One handler per key: however the requests' inserts, reads, handlers and completions interleave,
  requests crashing included, as long as no row is removed at most one request of each key ever
  reaches the handler, whatever the table held before.
\<close>

theorem one_handler_per_key:
  assumes "idem_steps rq False (idem_start d now) x"
    and "i \<in> is_ran x" and "j \<in> is_ran x" and "iq_key (rq i) = iq_key (rq j)"
  shows "i = j"
proof -
  have "idem_inv rq (idem_start d now)" by (simp add: idem_inv_def idem_start_def)
  from idem_steps_inv [OF assms(1) _ this] have "inj_on (\<lambda>i. iq_key (rq i)) (is_ran x)"
    by (simp add: idem_inv_def)
  with assms(2-4) show ?thesis by (auto dest: inj_onD)
qed

text \<open>All requests carry the same key and the same body.\<close>

abbreviation same_request :: "nat \<Rightarrow> idem_request" where
  "same_request \<equiv> \<lambda>_. key_request ''f1''"

lemma key_request_fits: "idem_fits (claim_row (key_request ''f1'') t)"
  by (simp add: idem_fits_def claim_row_def key_request_def)

lemma one_handler_per_key_witness:
  "\<exists>x. idem_steps same_request False (idem_start empty_db 0) x \<and> 5 \<in> is_ran x \<and> 6 \<notin> is_ran x"
proof -
  let ?x = "idem_start empty_db 0"
  obtain d where ins: "claim_insert (key_request ''f1'') (is_now ?x) (is_db ?x) = Inr (True, d)"
    by (simp add: claim_insert_eq key_request_fits idem_start_def find_key_def empty_db_def)
  let ?y = "go 5 (if True then Handling else Reading) d ?x"
  have step: "idem_step same_request False ?x ?y"
    by (rule idem_step.is_insert [OF _ ins]) (simp add: idem_start_def)
  have run: "idem_steps same_request (False \<or> False) ?x ?y" by (rule iss_more [OF iss_refl step])
  have "5 \<in> is_ran ?y" by (simp add: go_def)
  then show ?thesis using run one_handler_per_key [of same_request empty_db 0 ?y 5 6] by auto
qed

text \<open>
  A key that is released between the insert and the read lets two handlers run: three retries of
  one click, the first of which fails; the second had lost its insert and now finds no row, so it
  proceeds without a claim, and the third claims the free key; both then run the handler at once, for the
  same key and body.
\<close>

theorem vanished_row_runs_two_handlers:
  "\<exists>x. idem_steps same_request True (idem_start empty_db 0) x \<and> is_phase x 1 = Handling \<and> is_phase x 2 = Handling"
proof -
  let ?q = "key_request ''f1''" and ?x0 = "idem_start empty_db 0"
  let ?d1 = "empty_db\<lparr>t_idempotency := [claim_row ?q 0]\<rparr>"
  let ?x1 = "go 0 Handling ?d1 ?x0"
  let ?x2 = "go 1 Reading ?d1 ?x1"
  let ?x3 = "go 0 Ended empty_db ?x2"
  let ?x4 = "go 1 Handling empty_db ?x3"
  let ?x5 = "go 2 Handling ?d1 ?x4"
  have free: "claim_insert ?q 0 empty_db = Inr (True, ?d1)"
    by (simp add: claim_insert_eq key_request_fits find_key_def empty_db_def)
  have taken: "claim_insert ?q 0 ?d1 = Inr (False, ?d1)"
    by (simp add: claim_insert_eq key_request_fits find_key_def claim_row_key)
  have gone: "release_key (iq_key ?q) ?d1 = empty_db"
    by (simp add: release_key_def release_row_def del_where_def claim_row_key empty_db_def)
  have vanished: "claim_read ?q empty_db = Inr Proceed"
    by (simp add: claim_read_def find_key_def empty_db_def)
  have s1: "idem_step same_request False ?x0 ?x1"
    using idem_step.is_insert [of ?x0 0 same_request True ?d1] free by (simp add: idem_start_def)
  have s2: "idem_step same_request False ?x1 ?x2"
    using idem_step.is_insert [of ?x1 1 same_request False ?d1] taken by (simp add: idem_start_def go_def)
  have s3: "idem_step same_request True ?x2 ?x3"
    using idem_step.is_failed [of ?x2 0 same_request] gone by (simp add: idem_start_def go_def)
  have s4: "idem_step same_request False ?x3 ?x4"
    using idem_step.is_read [of ?x3 1 same_request] vanished by (simp add: idem_start_def go_def)
  have s5: "idem_step same_request False ?x4 ?x5"
    using idem_step.is_insert [of ?x4 2 same_request True ?d1] free by (simp add: idem_start_def go_def)
  have "idem_steps same_request (((((False \<or> False) \<or> False) \<or> True) \<or> False) \<or> False) ?x0 ?x5"
    by (rule iss_more [OF iss_more [OF iss_more [OF iss_more [OF iss_more [OF iss_refl s1] s2] s3] s4] s5])
  then show ?thesis by (intro exI [of _ ?x5]) (simp add: go_def)
qed

subsection \<open>The cleanup\<close>

text \<open>
  The cleanup only removes what has expired, and only under the lease: a sweep leaves every row
  whose expiry is not past exactly as it was, removes every other row when it has the lock, and does
  nothing to the table when another replica holds the lock or Redis is unreachable.
\<close>

theorem sweep_removes_only_expired:
  "t_idempotency (wd_db (snd (sweepExpiredKeys S uuid w))) =
     (if rd_up S (wd_redis w) \<and> fst (rd_set_px_nx S ''cron:idempotency-cleanup'' uuid 60000 (wd_redis w))
      then filter (\<lambda>r. wd_now w \<le> ik_expiresAt r) (t_idempotency (wd_db w))
      else t_idempotency (wd_db w))"
  by (auto simp: sweepExpiredKeys_def withLock_def acquireLock_def releaseLock_def delete_expired_def
      del_where_def not_less split: prod.splits intro!: filter_cong)

end
