(* ===== verification/Notifications.thy ===== *)
theory Notifications
  imports ClaimStore Kafka Samples Backoff
begin

section \<open>Notifications: claiming, delivering, retrying\<close>

text \<open>
  \<open>notifications/notifications.service.ts\<close> (\<open>handle\<close>, \<open>deliver\<close>, \<open>stats\<close>) and
  \<open>notifications/notifications.consumer.ts\<close> (\<open>onMessage\<close>, \<open>waitUntilDue\<close>,
  \<open>scheduleRetryOrDeadLetter\<close>, \<open>deadLetter\<close>). What \<open>Math.random()\<close> returns is an argument;
  \<open>toNumber\<close> is JavaScript's \<open>Number\<close> on header text. A call that returns normally acknowledges its
  Kafka message, one that throws has it delivered again.
\<close>

record incoming =
  in_messageId :: string
  in_eventType :: string
  in_traceId :: "string option"
  in_payload :: jsval

datatype handled = IsSent | IsDuplicate

definition processed_key :: "processed_row \<Rightarrow> string \<times> string" where
  "processed_key r = (pm_messageId r, pm_consumerGroup r)"

definition processed_fits :: "processed_row \<Rightarrow> bool" where
  "processed_fits r \<longleftrightarrow> length (pm_messageId r) \<le> 200 \<and> length (pm_consumerGroup r) \<le> 200
     \<and> length (pm_eventType r) \<le> 100"

definition processed_of :: "config \<Rightarrow> incoming \<Rightarrow> ms \<Rightarrow> processed_row" where
  "processed_of cfg msg now = \<lparr>pm_messageId = in_messageId msg, pm_consumerGroup = kafka_consumerGroup cfg,
     pm_eventType = in_eventType msg, pm_processedAt = now\<rparr>"

definition insert_processed :: "processed_row \<Rightarrow> processed_row list \<Rightarrow> bool \<times> processed_row list" where
  "insert_processed r t = insert_ignore processed_key r t"

definition delete_processed :: "string \<times> string \<Rightarrow> processed_row list \<Rightarrow> processed_row list" where
  "delete_processed k t = del_where (\<lambda>r. processed_key r = k) t"

text \<open>
  \<open>deliver\<close>: the simulated provider. A value inside a template literal is written as \<open>text_in\<close> says.
  Reading a property of a \<open>null\<close> payload throws, in the error text as in the log line.
\<close>

fun text_in :: "jsval \<Rightarrow> string" where
  "text_in JUndef = ''undefined''"
| "text_in JNull = ''null''"
| "text_in (JBool b) = (if b then ''true'' else ''false'')"
| "text_in (JNum r) = num_str r"
| "text_in (JStr s) = s"
| "text_in (JArr vs) = join_with '','' (map (\<lambda>v. if v = JUndef \<or> v = JNull then [] else text_in v) vs)"
| "text_in (JObj fs) = ''[object Object]''"

definition deliver :: "config \<Rightarrow> incoming \<Rightarrow> rat \<Rightarrow> err + unit" where
  "deliver cfg msg rnd =
     (if in_payload msg = JNull then Inl (JsError ''Cannot read properties of null'')
      else if 0 < notifications_failureRate cfg \<and> rnd < notifications_failureRate cfg
      then Inl (JsError (''simulated provider failure for booking '' @ text_in (js_get ''bookingId'' (in_payload msg))))
      else Inr ())"

definition count_notification :: "string \<Rightarrow> ('s, 'k) world \<Rightarrow> ('s, 'k) world" where
  "count_notification result w =
     upd_metrics (\<lambda>m. m\<lparr>notificationsProcessedTotal := inc1 result (notificationsProcessedTotal m)\<rparr>) w"

text \<open>\<open>released\<close> says whether the delete that gives the claim back succeeds; its failure is swallowed.\<close>

definition handle :: "config \<Rightarrow> incoming \<Rightarrow> rat \<Rightarrow> bool \<Rightarrow> ('s, 'k) world
    \<Rightarrow> (err + handled) \<times> ('s, 'k) world" where
  "handle cfg msg rnd released w =
     (let r = processed_of cfg msg (wd_now w) in
      if \<not> processed_fits r then (Inl QueryFailedError, w)
      else case insert_processed r (t_processed (wd_db w)) of
        (False, _) \<Rightarrow> (Inr IsDuplicate, count_notification ''duplicate'' w)
      | (True, t) \<Rightarrow>
          let w' = w\<lparr>wd_db := (wd_db w)\<lparr>t_processed := t\<rparr>\<rparr> in
          case deliver cfg msg rnd of
            Inr _ \<Rightarrow> (Inr IsSent, count_notification ''sent'' w')
          | Inl e \<Rightarrow> (Inl e, if released
              then w'\<lparr>wd_db := (wd_db w')\<lparr>t_processed := delete_processed (processed_key r) (t_processed (wd_db w'))\<rparr>\<rparr>
              else w'))"

record notification_stats =
  ns_processed :: nat
  ns_consumerGroup :: string

definition notification_stats_of :: "config \<Rightarrow> db \<Rightarrow> notification_stats" where
  "notification_stats_of cfg d =
     \<lparr>ns_processed = affected (\<lambda>r. pm_consumerGroup r = kafka_consumerGroup cfg) (t_processed d),
      ns_consumerGroup = kafka_consumerGroup cfg\<rparr>"

subsection \<open>Exactly one effect per message\<close>

interpretation processed: claim_store insert_processed delete_processed processed_key "\<lambda>t. processed_key ` set t"
proof unfold_locales
  fix r :: processed_row and t k
  show "fst (insert_processed r t) \<longleftrightarrow> processed_key r \<notin> processed_key ` set t" by (simp add: insert_processed_def)
  show "processed_key ` set (snd (insert_processed r t)) = insert (processed_key r) (processed_key ` set t)"
    by (simp add: insert_processed_def)
  show "processed_key ` set (delete_processed k t) = processed_key ` set t - {k}" by (auto simp: delete_processed_def)
qed


text \<open>
  \<open>handle\<close> is one worker's turn: a call does what claiming, delivering and releasing do in that
  interleaving; it answers \<open>sent\<close> exactly when the work of the message is finished once more,
  \<open>duplicate\<close> exactly when the message was already claimed, and when it throws with the claim given
  back the table is as before for that message, so that a retry is not taken for a duplicate.
\<close>

theorem handle_is_one_turn:
  assumes "handle cfg msg rnd released w = (answer, w')" and "wk_active y i = None"
    and "wk_store y = t_processed (wd_db w)" and "processed_fits (processed_of cfg msg (wd_now w))"
  defines "k \<equiv> (in_messageId msg, kafka_consumerGroup cfg)"
  shows "\<exists>y'. work_steps insert_processed delete_processed processed_key y y'
    \<and> wk_store y' = t_processed (wd_db w') \<and> wk_active y' = wk_active y
    \<and> wk_done y' = (if answer = Inr IsSent then inc1 k (wk_done y) else wk_done y)
    \<and> (answer = Inr IsDuplicate \<longleftrightarrow> k \<in> processed_key ` set (t_processed (wd_db w)))
    \<and> (thrown answer \<and> released \<longrightarrow> k \<notin> processed_key ` set (t_processed (wd_db w')))"
proof -
  let ?r = "processed_of cfg msg (wd_now w)"
  have key: "processed_key ?r = k" by (simp add: k_def processed_key_def processed_of_def)
  obtain won t where ins: "insert_processed ?r (t_processed (wd_db w)) = (won, t)" by fastforce
  show ?thesis
  proof (cases won)
    case False
    with ins have dup: "insert_processed ?r (wk_store y) = (False, t)" using assms(3) by simp
    have same: "t = t_processed (wd_db w)"
      using ins False by (auto simp: insert_processed_def insert_ignore_def split: if_splits)
    have "work_steps insert_processed delete_processed processed_key y (y\<lparr>wk_store := t\<rparr>)"
      by (rule wks_more [OF wks_refl wk_duplicate [where claim = insert_processed and r = ?r and y = y, OF dup]])
    with assms(1,3,4) ins False same processed.claim_False [OF dup]
    show ?thesis
      by (intro exI [of _ "y\<lparr>wk_store := t\<rparr>"])
         (auto simp: handle_def Let_def count_notification_def key)
  next
    case True
    let ?y1 = "y\<lparr>wk_store := t, wk_active := (wk_active y)(i \<mapsto> k)\<rparr>"
    have ins1: "insert_processed ?r (wk_store y) = (True, t)" using ins True assms(3) by simp
    have y1: "work_steps insert_processed delete_processed processed_key y ?y1"
      using wks_more [OF wks_refl wk_claim [where claim = insert_processed and release = delete_processed and key = processed_key and r = ?r and y = y, OF assms(2) ins1]] by (simp add: key)
    have restored: "(wk_active y)(i := None) = wk_active y" using assms(2) by auto
    have new: "k \<notin> processed_key ` set (t_processed (wd_db w))"
      using processed.claim_True [OF ins1] assms(3) key by simp
    show ?thesis
    proof (cases "deliver cfg msg rnd")
      case (Inr u)
      let ?y2 = "?y1\<lparr>wk_active := (wk_active ?y1)(i := None), wk_done := inc1 k (wk_done ?y1)\<rparr>"
      have "work_steps insert_processed delete_processed processed_key y ?y2"
        by (rule wks_more [OF y1 wk_finish]) simp
      with assms(1,4) ins True Inr restored new show ?thesis
        by (intro exI [of _ ?y2]) (auto simp: handle_def Let_def count_notification_def)
    next
      case (Inl e)
      let ?y2 = "?y1\<lparr>wk_store := delete_processed k t, wk_active := (wk_active ?y1)(i := None)\<rparr>"
      let ?y3 = "?y1\<lparr>wk_active := (wk_active ?y1)(i := None)\<rparr>"
      have y2: "work_steps insert_processed delete_processed processed_key y ?y2"
        using wks_more [OF y1 wk_fail [of ?y1 i k insert_processed delete_processed processed_key]] by simp
      have y3: "work_steps insert_processed delete_processed processed_key y ?y3"
        by (rule wks_more [OF y1 wk_lose]) simp
      have gone: "k \<notin> processed_key ` set (delete_processed k t)" by (auto simp: delete_processed_def)
      show ?thesis
      proof (cases released)
        case rel: True
        from assms(1,4) ins True Inl y2 restored new gone rel show ?thesis
          by (intro exI [of _ ?y2]) (auto simp: handle_def Let_def key)
      next
        case False
        with assms(1,4) ins True Inl y3 restored new show ?thesis
          by (intro exI [of _ ?y3]) (auto simp: handle_def Let_def key)
      qed
    qed
  qed
qed

text \<open>
  A claim that is left behind suppresses its message for good: once a row of the message is in the
  table without its email having been sent (the process died between the insert and the delivery, or
  giving the claim back failed), every later copy is answered \<open>duplicate\<close> and nothing is sent, no
  matter how often the message is delivered again.
\<close>

theorem stale_claim_suppresses_message:
  assumes "(in_messageId msg, kafka_consumerGroup cfg) \<in> processed_key ` set (t_processed (wd_db w))"
    and "processed_fits (processed_of cfg msg (wd_now w))"
  shows "fst (handle cfg msg rnd released w) = Inr IsDuplicate
    \<and> wd_db (snd (handle cfg msg rnd released w)) = wd_db w"
proof -
  obtain won t where ins: "insert_processed (processed_of cfg msg (wd_now w)) (t_processed (wd_db w)) = (won, t)"
    by fastforce
  then have "\<not> won" using processed.claim_wins [of "processed_of cfg msg (wd_now w)" "t_processed (wd_db w)"] assms(1)
    by (simp add: processed_key_def processed_of_def)
  with ins assms(2) show ?thesis by (simp add: handle_def Let_def count_notification_def)
qed

subsection \<open>Concrete runs\<close>

definition sample_incoming :: incoming where
  "sample_incoming = \<lparr>in_messageId = ''m1'', in_eventType = ''booking.confirmed'', in_traceId = None,
     in_payload = JObj [(''bookingId'', JStr ''b1'')]\<rparr>"

lemma sample_fits: "processed_fits (processed_of (default_config Pessimistic) sample_incoming t)"
  by (simp add: processed_fits_def processed_of_def sample_incoming_def default_config_def)

lemma handle_is_one_turn_witness:
  "\<exists>y'. work_steps insert_processed delete_processed processed_key (work_start []) y'
     \<and> wk_done y' (''m1'', ''overbook-notifications'') = 1"
proof -
  let ?y = "work_start [] :: (processed_row list, string \<times> string) work"
  obtain answer w' where h: "handle (default_config Pessimistic) sample_incoming (1/2) True (mini_world empty_db) = (answer, w')"
    by fastforce
  have "answer = Inr IsSent"
    using h sample_fits
    by (auto simp: handle_def Let_def insert_processed_def insert_ignore_def mini_world_def empty_db_def deliver_def
        sample_incoming_def default_config_def split: if_splits)
  with handle_is_one_turn [OF h, of ?y 0] sample_fits show ?thesis
    by (auto simp: work_start_def mini_world_def empty_db_def sample_incoming_def default_config_def)
qed


lemma stale_claim_suppresses_message_witness:
  "fst (handle (default_config Pessimistic) sample_incoming 0 True (mini_world (empty_db\<lparr>t_processed :=
     [\<lparr>pm_messageId = ''m1'', pm_consumerGroup = ''overbook-notifications'', pm_eventType = ''e'', pm_processedAt = 0\<rparr>]\<rparr>)))
   = Inr IsDuplicate"
proof -
  let ?w = "mini_world (empty_db\<lparr>t_processed :=
     [\<lparr>pm_messageId = ''m1'', pm_consumerGroup = ''overbook-notifications'', pm_eventType = ''e'', pm_processedAt = 0\<rparr>]\<rparr>)"
  have "(in_messageId sample_incoming, kafka_consumerGroup (default_config Pessimistic)) \<in>
      processed_key ` set (t_processed (wd_db ?w))"
    by (simp add: mini_world_def processed_key_def sample_incoming_def default_config_def)
  from stale_claim_suppresses_message [OF this sample_fits] show ?thesis by blast
qed

end
