(* ===== verification/Consumer.thy ===== *)
theory Consumer
  imports Notifications
begin

section \<open>The notification consumer\<close>

text \<open>
  \<open>notifications/notifications.consumer.ts\<close>. Consumed messages carry headers as text; a message without
  a body stands for \<open>{}\<close>. \<open>moment\<close> collects what one call observes of its surroundings: whether the
  service is stopping (at entry and after waiting), what it sees each time round the waiting loop, the
  random draws, and what \<open>semaphore.inFlight\<close> is before the job enters the semaphore, as it starts
  and as it ends.
\<close>

definition HEARTBEAT_INTERVAL_MS :: int where
  "HEARTBEAT_INTERVAL_MS = 3000"

record consumed =
  cm_topic :: string
  cm_key :: "string option"
  cm_value :: "string option"
  cm_headers :: "string \<Rightarrow> string option"
  cm_offset :: string

record moment =
  mo_stopping :: bool
  mo_waiting :: "(bool \<times> ms) list"
  mo_stopped_waiting :: bool
  mo_failure :: rat
  mo_backoff :: rat
  mo_released :: bool
  mo_inFlight_before :: int
  mo_inFlight_running :: int
  mo_inFlight_after :: int

subsection \<open>Waiting\<close>

text \<open>
  \<open>waitUntilDue\<close>: one observation of \<open>stopping\<close> and of the clock per round. The result is the list of
  delays slept and whether the loop was left; \<open>NaN\<close> is never due, and \<open>setTimeout\<close> turns it into a
  delay of one millisecond.
\<close>

definition wait_delay :: "jsnum \<Rightarrow> ms" where
  "wait_delay remaining =
     (case remaining of Fin r \<Rightarrow> min r HEARTBEAT_INTERVAL_MS | NaN \<Rightarrow> 1 | _ \<Rightarrow> HEARTBEAT_INTERVAL_MS)"

fun waitUntilDue :: "jsnum \<Rightarrow> (bool \<times> ms) list \<Rightarrow> ms list \<times> bool" where
  "waitUntilDue retryAt [] = ([], False)"
| "waitUntilDue retryAt ((stopping, now) # later) =
     (if stopping then ([], True)
      else let remaining = js_add retryAt (- now) in
        if js_le remaining 0 then ([], True)
        else case waitUntilDue retryAt later of (ds, left) \<Rightarrow> (wait_delay remaining # ds, left))"

subsection \<open>Retry or dead letter\<close>

definition jsnum_json :: "jsnum \<Rightarrow> jsval" where
  "jsnum_json n = (case n of Fin a \<Rightarrow> JNum (of_int a) | _ \<Rightarrow> JNull)"

definition dead_letter_message :: "config \<Rightarrow> string \<Rightarrow> string option \<Rightarrow> string \<Rightarrow> jsnum \<Rightarrow> string \<Rightarrow> ms \<Rightarrow> outgoing" where
  "dead_letter_message cfg topic key body attempts reason now =
     \<lparr>om_topic = topics_dlq cfg, om_key = orElse key ''unknown'',
      om_value = JObj [(''raw'', JStr body), (''reason'', JStr reason), (''attempts'', jsnum_json attempts),
                       (''deadLetteredAt'', JStr (toISOString now))],
      om_headers = [(HEADER_ORIGINAL_TOPIC, topic), (HEADER_ATTEMPTS, js_String attempts),
                    (HEADER_ERROR, List.take 500 reason)]\<rparr>"

definition deadLetter :: "config \<Rightarrow> ('s, 'k) services \<Rightarrow> string \<Rightarrow> string option \<Rightarrow> string \<Rightarrow> jsnum \<Rightarrow> string
    \<Rightarrow> ('s, 'k) world \<Rightarrow> ('s, 'k) world" where
  "deadLetter cfg S topic key body attempts reason w =
     count_notification ''dead_lettered''
       (snd (publish S (dead_letter_message cfg topic key body attempts reason (wd_now w)) w))"

definition retry_message :: "config \<Rightarrow> string \<Rightarrow> string option \<Rightarrow> jsval \<Rightarrow> string \<Rightarrow> string \<Rightarrow> string option
    \<Rightarrow> jsnum \<Rightarrow> jsnum \<Rightarrow> string \<Rightarrow> outgoing" where
  "retry_message cfg topic key value messageId eventType traceId attempts retryAt error =
     \<lparr>om_topic = topics_retry cfg, om_key = orElse key messageId, om_value = value,
      om_headers = [(HEADER_MESSAGE_ID, messageId), (HEADER_EVENT_TYPE, eventType),
        (HEADER_TRACE_ID, orElse traceId []), (HEADER_ATTEMPTS, js_String attempts),
        (HEADER_RETRY_AT, js_String retryAt), (HEADER_ORIGINAL_TOPIC, topic),
        (HEADER_ERROR, List.take 500 error)]\<rparr>"

definition scheduleRetryOrDeadLetter :: "config \<Rightarrow> ('s, 'k) services \<Rightarrow> string \<Rightarrow> string option \<Rightarrow> string \<Rightarrow> jsval
    \<Rightarrow> string \<Rightarrow> string \<Rightarrow> string option \<Rightarrow> jsnum \<Rightarrow> err \<Rightarrow> rat \<Rightarrow> ('s, 'k) world \<Rightarrow> (err + unit) \<times> ('s, 'k) world" where
  "scheduleRetryOrDeadLetter cfg S topic key body value messageId eventType traceId previousAttempts error rnd w =
     (let attempts = js_add previousAttempts 1 in
      if shouldDeadLetter attempts (notifications_maxAttempts cfg)
      then (Inr (), deadLetter cfg S topic key body attempts (message_of error) w)
      else
        let backoffMs = computeBackoffMs attempts (notifications_retryBaseMs cfg) (notifications_retryMaxMs cfg) rnd;
            m = retry_message cfg topic key value messageId eventType traceId attempts
                  (js_add backoffMs (wd_now w)) (message_of error) in
        case publish S m w of
          (Inl e, w') \<Rightarrow> (Inl e, w')
        | (Inr _, w') \<Rightarrow> (Inr (), count_notification ''retried'' w'))"

subsection \<open>One message\<close>

text \<open>The parts of a message, with the defaults for absent headers.\<close>

definition message_id :: "consumed \<Rightarrow> string" where
  "message_id m = orElse (cm_headers m HEADER_MESSAGE_ID) (cm_topic m @ ''-'' @ cm_offset m)"

definition attempts_of :: "(string \<Rightarrow> jsnum) \<Rightarrow> consumed \<Rightarrow> jsnum" where
  "attempts_of toNumber m = toNumber (orElse (cm_headers m HEADER_ATTEMPTS) ''0'')"

definition retry_at_of :: "(string \<Rightarrow> jsnum) \<Rightarrow> consumed \<Rightarrow> jsnum" where
  "retry_at_of toNumber m = toNumber (orElse (cm_headers m HEADER_RETRY_AT) ''0'')"

definition body_of :: "consumed \<Rightarrow> string" where
  "body_of m = orElse (cm_value m) ''{}''"

definition incoming_of :: "consumed \<Rightarrow> jsval \<Rightarrow> incoming" where
  "incoming_of m parsed =
     \<lparr>in_messageId = message_id m, in_eventType = orElse (cm_headers m HEADER_EVENT_TYPE) ''unknown'',
      in_traceId = (case cm_headers m HEADER_TRACE_ID of None \<Rightarrow> None | Some t \<Rightarrow> nonempty t), in_payload = parsed\<rparr>"

definition in_flight_gauge :: "int \<Rightarrow> ('s, 'k) world \<Rightarrow> ('s, 'k) world" where
  "in_flight_gauge n w = upd_metrics (\<lambda>m. m\<lparr>notificationInFlight := n\<rparr>) w"

text \<open>The job inside the semaphore: handle, and on an exception retry or dead letter; with the gauge around it.\<close>

definition job_body :: "config \<Rightarrow> ('s, 'k) services \<Rightarrow> (string \<Rightarrow> jsnum) \<Rightarrow> moment \<Rightarrow> consumed \<Rightarrow> jsval
    \<Rightarrow> ('s, 'k) world \<Rightarrow> (err + unit) \<times> ('s, 'k) world" where
  "job_body cfg S toNumber mo m parsed w =
     (let i = incoming_of m parsed in
      case handle cfg i (mo_failure mo) (mo_released mo) w of
        (Inr _, w') \<Rightarrow> (Inr (), w')
      | (Inl e, w') \<Rightarrow> scheduleRetryOrDeadLetter cfg S (cm_topic m) (cm_key m) (body_of m) parsed
          (in_messageId i) (in_eventType i) (in_traceId i) (attempts_of toNumber m) e (mo_backoff mo) w')"

definition process_message :: "config \<Rightarrow> ('s, 'k) services \<Rightarrow> (string \<Rightarrow> jsnum) \<Rightarrow> moment \<Rightarrow> consumed \<Rightarrow> jsval
    \<Rightarrow> ('s, 'k) world \<Rightarrow> (err + unit) \<times> ('s, 'k) world" where
  "process_message cfg S toNumber mo m parsed w =
     (case job_body cfg S toNumber mo m parsed (in_flight_gauge (mo_inFlight_running mo) w) of
        (answer, w') \<Rightarrow> (answer, in_flight_gauge (mo_inFlight_after mo - 1) w'))"

text \<open>\<open>None\<close>: still waiting when the observations end.\<close>

definition onMessage :: "config \<Rightarrow> ('s, 'k) services \<Rightarrow> (string \<Rightarrow> jsnum) \<Rightarrow> bool \<Rightarrow> moment \<Rightarrow> consumed
    \<Rightarrow> ('s, 'k) world \<Rightarrow> ((err + unit) \<times> ('s, 'k) world) option" where
  "onMessage cfg S toNumber isRetryTopic mo m w =
     (if mo_stopping mo then Some (Inr (), w)
      else let w1 = upd_metrics (\<lambda>x. x\<lparr>kafkaMessagesConsumedTotal := inc1 (cm_topic m) (kafkaMessagesConsumedTotal x)\<rparr>) w in
        if isRetryTopic \<and> \<not> snd (waitUntilDue (retry_at_of toNumber m) (mo_waiting mo)) then None
        else if isRetryTopic \<and> mo_stopped_waiting mo then Some (Inr (), w1)
        else case JSON_parse (body_of m) of
          None \<Rightarrow> Some (Inr (), deadLetter cfg S (cm_topic m) (cm_key m) (body_of m)
                     (attempts_of toNumber m) ''payload is not valid JSON'' w1)
        | Some parsed \<Rightarrow> Some (process_message cfg S toNumber mo m parsed (in_flight_gauge (mo_inFlight_before mo) w1)))"

end
