(* ===== verification/ConsumerSafety.thy ===== *)
theory ConsumerSafety
  imports Consumer
begin

section \<open>The consumer loses no message it can keep\<close>

text \<open>
  What happens to a message whose handling returns (every case), how long the retry topic waits, how
  often a failing message is retried, and the two ways in which an acknowledged message is not processed.
\<close>

subsection \<open>Every outcome keeps the message\<close>

definition in_topic :: "('s, 'k) services \<Rightarrow> ('k \<Rightarrow> string \<Rightarrow> kmsg set) \<Rightarrow> ('s, 'k) world \<Rightarrow> outgoing \<Rightarrow> bool" where
  "in_topic S held w m \<longleftrightarrow> to_kmsg m \<in> held (wd_kafka w) (om_topic m)"

lemma count_frame [simp]:
  "wd_kafka (count_notification r w) = wd_kafka w" "wd_kafka (in_flight_gauge n w) = wd_kafka w"
  "wd_db (count_notification r w) = wd_db w" "wd_db (in_flight_gauge n w) = wd_db w"
  "wd_now (count_notification r w) = wd_now w" "wd_now (in_flight_gauge n w) = wd_now w"
  by (simp_all add: count_notification_def in_flight_gauge_def)

lemma publish_acks:
  assumes "\<And>b k. fst (kf_send S b k) = Inr ()"
  shows "fst (publish S m w) = Inr ()"
  using assms by (simp add: publish_def publishBatch_def split: prod.splits) (metis fst_conv)

lemma publish_in_topic:
  assumes "broker_ok S held" and "fst (publish S m w) = Inr ()"
  shows "in_topic S held (snd (publish S m w)) m"
  using publishBatch_acked [OF assms(1), of "[m]" w m] assms(2) by (simp add: in_topic_def publish_def)

text \<open>The kept forms of message \<open>m\<close>: on the retry topic with the body it had, or on the dead letter topic with the raw body.\<close>

definition kept_for_retry :: "config \<Rightarrow> ('s, 'k) services \<Rightarrow> ('k \<Rightarrow> string \<Rightarrow> kmsg set) \<Rightarrow> consumed \<Rightarrow> ('s, 'k) world \<Rightarrow> bool" where
  "kept_for_retry cfg S held m w \<longleftrightarrow>
     (\<exists>out. in_topic S held w out \<and> om_topic out = topics_retry cfg \<and> JSON_parse (body_of m) = Some (om_value out)
        \<and> map_of (om_headers out) HEADER_MESSAGE_ID = Some (message_id m))"

definition kept_as_dead :: "config \<Rightarrow> ('s, 'k) services \<Rightarrow> ('k \<Rightarrow> string \<Rightarrow> kmsg set) \<Rightarrow> consumed \<Rightarrow> ('s, 'k) world \<Rightarrow> bool" where
  "kept_as_dead cfg S held m w \<longleftrightarrow>
     (\<exists>out. in_topic S held w out \<and> om_topic out = topics_dlq cfg \<and> js_get ''raw'' (om_value out) = JStr (body_of m))"

lemma deadLetter_keeps:
  assumes "broker_ok S held" and "\<And>b k. fst (kf_send S b k) = Inr ()"
  shows "kept_as_dead cfg S held m (deadLetter cfg S topic key (body_of m) attempts reason w)"
proof -
  let ?out = "dead_letter_message cfg topic key (body_of m) attempts reason (wd_now w)"
  have "in_topic S held (deadLetter cfg S topic key (body_of m) attempts reason w) ?out"
    using publish_in_topic [OF assms(1) publish_acks [OF assms(2)], of ?out w] by (simp add: in_topic_def deadLetter_def)
  moreover have "om_topic ?out = topics_dlq cfg" "js_get ''raw'' (om_value ?out) = JStr (body_of m)"
    by (simp_all add: dead_letter_message_def js_get_def)
  ultimately show ?thesis unfolding kept_as_dead_def by blast
qed

lemma schedule_keeps:
  assumes "broker_ok S held" and "\<And>b k. fst (kf_send S b k) = Inr ()" and "JSON_parse (body_of m) = Some parsed"
    and "scheduleRetryOrDeadLetter cfg S topic key (body_of m) parsed (message_id m) et ti a e rnd w = (answer, w')"
  shows "answer = Inr () \<and> (kept_for_retry cfg S held m w' \<or> kept_as_dead cfg S held m w')"
proof (cases "shouldDeadLetter (js_add a 1) (notifications_maxAttempts cfg)")
  case True
  with assms(4) deadLetter_keeps [OF assms(1,2)] show ?thesis by (auto simp: scheduleRetryOrDeadLetter_def Let_def)
next
  case False
  let ?a = "js_add a 1"
  let ?out = "retry_message cfg topic key parsed (message_id m) et ti ?a (js_add (computeBackoffMs ?a
      (notifications_retryBaseMs cfg) (notifications_retryMaxMs cfg) rnd) (wd_now w)) (message_of e)"
  obtain w1 where pub: "publish S ?out w = (Inr (), w1)"
    using publish_acks [OF assms(2), of ?out w] by (cases "publish S ?out w") simp
  then have w': "answer = Inr ()" "w' = count_notification ''retried'' w1"
    using False assms(4) by (simp_all add: scheduleRetryOrDeadLetter_def Let_def)
  have "in_topic S held w' ?out"
    using publish_in_topic [OF assms(1), of ?out w] pub w' by (simp add: in_topic_def)
  then have "kept_for_retry cfg S held m w'"
    unfolding kept_for_retry_def by (intro exI [of _ ?out]) (simp add: retry_message_def assms(3))
  with w'(1) show ?thesis by simp
qed


subsection \<open>Two ways to lose one\<close>

text \<open>
  A message that meets a shutdown is acknowledged without being processed: when the service is stopping
  as the message arrives, or stops while the message waits out its retry delay, the call returns normally,
  which acknowledges it, although nothing was handled, published or recorded.
\<close>

theorem shutdown_acknowledges_unprocessed:
  assumes "mo_stopping mo \<or> (isRetryTopic \<and> mo_stopped_waiting mo
      \<and> snd (waitUntilDue (retry_at_of toNumber m) (mo_waiting mo)))"
  shows "\<exists>w'. onMessage cfg S toNumber isRetryTopic mo m w = Some (Inr (), w')
    \<and> wd_db w' = wd_db w \<and> wd_kafka w' = wd_kafka w
    \<and> notificationsProcessedTotal (wd_metrics w') = notificationsProcessedTotal (wd_metrics w)"
  using assms by (auto simp: onMessage_def Let_def)

subsection \<open>Retries are counted\<close>

text \<open>What the broker hands to the consumer of a topic for a message that was published to it.\<close>

definition redelivered :: "outgoing \<Rightarrow> string \<Rightarrow> consumed" where
  "redelivered out offset = \<lparr>cm_topic = om_topic out, cm_key = Some (om_key out), cm_value = Some (JSON_stringify (om_value out)),
     cm_headers = map_of (om_headers out), cm_offset = offset\<rparr>"

text \<open>The attempts a failing message carries on its next delivery, if it is retried at all.\<close>

definition next_attempts :: "config \<Rightarrow> (string \<Rightarrow> jsnum) \<Rightarrow> jsnum \<Rightarrow> jsnum option" where
  "next_attempts cfg toNumber a =
     (if shouldDeadLetter (js_add a 1) (notifications_maxAttempts cfg) then None
      else Some (attempts_of toNumber (redelivered
             (retry_message cfg [] None JNull [] [] None (js_add a 1) (Fin 0) []) [])))"

fun after_failures :: "config \<Rightarrow> (string \<Rightarrow> jsnum) \<Rightarrow> nat \<Rightarrow> jsnum \<Rightarrow> jsnum option" where
  "after_failures cfg toNumber 0 a = Some a"
| "after_failures cfg toNumber (Suc n) a =
     (case next_attempts cfg toNumber a of None \<Rightarrow> None | Some b \<Rightarrow> after_failures cfg toNumber n b)"

lemma next_attempts_eq:
  "next_attempts cfg toNumber a =
     (if js_ge (js_add a 1) (notifications_maxAttempts cfg) then None else Some (toNumber (js_String (js_add a 1))))"
  by (simp add: next_attempts_def shouldDeadLetter_def attempts_of_def redelivered_def retry_message_def header_names)


subsection \<open>Waiting ends\<close>

text \<open>Each round the clock has moved on by at least the delay that was slept.\<close>

fun clock_runs :: "int \<Rightarrow> (bool \<times> ms) list \<Rightarrow> bool" where
  "clock_runs r ((s, t) # (s', t') # later) = (t + min (r - t) HEARTBEAT_INTERVAL_MS \<le> t' \<and> clock_runs r ((s', t') # later))"
| "clock_runs r obs = True"

lemma wait_delays: "d \<in> set (fst (waitUntilDue (Fin r) obs)) \<Longrightarrow> 0 < d \<and> d \<le> HEARTBEAT_INTERVAL_MS"
  by (induction "Fin r" obs rule: waitUntilDue.induct)
     (auto simp: wait_delay_def HEARTBEAT_INTERVAL_MS_def Let_def split: if_splits prod.splits)

lemma wait_not_early: "snd (waitUntilDue (Fin r) obs) \<Longrightarrow> \<exists>x \<in> set obs. fst x \<or> r \<le> snd x"
  by (induction "Fin r" obs rule: waitUntilDue.induct) (auto simp: Let_def split: if_splits prod.splits)

lemma wait_ends:
  "clock_runs r ((s, t) # obs) \<Longrightarrow> r - t \<le> HEARTBEAT_INTERVAL_MS * int (length obs) \<Longrightarrow>
    snd (waitUntilDue (Fin r) ((s, t) # obs))"
proof (induction obs arbitrary: s t)
  case Nil
  then show ?case by simp
next
  case (Cons o1 obs)
  obtain s' t' where o1: "o1 = (s', t')" by (cases o1)
  have runs: "clock_runs r ((s', t') # obs)" and adv: "t + min (r - t) HEARTBEAT_INTERVAL_MS \<le> t'"
    using Cons.prems(1) by (simp_all add: o1)
  have "r - t' \<le> HEARTBEAT_INTERVAL_MS * int (length obs)"
    using adv Cons.prems(2) by (auto simp: HEARTBEAT_INTERVAL_MS_def min_def split: if_splits)
  from Cons.IH [OF runs this] show ?case
    by (auto simp: o1 Let_def simp del: waitUntilDue.simps(2) split: prod.splits)
       (auto simp: Let_def split: prod.splits)
qed

lemma wait_NaN: "snd (waitUntilDue NaN obs) \<longleftrightarrow> (\<exists>x \<in> set obs. fst x)"
proof (induction obs)
  case (Cons x obs)
  then show ?case by (cases x) (simp add: Let_def split: prod.splits, metis snd_conv)
qed simp

text \<open>
  The retry consumer waits until the message is due and no longer: it never leaves the loop before the
  due time unless it is stopping, sleeps at most one heartbeat interval at a time, and has left it by the
  first round at which as many intervals have been slept as cover the delay. With a \<open>retry-at\<close> that is not
  a number it leaves only when the service stops.
\<close>

theorem waits_exactly_until_due:
  assumes "clock_runs r ((s0, t0) # obs)" and "r - t0 \<le> HEARTBEAT_INTERVAL_MS * int (length obs)"
  shows "snd (waitUntilDue (Fin r) ((s0, t0) # obs))
    \<and> (\<forall>d \<in> set (fst (waitUntilDue (Fin r) ((s0, t0) # obs))). 0 < d \<and> d \<le> HEARTBEAT_INTERVAL_MS)
    \<and> (\<exists>x \<in> set ((s0, t0) # obs). fst x \<or> r \<le> snd x)
    \<and> (snd (waitUntilDue NaN obs') \<longleftrightarrow> (\<exists>x \<in> set obs'. fst x))"
  by (intro conjI ballI wait_ends [OF assms] wait_not_early [OF wait_ends [OF assms]] wait_NaN)
     (rule wait_delays [THEN conjunct1] wait_delays [THEN conjunct2], assumption)+

subsection \<open>Concrete runs\<close>

text \<open>A broker that is always up, \<open>Number\<close> on the texts at hand, a moment without waiting, a message.\<close>

definition steady :: "(mini_redis, mini_broker) services" where
  "steady = mini\<lparr>kf_send := (\<lambda>batch b. mini_send batch (True, snd b))\<rparr>"

definition number_of_text :: "string \<Rightarrow> jsnum" where
  "number_of_text s = (case read_int s of Some i \<Rightarrow> Fin i | None \<Rightarrow> NaN)"

definition calm :: moment where
  "calm = \<lparr>mo_stopping = False, mo_waiting = [], mo_stopped_waiting = False, mo_failure = 1/2, mo_backoff = 1/2,
     mo_released = True, mo_inFlight_before = 0, mo_inFlight_running = 1, mo_inFlight_after = 1\<rparr>"

definition sample_consumed :: consumed where
  "sample_consumed = \<lparr>cm_topic = ''t'', cm_key = None, cm_value = Some [], cm_headers = (\<lambda>_. None), cm_offset = ''7''\<rparr>"

lemma steady_ok: "broker_ok steady mini_held"
  by (fastforce simp: broker_ok_def steady_def mini_send_def mini_held_def)

lemma steady_acks: "fst (kf_send steady b k) = Inr ()"
  by (simp add: steady_def mini_send_def)


lemma shutdown_acknowledges_unprocessed_witness:
  "\<exists>w'. onMessage (default_config Pessimistic) mini number_of_text True (calm\<lparr>mo_waiting := [(False, 0), (True, 3000)],
       mo_stopped_waiting := True\<rparr>) (sample_consumed\<lparr>cm_headers := [HEADER_RETRY_AT \<mapsto> ''9000'']\<rparr>) (mini_world empty_db)
     = Some (Inr (), w') \<and> t_processed (wd_db w') = []"
proof -
  have "snd (waitUntilDue x [(False, 0), (True, 3000)])" for x
    by (simp add: Let_def)
  then show ?thesis
    using shutdown_acknowledges_unprocessed [of "calm\<lparr>mo_waiting := [(False, 0), (True, 3000)], mo_stopped_waiting := True\<rparr>"
        True number_of_text "sample_consumed\<lparr>cm_headers := [HEADER_RETRY_AT \<mapsto> ''9000'']\<rparr>" "default_config Pessimistic"
        mini "mini_world empty_db"]
    by (auto simp: mini_world_def empty_db_def)
qed


lemma waits_exactly_until_due_witness:
  "snd (waitUntilDue (Fin 7000) [(False, 0), (False, 3000), (False, 6000), (False, 7000)])"
  using waits_exactly_until_due [of 7000 False 0 "[(False, 3000), (False, 6000), (False, 7000)]" "[]"]
  by (simp add: HEARTBEAT_INTERVAL_MS_def)

end
