(* ===== verification/ConsumerRun.thy ===== *)
theory ConsumerRun
  imports ConsumerSafety Semaphore
begin

section \<open>The consumer service: start, concurrency, shutdown\<close>

text \<open>
  \<open>onApplicationBootstrap\<close>, \<open>start\<close> and \<open>onApplicationShutdown\<close> of
  \<open>notifications/notifications.consumer.ts\<close>, and the messages of both topics sharing one semaphore. What the
  Kafka client answers when a consumer connects, subscribes and runs is an argument.
\<close>

record subscription =
  sb_group :: string
  sb_topic :: string
  sb_isRetryTopic :: bool

record 'w consumer_service =
  cs_consumers :: "subscription list"
  cs_semaphore :: "'w semaphore option"
  cs_stopping :: bool

text \<open>What \<open>connect\<close>, \<open>subscribe\<close> and \<open>run\<close> answer.\<close>

type_synonym start_answers = "(err + unit) \<times> (err + unit) \<times> (err + unit)"

definition start :: "start_answers \<Rightarrow> string \<Rightarrow> string \<Rightarrow> bool \<Rightarrow> 'w consumer_service
    \<Rightarrow> (err + unit) \<times> 'w consumer_service" where
  "start answers groupId topic isRetryTopic cs =
     (case answers of
        (Inl e, _, _) \<Rightarrow> (Inl e, cs)
      | (Inr _, Inl e, _) \<Rightarrow> (Inl e, cs)
      | (Inr _, Inr _, Inl e) \<Rightarrow> (Inl e, cs)
      | (Inr _, Inr _, Inr _) \<Rightarrow>
          (Inr (), cs\<lparr>cs_consumers := cs_consumers cs
             @ [\<lparr>sb_group = groupId, sb_topic = topic, sb_isRetryTopic = isRetryTopic\<rparr>]\<rparr>))"

definition consumer_onApplicationBootstrap :: "config \<Rightarrow> start_answers \<Rightarrow> start_answers \<Rightarrow> 'w consumer_service
    \<Rightarrow> (err + unit) \<times> 'w consumer_service" where
  "consumer_onApplicationBootstrap cfg main_answers retry_answers cs =
     (if \<not> kafka_consumerEnabled cfg then (Inr (), cs)
      else case mkSemaphore (notifications_concurrency cfg) of
        Inl e \<Rightarrow> (Inl e, cs)
      | Inr s \<Rightarrow>
          (case start main_answers (kafka_consumerGroup cfg) (topics_booking cfg) False (cs\<lparr>cs_semaphore := Some s\<rparr>) of
             (Inl e, cs') \<Rightarrow> (Inl e, cs')
           | (Inr _, cs') \<Rightarrow> start retry_answers (kafka_consumerGroup cfg @ ''-retry'') (topics_retry cfg) True cs'))"

text \<open>The consumers that are disconnected, whatever their answers, and the service after.\<close>

definition consumer_onApplicationShutdown :: "'w consumer_service \<Rightarrow> subscription list \<times> 'w consumer_service" where
  "consumer_onApplicationShutdown cs = (cs_consumers cs, cs\<lparr>cs_stopping := True\<rparr>)"

definition new_consumer_service :: "'w consumer_service" where
  "new_consumer_service = \<lparr>cs_consumers = [], cs_semaphore = None, cs_stopping = False\<rparr>"

subsection \<open>Start and shutdown\<close>

text \<open>
  When the service starts, it consumes exactly the booking topic under its group and the retry topic under
  a group of its own, with as many permits as configured; when it is disabled, nothing; and at shutdown every
  consumer that was started is disconnected and no further message is taken up.
\<close>

theorem consumer_life:
  assumes "consumer_onApplicationBootstrap cfg a1 a2 new_consumer_service = (Inr (), cs)"
  shows "(if kafka_consumerEnabled cfg
      then cs_consumers cs =
             [\<lparr>sb_group = kafka_consumerGroup cfg, sb_topic = topics_booking cfg, sb_isRetryTopic = False\<rparr>,
              \<lparr>sb_group = kafka_consumerGroup cfg @ ''-retry'', sb_topic = topics_retry cfg, sb_isRetryTopic = True\<rparr>]
        \<and> map_option permits (cs_semaphore cs) = Some (notifications_concurrency cfg) \<and> \<not> cs_stopping cs
      else cs = new_consumer_service)
    \<and> fst (consumer_onApplicationShutdown cs) = cs_consumers cs
    \<and> onMessage cfg S toNumber isRetryTopic (mo\<lparr>mo_stopping := cs_stopping (snd (consumer_onApplicationShutdown cs))\<rparr>) m w
        = Some (Inr (), w)"
  using assms
  by (auto simp: consumer_onApplicationBootstrap_def consumer_onApplicationShutdown_def new_consumer_service_def
      onMessage_def mkSemaphore_def start_def split: if_splits sum.splits prod.splits)

subsection \<open>All jobs on one semaphore\<close>

text \<open>
  Jobs of both topics, by number. Entering sets the gauge and asks for a permit in one turn of the event
  loop; a job that has its permit starts later, and releases it after its \<open>finally\<close> ran.
\<close>

record ('s, 'k) jobs =
  jb_pool :: "nat pool"
  jb_started :: "nat set"
  jb_ended :: "nat set"
  jb_world :: "('s, 'k) world"

inductive job_step :: "config \<Rightarrow> ('s, 'k) services \<Rightarrow> (string \<Rightarrow> jsnum) \<Rightarrow> ('s, 'k) jobs \<Rightarrow> ('s, 'k) jobs \<Rightarrow> bool"
  for cfg S toNumber where
  job_enters: "i \<notin> set (running (jb_pool j)) \<union> set (waiters (sem (jb_pool j))) \<Longrightarrow>
     job_step cfg S toNumber j
       (j\<lparr>jb_world := in_flight_gauge (inFlight (sem (jb_pool j))) (jb_world j), jb_pool := run_begin i (jb_pool j)\<rparr>)"
| job_starts: "i \<in> set (running (jb_pool j)) \<Longrightarrow> i \<notin> jb_started j \<Longrightarrow> i \<notin> jb_ended j \<Longrightarrow>
     job_step cfg S toNumber j
       (j\<lparr>jb_world := in_flight_gauge (inFlight (sem (jb_pool j))) (jb_world j), jb_started := insert i (jb_started j)\<rparr>)"
| job_ends: "i \<in> jb_started j \<Longrightarrow> job_body cfg S toNumber mo m parsed (jb_world j) = (answer, w) \<Longrightarrow>
     job_step cfg S toNumber j
       (j\<lparr>jb_world := in_flight_gauge (inFlight (sem (jb_pool j)) - 1) w, jb_started := jb_started j - {i},
         jb_ended := insert i (jb_ended j)\<rparr>)"
| job_releases: "i \<in> jb_ended j \<Longrightarrow>
     job_step cfg S toNumber j (j\<lparr>jb_pool := run_end i (jb_pool j), jb_ended := jb_ended j - {i}\<rparr>)"
| job_elsewhere: "notificationInFlight (wd_metrics w) = notificationInFlight (wd_metrics (jb_world j)) \<Longrightarrow>
     job_step cfg S toNumber j (j\<lparr>jb_world := w\<rparr>)"

inductive job_steps :: "config \<Rightarrow> ('s, 'k) services \<Rightarrow> (string \<Rightarrow> jsnum) \<Rightarrow> ('s, 'k) jobs \<Rightarrow> ('s, 'k) jobs \<Rightarrow> bool"
  for cfg S toNumber where
  jobs_refl: "job_steps cfg S toNumber j j"
| jobs_more: "job_steps cfg S toNumber j j1 \<Longrightarrow> job_step cfg S toNumber j1 j2 \<Longrightarrow> job_steps cfg S toNumber j j2"

definition jobs_init :: "nat semaphore \<Rightarrow> ('s, 'k) world \<Rightarrow> ('s, 'k) jobs" where
  "jobs_init s w = \<lparr>jb_pool = pool_init s, jb_started = {}, jb_ended = {}, jb_world = w\<rparr>"

definition gauge :: "('s, 'k) jobs \<Rightarrow> int" where
  "gauge j = notificationInFlight (wd_metrics (jb_world j))"

definition jobs_ok :: "int \<Rightarrow> ('s, 'k) jobs \<Rightarrow> bool" where
  "jobs_ok n j \<longleftrightarrow> pool_ok (jb_pool j) \<and> permits (sem (jb_pool j)) = n
     \<and> jb_started j \<union> jb_ended j \<subseteq> set (running (jb_pool j)) \<and> jb_started j \<inter> jb_ended j = {}
     \<and> 0 \<le> gauge j \<and> gauge j \<le> n"

lemma in_flight_bounds: "pool_ok p \<Longrightarrow> 0 \<le> inFlight (sem p) \<and> inFlight (sem p) \<le> permits (sem p)"
  by (auto simp: pool_ok_def sem_ok_def inFlight_def)

lemma gauge_set [simp]: "notificationInFlight (wd_metrics (in_flight_gauge n w)) = n"
  by (simp add: in_flight_gauge_def)

lemma run_begin_keeps: "set (running p) \<subseteq> set (running (run_begin i p))"
  by (auto simp: run_begin_eq)

lemma run_end_keeps: "x \<in> set (running p) \<Longrightarrow> x \<noteq> i \<Longrightarrow> x \<in> set (running (run_end i p))"
  by (auto simp: run_end_eq split: list.splits)

lemma running_pos: "pool_ok p \<Longrightarrow> i \<in> set (running p) \<Longrightarrow> 1 \<le> inFlight (sem p)"
  by (cases "running p") (auto simp: pool_ok_def)

lemma pool_frame [simp]:
  "permits (sem (run_begin i p)) = permits (sem p)" "permits (sem (run_end i p)) = permits (sem p)"
  by (auto simp: run_begin_eq run_end_eq release_def split: list.splits)

lemma job_step_ok: "job_step cfg S toNumber j j' \<Longrightarrow> jobs_ok n j \<Longrightarrow> jobs_ok n j'"
proof (induction rule: job_step.induct)
  case (job_enters i j)
  then show ?case
    using in_flight_bounds [of "jb_pool j"] run_begin_keeps [of "jb_pool j" i]
    by (auto simp: jobs_ok_def gauge_def intro: inv_intros)
next
  case (job_starts i j)
  then show ?case using in_flight_bounds [of "jb_pool j"] by (auto simp: jobs_ok_def gauge_def)
next
  case (job_ends i j mo m parsed answer w)
  then have "i \<in> set (running (jb_pool j))" by (auto simp: jobs_ok_def)
  then have "1 \<le> inFlight (sem (jb_pool j))" using job_ends.prems by (intro running_pos) (auto simp: jobs_ok_def)
  with job_ends show ?case using in_flight_bounds [of "jb_pool j"] by (auto simp: jobs_ok_def gauge_def)
next
  case (job_releases i j)
  then have "i \<in> set (running (jb_pool j))" by (auto simp: jobs_ok_def)
  with job_releases show ?case
    using run_end_keeps [of _ "jb_pool j" i]
    by (auto simp: jobs_ok_def gauge_def intro: inv_intros)
next
  case (job_elsewhere w j)
  then show ?case by (simp add: jobs_ok_def gauge_def)
qed

lemma job_steps_ok: "job_steps cfg S toNumber j j' \<Longrightarrow> jobs_ok n j \<Longrightarrow> jobs_ok n j'"
  by (induction rule: job_steps.induct) (auto dest: job_step_ok)

text \<open>
  C36. Backpressure holds: from the start of the service on, whatever messages of both topics arrive and however
  their jobs interleave, at most \<open>NOTIFICATION_CONCURRENCY\<close> jobs are between start and release at once, the
  in-flight gauge stays between zero and that number, and a job waits only while every permit is out.
\<close>

theorem consumer_concurrency:
  assumes "consumer_onApplicationBootstrap cfg a1 a2 new_consumer_service = (Inr (), cs)"
    and "cs_semaphore cs = Some s" and "0 \<le> notificationInFlight (wd_metrics w)"
    and "notificationInFlight (wd_metrics w) \<le> notifications_concurrency cfg"
    and "job_steps cfg S toNumber (jobs_init s w) j"
  shows "int (card (jb_started j \<union> jb_ended j)) \<le> notifications_concurrency cfg
    \<and> 0 \<le> notificationInFlight (wd_metrics (jb_world j))
    \<and> notificationInFlight (wd_metrics (jb_world j)) \<le> notifications_concurrency cfg
    \<and> (waiters (sem (jb_pool j)) \<noteq> [] \<longrightarrow> int (length (running (jb_pool j))) = notifications_concurrency cfg)"
proof -
  have "mkSemaphore (notifications_concurrency cfg) = Inr s"
    using assms(1,2)
    by (auto simp: consumer_onApplicationBootstrap_def new_consumer_service_def start_def
        split: if_splits sum.splits prod.splits)
  then have "jobs_ok (notifications_concurrency cfg) (jobs_init s w)"
    using assms(3,4) pool_init_ok [of _ s] mkSemaphore_permits [of _ s]
    by (auto simp: jobs_ok_def jobs_init_def gauge_def pool_init_def)
  from job_steps_ok [OF assms(5) this] have ok: "jobs_ok (notifications_concurrency cfg) j" .
  then have "card (jb_started j \<union> jb_ended j) \<le> card (set (running (jb_pool j)))"
    by (intro card_mono) (auto simp: jobs_ok_def)
  also have "\<dots> \<le> length (running (jb_pool j))" by (rule card_length)
  finally show ?thesis using ok by (auto simp: jobs_ok_def pool_ok_def sem_ok_def inFlight_def gauge_def)
qed


subsection \<open>Concrete runs\<close>

definition all_fine :: start_answers where
  "all_fine = (Inr (), Inr (), Inr ())"

definition ten_permits :: "nat semaphore" where
  "ten_permits = \<lparr>permits = 10, available = 10, waiters = []\<rparr>"

definition running_service :: "nat consumer_service" where
  "running_service =
     \<lparr>cs_consumers = [\<lparr>sb_group = ''overbook-notifications'', sb_topic = ''booking.events'', sb_isRetryTopic = False\<rparr>,
        \<lparr>sb_group = ''overbook-notifications-retry'', sb_topic = ''booking.events.retry'', sb_isRetryTopic = True\<rparr>],
      cs_semaphore = Some ten_permits, cs_stopping = False\<rparr>"

lemma service_starts:
  "consumer_onApplicationBootstrap (default_config Pessimistic) all_fine all_fine new_consumer_service
     = (Inr (), running_service)"
  by (simp add: consumer_onApplicationBootstrap_def new_consumer_service_def start_def all_fine_def default_config_def
      mkSemaphore_def ten_permits_def running_service_def)

theorem consumer_life_witness:
  "fst (consumer_onApplicationShutdown running_service) = cs_consumers running_service
   \<and> onMessage (default_config Pessimistic) mini number_of_text False
       (calm\<lparr>mo_stopping := cs_stopping (snd (consumer_onApplicationShutdown running_service))\<rparr>) sample_consumed
       (mini_world empty_db) = Some (Inr (), mini_world empty_db)"
  using consumer_life [OF service_starts] by blast

theorem consumer_concurrency_witness:
  "\<exists>j :: (mini_redis, mini_broker) jobs. jb_started j = {4}
     \<and> job_steps (default_config Pessimistic) mini number_of_text (jobs_init ten_permits (mini_world empty_db)) j
     \<and> int (card (jb_started j \<union> jb_ended j)) \<le> 10 \<and> notificationInFlight (wd_metrics (jb_world j)) \<le> 10"
proof -
  let ?j0 = "jobs_init ten_permits (mini_world empty_db)"
  let ?j1 = "?j0\<lparr>jb_world := in_flight_gauge (inFlight (sem (jb_pool ?j0))) (jb_world ?j0), jb_pool := run_begin 4 (jb_pool ?j0)\<rparr>"
  let ?j2 = "?j1\<lparr>jb_world := in_flight_gauge (inFlight (sem (jb_pool ?j1))) (jb_world ?j1), jb_started := insert 4 (jb_started ?j1)\<rparr>"
  have "job_step (default_config Pessimistic) mini number_of_text ?j0 ?j1"
    by (rule job_enters) (simp add: jobs_init_def pool_init_def ten_permits_def)
  moreover have "job_step (default_config Pessimistic) mini number_of_text ?j1 ?j2"
    by (rule job_starts) (simp_all add: jobs_init_def pool_init_def ten_permits_def run_begin_eq)
  ultimately have steps: "job_steps (default_config Pessimistic) mini number_of_text ?j0 ?j2"
    by (blast intro: jobs_refl jobs_more)
  have "cs_semaphore running_service = Some ten_permits" "notifications_concurrency (default_config Pessimistic) = 10"
    by (simp_all add: running_service_def default_config_def)
  with consumer_concurrency [OF service_starts _ _ _ steps] steps show ?thesis
    by (intro exI [of _ ?j2]) (simp add: jobs_init_def mini_world_def zero_metrics_def)
qed

end
