(* ===== verification/EndToEnd.thy ===== *)
theory EndToEnd
  imports BookOutcomes ConsumerRun
begin

section \<open>From the booking to the notification\<close>

text \<open>
  The message path as a whole: what the booking transaction wrote into the outbox, the relay published as JSON
  text, and the consumer parsed (\<open>bookings.service.ts\<close>, \<open>outbox.relay.ts\<close>, \<open>kafka.service.ts\<close>,
  \<open>notifications.consumer.ts\<close>, \<open>notifications.service.ts\<close>); and what a retried message carries.
\<close>

text \<open>A message of a topic as the Kafka client hands it to the consumer.\<close>

definition handed_over :: "string \<Rightarrow> string \<Rightarrow> kmsg \<Rightarrow> consumed" where
  "handed_over topic offset k = \<lparr>cm_topic = topic, cm_key = Some (km_key k), cm_value = Some (km_value k),
     cm_headers = map_of (km_headers k), cm_offset = offset\<rparr>"

lemma handed_over_body [simp]: "body_of (handed_over topic offset (to_kmsg m)) = JSON_stringify (om_value m)"
  by (simp add: handed_over_def body_of_def to_kmsg_def)

lemma handed_over_header [simp]: "cm_headers (handed_over topic offset (to_kmsg m)) = map_of (om_headers m)"
  by (simp add: handed_over_def to_kmsg_def)

lemma booking_payload_ok: "json_ok (booking_payload b name t)"
  by (auto simp: booking_payload_def opt_str_def split: option.splits)

subsection \<open>Announcements\<close>

definition announced :: "config \<Rightarrow> book_req \<Rightarrow> txenv \<Rightarrow> booked \<Rightarrow> incoming" where
  "announced cfg q env x =
     \<lparr>in_messageId = te_outbox_id env, in_eventType = BOOKING_CONFIRMED,
      in_traceId = Option.bind (bq_traceId q) nonempty,
      in_payload = booking_payload (bd_booking x) (bd_eventName x) (bq_traceId q)\<rparr>"

definition announcement_message :: "config \<Rightarrow> book_req \<Rightarrow> txenv \<Rightarrow> booked \<Rightarrow> string \<Rightarrow> string \<Rightarrow> consumed" where
  "announcement_message cfg q env x topic offset =
     handed_over topic offset (to_kmsg (relay_message (announcement cfg q env (bd_eventName x))))"

lemma announcement_incoming:
  assumes "sell cfg q env d = (Inr x, d')"
  shows "JSON_parse (body_of (announcement_message cfg q env x topic offset)) = Some (in_payload (announced cfg q env x))"
    and "incoming_of (announcement_message cfg q env x topic offset) (in_payload (announced cfg q env x)) = announced cfg q env x"
proof -
  note simps = announcement_message_def relay_message_def announcement_def saved_outbox_def Let_def announced_def
    sell_confirmed(1) [OF assms, symmetric]
  show "JSON_parse (body_of (announcement_message cfg q env x topic offset)) = Some (in_payload (announced cfg q env x))"
    by (simp add: simps json_ok_reads [OF booking_payload_ok])
  show "incoming_of (announcement_message cfg q env x topic offset) (in_payload (announced cfg q env x)) = announced cfg q env x"
    by (cases "bq_traceId q")
       (simp_all add: simps incoming_of_def message_id_def header_names trace_text_def js_get_def booking_payload_def
         opt_str_def BOOKING_CONFIRMED_def nonempty_def)
qed

lemma announced_payload [simp]: "in_payload (announced cfg q env x) \<noteq> JNull"
  by (simp add: announced_def booking_payload_def)

text \<open>One message taken from the main topic whose body parses.\<close>

lemma onMessage_main:
  assumes "\<not> mo_stopping mo" and "JSON_parse (body_of m) = Some parsed"
  shows "\<exists>w1. onMessage cfg S toNumber False mo m w = Some (process_message cfg S toNumber mo m parsed w1)
    \<and> wd_db w1 = wd_db w \<and> wd_now w1 = wd_now w
    \<and> notificationsProcessedTotal (wd_metrics w1) = notificationsProcessedTotal (wd_metrics w)"
  using assms by (auto simp: onMessage_def Let_def in_flight_gauge_def)

lemma insert_processed_eq:
  "insert_processed r t = (if processed_key r \<in> processed_key ` set t then (False, t) else (True, t @ [r]))"
  by (auto simp: insert_processed_def insert_ignore_def list_ex_iff image_iff) metis

lemma processed_key_of [simp]: "processed_key (processed_of cfg i now) = (in_messageId i, kafka_consumerGroup cfg)"
  by (simp add: processed_key_def processed_of_def)

lemma handle_sent:
  assumes "processed_fits (processed_of cfg i (wd_now w))" and "in_payload i \<noteq> JNull"
    and "(in_messageId i, kafka_consumerGroup cfg) \<notin> processed_key ` set (t_processed (wd_db w))"
    and "\<not> (0 < notifications_failureRate cfg \<and> rnd < notifications_failureRate cfg)"
  shows "handle cfg i rnd released w =
    (Inr IsSent, count_notification ''sent'' (w\<lparr>wd_db := (wd_db w)\<lparr>t_processed :=
       t_processed (wd_db w) @ [processed_of cfg i (wd_now w)]\<rparr>\<rparr>))"
  using assms by (simp add: handle_def Let_def deliver_def insert_processed_eq)

lemma handle_duplicate:
  assumes "processed_fits (processed_of cfg i (wd_now w))"
    and "(in_messageId i, kafka_consumerGroup cfg) \<in> processed_key ` set (t_processed (wd_db w))"
  shows "handle cfg i rnd released w = (Inr IsDuplicate, count_notification ''duplicate'' w)"
  using assms by (simp add: handle_def Let_def insert_processed_eq)

lemma process_answered:
  assumes "handle cfg (incoming_of m parsed) (mo_failure mo) (mo_released mo) (in_flight_gauge (mo_inFlight_running mo) w) = (Inr h, w')"
  shows "process_message cfg S toNumber mo m parsed w = (Inr (), in_flight_gauge (mo_inFlight_after mo - 1) w')"
  using assms by (simp add: process_message_def job_body_def Let_def)


subsection \<open>Retries\<close>


subsection \<open>Concrete runs\<close>



end
