(* ===== verification/Lifecycle.thy ===== *)
theory Lifecycle
  imports Kafka Redis
begin

section \<open>Health and graceful shutdown\<close>

text \<open>
  \<open>common/shutdown/lifecycle.service.ts\<close>, the health endpoints and indicators of \<open>health/\<close>, and the shutdown
  handler of \<open>main.ts\<close>. The answers of the clients' pings and the health check service's verdict on a list
  of indicators are arguments. A process is the list of its signals; the framework's own signal hooks
  (\<open>app.enableShutdownHooks()\<close>), which close the server some time after the first signal, are the argument
  \<open>hook\<close>: the delay, or \<open>None\<close> for an application without them.
\<close>

subsection \<open>The lifecycle service\<close>

record lifecycle =
  lc_draining :: bool
  lc_startedAt :: ms

definition isDraining :: "lifecycle \<Rightarrow> bool" where
  "isDraining lc = lc_draining lc"

definition uptimeSeconds :: "ms \<Rightarrow> lifecycle \<Rightarrow> int" where
  "uptimeSeconds now lc = (now - lc_startedAt lc) div 1000"

definition beginDraining :: "lifecycle \<Rightarrow> lifecycle" where
  "beginDraining lc = (if lc_draining lc then lc else lc\<lparr>lc_draining := True\<rparr>)"

subsection \<open>Indicators and endpoints\<close>

datatype indicator = Up string | Down string string

fun is_up :: "indicator \<Rightarrow> bool" where
  "is_up (Up _) = True"
| "is_up (Down _ _) = False"

definition kafka_isHealthy :: "string \<Rightarrow> kafka_conn \<Rightarrow> indicator" where
  "kafka_isHealthy key c = (if isConnected c then Up key else Down key ''producer not connected'')"

definition redis_ping :: "err + string \<Rightarrow> err + bool" where
  "redis_ping reply = (case reply of Inl e \<Rightarrow> Inl e | Inr s \<Rightarrow> Inr (s = ''PONG''))"

definition redis_isHealthy :: "string \<Rightarrow> err + string \<Rightarrow> indicator" where
  "redis_isHealthy key reply =
     (case redis_ping reply of
        Inr pong \<Rightarrow> if pong then Up key else Down key ''PING did not return PONG''
      | Inl e \<Rightarrow> Down key (message_of e))"

definition live :: "ms \<Rightarrow> lifecycle \<Rightarrow> string \<times> int" where
  "live now lc = (''ok'', uptimeSeconds now lc)"

definition draining_answer :: err where
  "draining_answer = ServiceUnavailableException ''shutting down, remove this instance from the pool''"

text \<open>\<open>check\<close> is \<open>HealthCheckService.check\<close>, \<open>database\<close> what \<open>pingCheck('postgres')\<close> found.\<close>

definition ready :: "(indicator list \<Rightarrow> err + 'h) \<Rightarrow> lifecycle \<Rightarrow> indicator \<Rightarrow> err + string \<Rightarrow> kafka_conn \<Rightarrow> err + 'h" where
  "ready check lc database redis kafka =
     (if isDraining lc then Inl draining_answer
      else check [database, redis_isHealthy ''redis'' redis, kafka_isHealthy ''kafka'' kafka])"

text \<open>What is relied on of \<open>check\<close>: it answers when every indicator is up and throws otherwise.\<close>

definition check_ok :: "(indicator list \<Rightarrow> err + 'h) \<Rightarrow> bool" where
  "check_ok check \<longleftrightarrow> (\<forall>is. thrown (check is) \<longleftrightarrow> \<not> list_all is_up is)"

text \<open>
  Readiness is exact: the endpoint answers normally if and only if the instance is not draining, the
  database answers its ping, Redis answers \<open>PONG\<close> and the Kafka producer is connected.
\<close>

theorem ready_iff:
  assumes "check_ok check"
  shows "\<not> thrown (ready check lc database redis kafka) \<longleftrightarrow>
    \<not> lc_draining lc \<and> is_up database \<and> redis = Inr ''PONG'' \<and> kc_connected kafka"
  using assms
  by (cases redis) (simp_all add: ready_def isDraining_def check_ok_def redis_isHealthy_def redis_ping_def
      kafka_isHealthy_def isConnected_def)

definition strict_check :: "indicator list \<Rightarrow> err + indicator list" where
  "strict_check is = (if list_all is_up is then Inr is else Inl (ServiceUnavailableException ''down''))"

lemma strict_check_ok: "check_ok strict_check"
  by (simp add: check_ok_def strict_check_def)

theorem ready_iff_witness:
  "\<not> thrown (ready strict_check \<lparr>lc_draining = False, lc_startedAt = 0\<rparr> (Up ''postgres'') (Inr ''PONG'')
       \<lparr>kc_connected = True, kc_calls = []\<rparr>)
   \<and> thrown (ready strict_check \<lparr>lc_draining = False, lc_startedAt = 0\<rparr> (Up ''postgres'') (Inr ''PONG'')
       \<lparr>kc_connected = False, kc_calls = []\<rparr>)"
  using ready_iff [OF strict_check_ok, of "\<lparr>lc_draining = False, lc_startedAt = 0\<rparr>" "Up ''postgres''" "Inr ''PONG''"
      "\<lparr>kc_connected = True, kc_calls = []\<rparr>"]
    ready_iff [OF strict_check_ok, of "\<lparr>lc_draining = False, lc_startedAt = 0\<rparr>" "Up ''postgres''" "Inr ''PONG''"
      "\<lparr>kc_connected = False, kc_calls = []\<rparr>"]
  by simp

subsection \<open>Shutting down\<close>

text \<open>
  \<open>shutdown\<close> drains, waits \<open>drainMs\<close>, closes and exits; \<open>process.once\<close> runs it for the first signal of
  each name. Closing takes some time \<open>closing\<close>.
\<close>

datatype signal_name = SIGTERM | SIGINT

datatype shutdown_action = Drain | Close | Exit

definition shutdown :: "ms \<Rightarrow> ms \<Rightarrow> ms \<Rightarrow> (ms \<times> shutdown_action) list" where
  "shutdown drainMs closing t = [(t, Drain), (t + drainMs, Close), (t + drainMs + closing, Exit)]"

fun handled_signals :: "signal_name set \<Rightarrow> (ms \<times> signal_name) list \<Rightarrow> ms list" where
  "handled_signals seen [] = []"
| "handled_signals seen ((t, s) # rest) =
     (if s \<in> seen then handled_signals seen rest else t # handled_signals (insert s seen) rest)"

record instance_state =
  in_lifecycle :: lifecycle
  in_accepting :: bool
  in_exited :: bool

fun perform :: "shutdown_action \<Rightarrow> instance_state \<Rightarrow> instance_state" where
  "perform Drain i = i\<lparr>in_lifecycle := beginDraining (in_lifecycle i)\<rparr>"
| "perform Close i = i\<lparr>in_accepting := False\<rparr>"
| "perform Exit i = i\<lparr>in_exited := True\<rparr>"

definition plan :: "config \<Rightarrow> ms option \<Rightarrow> ms \<Rightarrow> (ms \<times> signal_name) list \<Rightarrow> (ms \<times> shutdown_action) list" where
  "plan cfg hook closing signals =
     concat (map (shutdown (app_shutdownDrainMs cfg) closing) (handled_signals {} signals))
     @ (case (hook, signals) of (Some d, (t, _) # _) \<Rightarrow> [(t + d, Close)] | _ \<Rightarrow> [])"

definition instance_at :: "(ms \<times> shutdown_action) list \<Rightarrow> instance_state \<Rightarrow> ms \<Rightarrow> instance_state" where
  "instance_at acts i t = fold (\<lambda>(u, a) j. if u \<le> t then perform a j else j) acts i"

definition started :: "ms \<Rightarrow> instance_state" where
  "started t = \<lparr>in_lifecycle = \<lparr>lc_draining = False, lc_startedAt = t\<rparr>, in_accepting = True, in_exited = False\<rparr>"

lemma in_fold:
  "in_accepting (fold (\<lambda>(u, a) j. if u \<le> (t :: ms) then perform a j else j) acts i) \<longleftrightarrow>
     in_accepting i \<and> (\<forall>u. (u, Close) \<in> set acts \<longrightarrow> t < u)"
  "lc_draining (in_lifecycle (fold (\<lambda>(u, a) j. if u \<le> t then perform a j else j) acts i)) \<longleftrightarrow>
     lc_draining (in_lifecycle i) \<or> (\<exists>u \<le> t. (u, Drain) \<in> set acts)"
proof (induction acts arbitrary: i)
  case (Cons x acts)
  obtain u a where x: "x = (u, a)" by fastforce
  { case 1
    have "in_accepting (if u \<le> t then perform a i else i) \<longleftrightarrow> in_accepting i \<and> (a = Close \<longrightarrow> t < u)" by (cases a) auto
    then show ?case by (simp only: x fold.simps comp_apply prod.case Cons.IH(1) list.set) auto
  next
    case 2
    have "lc_draining (in_lifecycle (if u \<le> t then perform a i else i)) \<longleftrightarrow>
        lc_draining (in_lifecycle i) \<or> a = Drain \<and> u \<le> t" by (cases a) (auto simp: beginDraining_def)
    then show ?case by (simp only: x fold.simps comp_apply prod.case Cons.IH(2) list.set) auto }
qed simp_all

lemma instance_accepting:
  "in_accepting (instance_at acts (started t0) t) \<longleftrightarrow> (\<forall>u. (u, Close) \<in> set acts \<longrightarrow> t < u)"
  by (simp add: instance_at_def in_fold started_def)

lemma instance_draining:
  "lc_draining (in_lifecycle (instance_at acts (started t0) t)) \<longleftrightarrow> (\<exists>u \<le> t. (u, Drain) \<in> set acts)"
  by (simp add: instance_at_def in_fold started_def)

lemma in_plan:
  "(u, Drain) \<in> set (plan cfg hook closing signals) \<longleftrightarrow> u \<in> set (handled_signals {} signals)"
  "(u, Close) \<in> set (plan cfg None closing signals) \<longleftrightarrow> u - app_shutdownDrainMs cfg \<in> set (handled_signals {} signals)"
  by (auto simp: plan_def shutdown_def split: option.splits list.splits intro!: bexI [of _ "u - app_shutdownDrainMs cfg"])

text \<open>
  A balancer asks for readiness at the times \<open>checks\<close>, finds an instance in rotation as its last check left
  it, and routes to it while it is in rotation. The dependencies are up.
\<close>

definition answers_ready :: "(ms \<times> shutdown_action) list \<Rightarrow> instance_state \<Rightarrow> ms \<Rightarrow> bool" where
  "answers_ready acts i t \<longleftrightarrow> in_accepting (instance_at acts i t)
     \<and> \<not> thrown (ready strict_check (in_lifecycle (instance_at acts i t)) (Up ''postgres'') (Inr ''PONG'')
         \<lparr>kc_connected = True, kc_calls = []\<rparr>)"

definition routed :: "ms list \<Rightarrow> (ms \<Rightarrow> bool) \<Rightarrow> ms \<Rightarrow> bool" where
  "routed checks answer t \<longleftrightarrow> (\<exists>c \<in> set checks. c \<le> t \<and> answer c \<and> (\<forall>c' \<in> set checks. c' \<le> t \<longrightarrow> c' \<le> c))"

definition checked_every :: "ms \<Rightarrow> ms list \<Rightarrow> ms \<Rightarrow> bool" where
  "checked_every interval checks t \<longleftrightarrow> (\<exists>c \<in> set checks. c \<le> t \<and> t \<le> c + interval)"





end
