(* ===== verification/EventPages.thy ===== *)
theory EventPages
  imports Events
begin

section \<open>Listing events page by page\<close>

text \<open>
  A client that follows \<open>nextCursor\<close> (\<open>events/events.service.ts\<close>, \<open>list\<close>) sees every event exactly once,
  in the order of the ids; and what creating an event does to the tables.
\<close>

text \<open>The client: \<open>None\<close> when a page is refused or the fuel runs out before a page without a cursor.\<close>

fun follow_pages :: "nat \<Rightarrow> int \<Rightarrow> string option \<Rightarrow> db \<Rightarrow> event_response list list option" where
  "follow_pages 0 limit cursor d = None"
| "follow_pages (Suc fuel) limit cursor d =
     (case list_events \<lparr>ld_cursor = cursor, ld_limit = limit\<rparr> d of
        Inl e \<Rightarrow> None
      | Inr page \<Rightarrow>
          (case ep_nextCursor page of
             None \<Rightarrow> Some [ep_items page]
           | Some c \<Rightarrow> map_option (\<lambda>rest. ep_items page # rest) (follow_pages fuel limit (Some c) d)))"

definition in_id_order :: "db \<Rightarrow> event_row list" where
  "in_id_order d = sort_key ev_id (t_events d)"

definition page_rows :: "string option \<Rightarrow> db \<Rightarrow> event_row list" where
  "page_rows cursor d = filter (after_cursor cursor) (in_id_order d)"

lemma sorted_page_rows: "sort_key ev_id (filter (after_cursor cursor) (t_events d)) = page_rows cursor d"
  by (simp add: page_rows_def in_id_order_def filter_sort)

lemma page_rows_start: "page_rows None d = in_id_order d"
  by (simp add: page_rows_def after_cursor_def)

text \<open>In a list in strictly increasing order, what is above its \<open>n\<close>-th element is what comes after it.\<close>

lemma filter_above_nth:
  assumes "sorted (map f xs)" "distinct (map f xs)" "n < length xs"
  shows "filter (\<lambda>x. f (xs ! n) < f x) xs = drop (Suc n) xs"
  using assms
proof (induction xs arbitrary: n)
  case (Cons x xs)
  have less: "f x < f y" if "y \<in> set xs" for y
    using Cons.prems(1,2) that by (auto simp: order.strict_iff_order)
  show ?case
  proof (cases n)
    case 0
    with less show ?thesis by (auto intro: filter_True)
  next
    case (Suc m)
    with Cons.prems less [of "xs ! m"] Cons.IH [of m] show ?thesis by auto
  qed
qed simp

lemma filter_above_later:
  fixes f :: "'a \<Rightarrow> 'b::linorder"
  shows "c \<le> c' \<Longrightarrow> filter (\<lambda>x. c' < f x) (filter (\<lambda>x. c < f x) xs) = filter (\<lambda>x. c' < f x) xs"
  by (auto simp: filter_filter intro!: filter_cong)

text \<open>The rows after the \<open>n\<close>-th one of a page are the rows its cursor selects.\<close>

lemma page_rows_next:
  assumes "distinct (map ev_id (t_events d))" "\<forall>r \<in> set (t_events d). ev_id r \<noteq> []" "n < length (page_rows cursor d)"
  shows "page_rows (Some (ev_id (page_rows cursor d ! n))) d = drop (Suc n) (page_rows cursor d)"
proof -
  let ?xs = "page_rows cursor d"
  let ?c = "ev_id (?xs ! n)"
  have sub: "set ?xs \<subseteq> set (t_events d)" by (auto simp: page_rows_def in_id_order_def)
  have x: "?xs ! n \<in> set ?xs" using assms(3) by simp
  have "?c \<noteq> []" using assms(2) sub x by blast
  then have above: "page_rows (Some ?c) d = filter (\<lambda>r. ?c < ev_id r) (in_id_order d)"
    unfolding page_rows_def by (intro filter_cong) (simp_all add: after_cursor_def)
  have "after_cursor cursor (?xs ! n)" using x by (simp add: page_rows_def)
  then have "filter (\<lambda>r. ?c < ev_id r) ?xs = filter (\<lambda>r. ?c < ev_id r) (in_id_order d)"
    by (auto simp: page_rows_def after_cursor_def split: option.splits intro!: filter_cong)
  moreover have "sorted (map ev_id ?xs)" "distinct (map ev_id ?xs)"
    using assms(1) by (simp_all add: page_rows_def in_id_order_def sorted_filter distinct_map_filter distinct_sort_map)
  ultimately show ?thesis using filter_above_nth [OF _ _ assms(3)] above by metis
qed

lemma last_take_nth: "0 < n \<Longrightarrow> n \<le> length xs \<Longrightarrow> last (List.take n xs) = xs ! (n - 1)"
  by (subst last_conv_nth) auto

lemma one_page:
  assumes "1 \<le> limit"
  shows "list_events \<lparr>ld_cursor = cursor, ld_limit = limit\<rparr> d = Inr
    \<lparr>ep_items = map event_response_from (List.take (nat limit) (page_rows cursor d)),
     ep_nextCursor = (if nat limit < length (page_rows cursor d)
       then Some (ev_id (page_rows cursor d ! (nat limit - 1))) else None)\<rparr>"
proof -
  let ?rows = "List.take (nat (limit + 1)) (page_rows cursor d)"
  have more_iff: "limit < int (length ?rows) \<longleftrightarrow> nat limit < length (page_rows cursor d)" using assms by auto
  have "last (List.take (nat limit) ?rows) = page_rows cursor d ! (nat limit - 1)"
    and "List.take (nat limit) ?rows \<noteq> []" if "nat limit < length (page_rows cursor d)"
    using assms that last_take_nth [of "nat limit" "page_rows cursor d"] by auto
  moreover have "List.take (nat limit) ?rows = List.take (nat limit) (page_rows cursor d)" using assms by simp
  moreover have "?rows = List.take (nat limit) (page_rows cursor d)" if "\<not> nat limit < length (page_rows cursor d)"
    using that by simp
  ultimately show ?thesis
    using assms more_iff by (auto simp: list_events_def sorted_page_rows sql_limit_def Let_def simp del: length_take)
qed

lemma follow_pages_rows:
  assumes "distinct (map ev_id (t_events d))" "\<forall>r \<in> set (t_events d). ev_id r \<noteq> []" "1 \<le> limit"
  shows "length (page_rows cursor d) \<le> fuel * nat limit \<Longrightarrow> 0 < fuel \<Longrightarrow>
    \<exists>pages. follow_pages fuel limit cursor d = Some pages
      \<and> concat pages = map event_response_from (page_rows cursor d)
      \<and> (\<forall>p \<in> set pages. length p \<le> nat limit) \<and> length pages \<le> fuel"
proof (induction fuel arbitrary: cursor)
  case (Suc fuel)
  let ?xs = "page_rows cursor d"
  show ?case
  proof (cases "nat limit < length ?xs")
    case False
    then show ?thesis by (simp add: one_page [OF assms(3)])
  next
    case True
    let ?c = "ev_id (?xs ! (nat limit - 1))"
    have rest: "page_rows (Some ?c) d = drop (nat limit) ?xs"
      using page_rows_next [OF assms(1,2), of "nat limit - 1" cursor] True assms(3) by simp
    have "0 < fuel" using Suc.prems(1) True by (cases fuel) auto
    moreover have "length (page_rows (Some ?c) d) \<le> fuel * nat limit" using Suc.prems(1) rest by simp
    ultimately obtain pages where pages: "follow_pages fuel limit (Some ?c) d = Some pages"
      "concat pages = map event_response_from (drop (nat limit) ?xs)" "\<forall>p \<in> set pages. length p \<le> nat limit"
      "length pages \<le> fuel"
      using Suc.IH [of "Some ?c"] rest by auto
    have "map event_response_from (List.take (nat limit) ?xs) @ concat pages = map event_response_from ?xs"
      by (simp add: pages(2) flip: map_append)
    with True pages show ?thesis by (simp add: one_page [OF assms(3)])
  qed
qed simp

text \<open>
  C40. Keyset pagination enumerates the events: for every page size from 1 to 100, a client that starts
  without a cursor and follows \<open>nextCursor\<close> reaches the last page after at most \<open>n\<close> pages for \<open>n\<close> events
  (one, when there are none); the pages, none longer than the limit, list every event exactly once in the
  order of the ids.
\<close>

theorem pages_enumerate_events:
  assumes "distinct (map ev_id (t_events d))" and "\<forall>r \<in> set (t_events d). ev_id r \<noteq> []"
    and "valid_list_dto isUUID \<lparr>ld_cursor = None, ld_limit = limit\<rparr>"
  shows "\<exists>pages. follow_pages (max 1 (length (t_events d))) limit None d = Some pages
    \<and> concat pages = map event_response_from (sort_key ev_id (t_events d))
    \<and> (\<forall>p \<in> set pages. length p \<le> nat limit) \<and> length pages \<le> max 1 (length (t_events d))"
proof -
  have limit: "1 \<le> limit" using assms(3) by (simp add: valid_list_dto_def)
  then have "length (page_rows None d) \<le> max 1 (length (t_events d)) * nat limit"
    by (auto simp: page_rows_start in_id_order_def intro: le_trans [OF _ mult_le_mono2 [of 1]])
  from follow_pages_rows [OF assms(1,2) limit this] show ?thesis
    by (simp add: page_rows_start in_id_order_def)
qed

text \<open>
  A created event can be read back and starts with a right ledger: when the insert succeeds, the uncached
  read returns the answer given to the caller, all its seats are available, every other event reads as
  before, and a ledger that was right stays right; when it fails nothing changes.
\<close>

theorem created_event_reads_back:
  assumes "create_event parseDate dto generated now d = (answer, d')" and "1 \<le> cd_totalSeats dto"
  shows "(case answer of
       Inl e \<Rightarrow> d' = d
     | Inr r \<Rightarrow> findOneUncached generated d' = Inr r \<and> er_availableSeats r = cd_totalSeats dto
         \<and> er_totalSeats r = cd_totalSeats dto
         \<and> (\<forall>i. i \<noteq> generated \<longrightarrow> findOneUncached i d' = findOneUncached i d)
         \<and> (ledger_ok d \<longrightarrow> ledger_ok d'))"
proof (cases answer)
  case (Inl e)
  with assms(1) show ?thesis by (auto simp: create_event_def Let_def split: option.splits if_splits)
next
  case (Inr r)
  then obtain startsAt where s: "r = event_response_from (new_event dto startsAt generated now)"
    "d' = d\<lparr>t_events := t_events d @ [new_event dto startsAt generated now]\<rparr>" "generated \<notin> ev_id ` set (t_events d)"
    using assms(1) by (auto simp: create_event_def Let_def split: option.splits if_splits)
  let ?e = "new_event dto startsAt generated now"
  have id: "ev_id ?e = generated" "ev_availableSeats ?e = cd_totalSeats dto" "ev_totalSeats ?e = cd_totalSeats dto"
    by (simp_all add: new_event_def)
  have new: "find_event generated d = None" using s(3) by (auto simp: find_event_def find_None_iff)
  have found: "find_event i d' = (if i = generated then Some ?e else find_event i d)" for i
    using new by (simp add: s(2) find_event_append id split: option.splits)
  have "ledger_ok d'" if l: "ledger_ok d"
  proof -
    have "filter (\<lambda>b. bk_eventId b = generated \<and> bk_status b = Confirmed) (t_bookings d) = []"
      using l new by (auto simp: ledger_ok_def filter_empty_conv)
    then have "sold generated (t_bookings d) = 0" by (simp add: sold_def)
    with l s(3) assms(2) found show ?thesis
      by (auto simp: ledger_ok_def s(2) id intro: image_eqI)
  qed
  with Inr found show ?thesis
    by (simp add: findOneUncached_def s(1) event_response_from_def id)
qed

subsection \<open>Concrete runs\<close>

definition sample_event_dto :: create_event_dto where
  "sample_event_dto = \<lparr>cd_name = ''Arena'', cd_venue = ''Hall'', cd_totalSeats = 100, cd_priceCents = 25000,
     cd_startsAt = ''2026-12-01T12:00:00Z''\<rparr>"

definition three_events :: db where
  "three_events = empty_db\<lparr>t_events := map (\<lambda>i. new_event sample_event_dto 0 i 0) [''b'', ''c'', ''a'']\<rparr>"

lemma pages_enumerate_events_witness:
  "\<exists>pages. follow_pages 3 2 None three_events = Some pages \<and> length (concat pages) = 3 \<and> (\<forall>p \<in> set pages. length p \<le> 2)"
proof -
  have d: "map ev_id (t_events three_events) = [''b'', ''c'', ''a'']"
    by (simp add: three_events_def new_event_def)
  have "distinct (map ev_id (t_events three_events))" unfolding d by simp
  moreover have "\<forall>r \<in> set (t_events three_events). ev_id r \<noteq> []"
    by (simp add: three_events_def new_event_def)
  moreover have n: "length (t_events three_events) = 3" by (simp add: three_events_def)
  moreover have "valid_list_dto (\<lambda>_. True) \<lparr>ld_cursor = None, ld_limit = 2\<rparr>" by (simp add: valid_list_dto_def)
  moreover have three: "max 1 (length (t_events three_events)) = 3" by (simp add: n)
  ultimately have "\<exists>pages. follow_pages 3 2 None three_events = Some pages
      \<and> concat pages = map event_response_from (sort_key ev_id (t_events three_events))
      \<and> (\<forall>p \<in> set pages. length p \<le> nat 2) \<and> length pages \<le> 3"
    using pages_enumerate_events [of three_events "\<lambda>_. True" 2, unfolded three] by blast
  then obtain pages where "follow_pages 3 2 None three_events = Some pages"
    "concat pages = map event_response_from (sort_key ev_id (t_events three_events))" "\<forall>p \<in> set pages. length p \<le> 2"
    by (elim exE conjE) simp
  then show ?thesis by (intro exI [of _ pages]) (simp add: n)
qed

lemma created_event_reads_back_witness:
  "findOneUncached ''b'' (snd (create_event (\<lambda>_. Some 0) sample_event_dto ''b'' 0 empty_db))
     = fst (create_event (\<lambda>_. Some 0) sample_event_dto ''b'' 0 empty_db)"
proof -
  obtain answer d' where c: "create_event (\<lambda>_. Some 0) sample_event_dto ''b'' 0 empty_db = (answer, d')" by fastforce
  then have "\<not> thrown answer"
    by (auto simp: create_event_def empty_db_def event_fits_def new_event_def sample_event_dto_def pg_int_def Let_def)
  with created_event_reads_back [OF c] c show ?thesis
    by (cases answer) (simp_all add: sample_event_dto_def)
qed

end
