(* ===== verification/CacheRace.thy ===== *)
theory CacheRace
  imports BookOutcomes
begin

section \<open>The cached event while bookings go on\<close>

text \<open>
  Reads of one event through \<open>EventsService.findOne\<close> while others load it, write its entry, book seats and
  invalidate it (\<open>redis/cache.service.ts\<close>, \<open>events/events.service.ts\<close>), statement by statement: how old the
  seats shown can be, and how an old count comes back after its invalidation. A run is the list of its
  states, the latest first.
\<close>

text \<open>
  \<open>rc_loads\<close> holds, for every caller between its \<open>SELECT\<close> and its write, the value read and the time it was
  read; \<open>rc_expires\<close> is when Redis drops the entry.
\<close>

record ('s, 'k) race =
  rc_world :: "('s, 'k) world"
  rc_loads :: "nat \<rightharpoonup> jsval \<times> ms"
  rc_expires :: ms

definition race_now :: "('s, 'k) race \<Rightarrow> ms" where
  "race_now s = wd_now (rc_world s)"

definition race_raw :: "('s, 'k) services \<Rightarrow> uuid \<Rightarrow> ('s, 'k) race \<Rightarrow> string option" where
  "race_raw S i s = rd_get S (eventCacheKey i) (wd_redis (rc_world s))"

definition event_at :: "uuid \<Rightarrow> ('s, 'k) race \<Rightarrow> jsval" where
  "event_at i s = event_value (find_event i (wd_db (rc_world s)))"

definition fresh_seconds :: "config \<Rightarrow> rat \<Rightarrow> int" where
  "fresh_seconds cfg rnd = ttlWithJitter (cache_ttlSeconds cfg) (cache_ttlJitterSeconds cfg) rnd"

definition cache_write_race :: "config \<Rightarrow> ('s, 'k) services \<Rightarrow> uuid \<Rightarrow> jsval \<Rightarrow> rat \<Rightarrow> ('s, 'k) race \<Rightarrow> ('s, 'k) race" where
  "cache_write_race cfg S i v rnd s =
     (let w = rc_world s; redisTtl = fresh_seconds cfg rnd + cache_staleSeconds cfg in
      s\<lparr>rc_world := cache_write cfg S (eventCacheKey i) v None rnd w,
        rc_expires := (if rd_up S (wd_redis w) \<and> 0 < redisTtl then wd_now w + redisTtl * 1000 else rc_expires s)\<rparr>)"

inductive cache_step :: "config \<Rightarrow> ('s, 'k) services \<Rightarrow> uuid \<Rightarrow> ('s, 'k) race \<Rightarrow> ('s, 'k) race \<Rightarrow> bool"
  for cfg :: config and S :: "('s, 'k) services" and i :: uuid where
  selects: "rc_loads s r = None \<Longrightarrow> load_event i (rc_world s) = (Inr v, w) \<Longrightarrow>
    cache_step cfg S i s (s\<lparr>rc_world := w, rc_loads := (rc_loads s)(r \<mapsto> (v, race_now s))\<rparr>)"
| writes_entry: "rc_loads s r = Some (v, t) \<Longrightarrow> 0 \<le> rnd \<Longrightarrow> rnd < 1 \<Longrightarrow>
    cache_step cfg S i s ((cache_write_race cfg S i v rnd s)\<lparr>rc_loads := (rc_loads s)(r := None)\<rparr>)"
| leaves: "cache_step cfg S i s (s\<lparr>rc_loads := (rc_loads s)(r := None)\<rparr>)"
| commits: "cache_step cfg S i s (s\<lparr>rc_world := (rc_world s)\<lparr>wd_db := d\<rparr>\<rparr>)"
| invalidates: "cache_step cfg S i s (s\<lparr>rc_world := invalidateCache S i (rc_world s)\<rparr>)"
| passes: "wd_db w = wd_db (rc_world s) \<Longrightarrow> race_now s \<le> wd_now w \<Longrightarrow>
    rd_get S (eventCacheKey i) (wd_redis w) = None
      \<or> rd_get S (eventCacheKey i) (wd_redis w) = race_raw S i s \<and> wd_now w < rc_expires s \<Longrightarrow>
    cache_step cfg S i s (s\<lparr>rc_world := w\<rparr>)"

inductive cache_run :: "config \<Rightarrow> ('s, 'k) services \<Rightarrow> uuid \<Rightarrow> ('s, 'k) race list \<Rightarrow> bool"
  for cfg :: config and S :: "('s, 'k) services" and i :: uuid where
  cold: "race_raw S i s = None \<Longrightarrow> rc_loads s = Map.empty \<Longrightarrow> cache_run cfg S i [s]"
| goes_on: "cache_run cfg S i (s # past) \<Longrightarrow> cache_step cfg S i s s' \<Longrightarrow> cache_run cfg S i (s' # s # past)"

text \<open>No load is under way for longer than \<open>D\<close>.\<close>

definition loads_within :: "ms \<Rightarrow> ('s, 'k) race list \<Rightarrow> bool" where
  "loads_within D run \<longleftrightarrow> (\<forall>s \<in> set run. \<forall>r v t. rc_loads s r = Some (v, t) \<longrightarrow> race_now s \<le> t + D)"

text \<open>The longest an entry lives: the longest time it is fresh, and the time it is stale.\<close>

definition entry_life :: "config \<Rightarrow> ms" where
  "entry_life cfg = (max 1 (cache_ttlSeconds cfg + max 0 (cache_ttlJitterSeconds cfg)) + cache_staleSeconds cfg) * 1000"

subsection \<open>Entries and loads are values the row had\<close>

lemma fresh_seconds_pos: "1 \<le> fresh_seconds cfg rnd"
  by (simp add: fresh_seconds_def ttlWithJitter_def Let_def)

lemma entry_life_pos:
  assumes "0 \<le> cache_staleSeconds cfg"
  shows "0 < entry_life cfg"
proof -
  have "0 < (m + n) * 1000" if "1 \<le> m" "0 \<le> n" for m n :: int using that by simp
  from this [OF max.cobounded1 assms] show ?thesis unfolding entry_life_def .
qed

lemma fresh_seconds_range:
  assumes "0 \<le> rnd" "rnd < 1"
  shows "(fresh_seconds cfg rnd + cache_staleSeconds cfg) * 1000 \<le> entry_life cfg"
  using js_floor_mult_range [OF assms, of "cache_ttlJitterSeconds cfg + 1"]
  by (auto simp: fresh_seconds_def ttlWithJitter_def entry_life_def Let_def)

text \<open>
  What is known of the latest state \<open>s\<close> of a run that has seen the states \<open>X\<close>: time has not run backwards,
  and both the values of loads under way and the entry are values the row had in states of the run, not too
  long ago.
\<close>

definition entry_from :: "config \<Rightarrow> ('s, 'k) services \<Rightarrow> uuid \<Rightarrow> ms \<Rightarrow> ('s, 'k) race \<Rightarrow> ('s, 'k) race \<Rightarrow> bool" where
  "entry_from cfg S i D s x \<longleftrightarrow> (\<exists>f. race_raw S i s = Some (JSON_stringify (envelope (event_at i x) f)))
     \<and> race_now s < rc_expires s \<and> rc_expires s \<le> race_now x + D + entry_life cfg"

definition recent :: "config \<Rightarrow> ('s, 'k) services \<Rightarrow> uuid \<Rightarrow> ms \<Rightarrow> ('s, 'k) race set \<Rightarrow> ('s, 'k) race \<Rightarrow> bool" where
  "recent cfg S i D X s \<longleftrightarrow> (\<forall>x \<in> X. race_now x \<le> race_now s)
     \<and> (\<forall>r v t. rc_loads s r = Some (v, t) \<longrightarrow> (\<exists>x \<in> X. event_at i x = v \<and> race_now x = t))
     \<and> (race_raw S i s \<noteq> None \<longrightarrow> (\<exists>x \<in> X. entry_from cfg S i D s x))"

lemma recent_insert: "recent cfg S i D X s \<Longrightarrow> recent cfg S i D (insert s X) s"
  unfolding recent_def by blast

lemma recent_mono:
  assumes "recent cfg S i D X s" "race_now s' = race_now s" "rc_expires s' = rc_expires s" "rc_loads s' \<subseteq>\<^sub>m rc_loads s"
    and "race_raw S i s' = race_raw S i s \<or> race_raw S i s' = None"
  shows "recent cfg S i D (insert s' X) s'"
proof -
  have loads: "rc_loads s r = Some l" if "rc_loads s' r = Some l" for r l
    using assms(4) that by (metis domI map_le_def)
  have entry: "entry_from cfg S i D s' x" if "race_raw S i s' \<noteq> None" "entry_from cfg S i D s x" for x
    using assms(2,3,5) that by (auto simp: entry_from_def)
  have "recent cfg S i D X s'"
    using assms(1,2,5) loads entry unfolding recent_def by (metis (no_types, lifting))
  then show ?thesis by (rule recent_insert)
qed

lemma cache_write_raw:
  assumes "store_commands_ok S" "json_ok v"
  shows "race_raw S i (cache_write_race cfg S i v rnd s) =
    (if rd_up S (wd_redis (rc_world s)) \<and> 0 < fresh_seconds cfg rnd + cache_staleSeconds cfg
     then Some (JSON_stringify (envelope v (race_now s + fresh_seconds cfg rnd * 1000))) else race_raw S i s)"
  using assms(1) by (simp add: race_raw_def cache_write_race_def cache_write_def fresh_seconds_def race_now_def
      store_commands_ok_def Let_def)

lemma recent_write:
  assumes "store_commands_ok S" "recent cfg S i D X s" "rc_loads s r = Some (v, t)" "race_now s \<le> t + D" "0 \<le> rnd" "rnd < 1"
    and s': "s' = (cache_write_race cfg S i v rnd s)\<lparr>rc_loads := (rc_loads s)(r := None)\<rparr>"
  shows "recent cfg S i D (insert s' X) s'"
proof -
  let ?ttl = "fresh_seconds cfg rnd + cache_staleSeconds cfg"
  obtain x where x: "x \<in> X" "event_at i x = v" "race_now x = t" using assms(2,3) unfolding recent_def by blast
  have "json_ok v" using x(2) event_value_ok by (auto simp: event_at_def)
  note raw = cache_write_raw [OF assms(1) this, of i cfg rnd s]
  have nows: "race_now s' = race_now s" by (simp add: s' race_now_def cache_write_race_def Let_def)
  have raw': "race_raw S i s' = race_raw S i (cache_write_race cfg S i v rnd s)" by (simp add: s' race_raw_def)
  have loads: "rc_loads s' \<subseteq>\<^sub>m rc_loads s" by (simp add: s' map_le_def)
  show ?thesis
  proof (cases "rd_up S (wd_redis (rc_world s)) \<and> 0 < ?ttl")
    case True
    have exp: "rc_expires s' = race_now s + ?ttl * 1000"
      using True by (simp add: s' cache_write_race_def race_now_def Let_def)
    have "entry_from cfg S i D s' x"
      using True x fresh_seconds_range [OF assms(5,6), of cfg] assms(4)
      by (auto simp: entry_from_def raw' raw exp nows)
    moreover have "\<exists>x \<in> X. event_at i x = v' \<and> race_now x = t'" if "rc_loads s' r' = Some (v', t')" for r' v' t'
      using assms(2) that unfolding recent_def s' by (auto split: if_splits)
    ultimately show ?thesis using assms(2) x(1) nows unfolding recent_def by auto
  next
    case False
    show ?thesis
      by (rule recent_mono [OF assms(2) nows _ loads])
        (use False raw raw' in \<open>auto simp: s' cache_write_race_def Let_def\<close>)
  qed
qed

lemma recent_step:
  assumes "cache_step cfg S i s s'" "store_commands_ok S" "lock_commands_ok S" "recent cfg S i D X s" "s \<in> X"
    and "\<forall>r v t. rc_loads s r = Some (v, t) \<longrightarrow> race_now s \<le> t + D"
  shows "recent cfg S i D (insert s' X) s'"
  using assms(1)
proof cases
  case (selects r v w)
  then have "v = event_at i s" "w = rc_world s" by (auto simp: load_event_def event_at_def)
  with selects assms(4,5) show ?thesis
    unfolding recent_def entry_from_def by (auto simp: race_now_def race_raw_def event_at_def)
next
  case (writes_entry r v t rnd)
  with assms(6) show ?thesis by (intro recent_write [OF assms(2,4)]) auto
next
  case (leaves r)
  then show ?thesis by (intro recent_mono [OF assms(4)]) (auto simp: race_now_def race_raw_def map_le_def)
next
  case (commits d)
  then show ?thesis by (intro recent_mono [OF assms(4)]) (auto simp: race_now_def race_raw_def)
next
  case invalidates
  then show ?thesis
    using lock_commandsD(3) [OF assms(3)]
    by (intro recent_mono [OF assms(4)]) (auto simp: race_now_def race_raw_def invalidateCache_def cache_invalidate_def)
next
  case (passes w)
  have "rc_loads s' = rc_loads s" "rc_expires s' = rc_expires s" "race_now s' = wd_now w"
    "race_raw S i s' = rd_get S (eventCacheKey i) (wd_redis w)"
    using passes(1) by (simp_all add: race_now_def race_raw_def)
  note s' = this
  have "entry_from cfg S i D s' x" if "race_raw S i s' \<noteq> None" "entry_from cfg S i D s x" for x
    using passes(4) s' that by (auto simp: entry_from_def)
  moreover have "race_raw S i s \<noteq> None" if "race_raw S i s' \<noteq> None" using passes(4) s' that by auto
  moreover have "race_now x \<le> race_now s'" if "x \<in> X" for x
    using passes(3) s' assms(4) that unfolding recent_def by fastforce
  ultimately have "recent cfg S i D X s'" using assms(4) s' unfolding recent_def by (metis (no_types, lifting))
  then show ?thesis by (rule recent_insert)
qed

lemma loads_within_Cons:
  "loads_within D (s # past) \<longleftrightarrow> loads_within D past \<and> (\<forall>r v t. rc_loads s r = Some (v, t) \<longrightarrow> race_now s \<le> t + D)"
  by (auto simp: loads_within_def)

lemma run_recent:
  assumes "cache_run cfg S i run" "store_commands_ok S" "lock_commands_ok S" "loads_within D run"
  shows "run \<noteq> [] \<and> recent cfg S i D (set run) (hd run)"
  using assms(1,4)
proof induction
  case (cold s)
  then show ?case by (simp add: recent_def)
next
  case (goes_on s past s')
  then have "recent cfg S i D (set (s # past)) s" by (simp add: loads_within_Cons)
  with recent_step [OF goes_on(2) assms(2,3)] goes_on(4) show ?case by (simp add: loads_within_Cons)
qed

text \<open>The past of any state of a run is a run.\<close>

lemma run_past:
  "cache_run cfg S i run \<Longrightarrow> s \<in> set run \<Longrightarrow> \<exists>past. cache_run cfg S i (s # past) \<and> set (s # past) \<subseteq> set run"
proof (induction rule: cache_run.induct)
  case (cold s)
  then show ?case by (intro exI [of _ "[]"]) (auto intro: cache_run.cold)
next
  case (goes_on s0 past s')
  show ?case
  proof (cases "s = s'")
    case True
    with goes_on show ?thesis by (intro exI [of _ "s0 # past"]) (auto intro: cache_run.goes_on)
  next
    case False
    with goes_on show ?thesis by fastforce
  qed
qed

lemma entry_is_recent:
  assumes "cache_run cfg S i run" "store_commands_ok S" "lock_commands_ok S" "loads_within D run" "s \<in> set run"
    and "cache_read S (eventCacheKey i) (rc_world s) = Some e"
  shows "\<exists>x \<in> set run. entry_v e = event_at i x \<and> race_now s < race_now x + D + entry_life cfg"
proof -
  obtain past where past: "cache_run cfg S i (s # past)" "set (s # past) \<subseteq> set run"
    using run_past [OF assms(1,5)] by blast
  then have "loads_within D (s # past)" using assms(4) by (auto simp: loads_within_def)
  then have "recent cfg S i D (set (s # past)) s" using run_recent [OF past(1) assms(2,3)] by simp
  moreover have "race_raw S i s \<noteq> None"
    using assms(6) by (auto simp: cache_read_def race_raw_def split: if_splits option.splits)
  ultimately obtain x f where x: "x \<in> set (s # past)" "race_raw S i s = Some (JSON_stringify (envelope (event_at i x) f))"
    "race_now s < race_now x + D + entry_life cfg"
    unfolding recent_def entry_from_def by force
  have "JSON_parse (JSON_stringify (envelope (event_at i x) f)) = Some (envelope (event_at i x) f)"
    by (rule envelope_reads_back) (simp add: event_at_def event_value_ok)
  then have "e = envelope (event_at i x) f"
    using assms(6) x(2) by (auto simp: cache_read_def race_raw_def split: if_splits)
  with x past(2) show ?thesis by auto
qed

subsection \<open>How old an answer can be\<close>

text \<open>The loader of one event, in the worlds in which the event's value is one of \<open>V\<close>, is a client of the cache.\<close>

interpretation event_history: cached_load "load_event i" "\<lambda>w. event_value (find_event i (wd_db w)) \<in> V" "\<lambda>v. v \<in> V" for i V
  by unfold_locales (auto simp: load_event_def)

text \<open>
  C28. Answers from the cache are never older than the cache allows, whatever happens meanwhile: in every
  interleaving of loads, writes of entries, bookings and other commits, invalidations, expiries and outages
  of Redis, if no load takes longer than \<open>D\<close>, a call of \<open>findOne\<close> - a hit, a stale hit, a miss, a wait for
  another caller, a fallback - answers what \<open>findOneUncached\<close> answers at a moment less than \<open>D\<close> plus one
  entry's life (base and jitter and stale seconds) before it, or fails because Redis is down.
\<close>

theorem find_one_staleness_bounded:
  assumes "store_commands_ok S" and "lock_commands_ok S" and "0 < cache_lockTtlMs cfg"
    and "cache_run cfg S i run" and "loads_within D run" and "0 \<le> D" and "0 \<le> cache_staleSeconds cfg"
    and "s \<in> set run" and "\<forall>w \<in> set (ce_rounds ce). \<exists>x \<in> set run. w = rc_world x \<and> race_now s \<le> race_now x"
    and "findOne cfg S ce i (rc_world s) = Some ((answer, w'), refresh)"
  shows "\<exists>x \<in> set run. race_now s < race_now x + D + entry_life cfg
    \<and> (answer = (case findOneUncached i (wd_db (rc_world x)) of Inl e \<Rightarrow> Inl e | Inr r \<Rightarrow> Inr (event_json r))
       \<or> answer = Inl RedisDown)"
proof -
  define V where "V = event_at i ` {x \<in> set run. race_now s < race_now x + D + entry_life cfg}"
  note life = entry_life_pos [OF assms(7)]
  have good: "event_value (find_event i (wd_db (rc_world x))) \<in> V \<and> cache_good S (eventCacheKey i) (\<lambda>v. v \<in> V) (rc_world x)"
    if "x \<in> set run" "race_now s \<le> race_now x" for x
    using that assms(6) life entry_is_recent [OF assms(4,1,2,5) that(1)]
    by (fastforce simp: V_def event_at_def cache_good_def)
  have rb: "v \<in> V \<Longrightarrow> json_ok v" for v by (auto simp: V_def event_at_def event_value_ok)
  obtain a where run: "getOrLoad cfg S (eventCacheKey i) ''event'' None ce (load_event i) (rc_world s) = Some ((a, w'), refresh)"
    and answer: "answer = (case a of Inl e \<Rightarrow> Inl e | Inr c \<Rightarrow> if falsy c then Inl (event_not_found i) else Inr c)"
    using assms(10) by (auto simp: findOne_def split: option.splits sum.splits prod.splits)
  have a: "(\<forall>v. a = Inr v \<longrightarrow> v \<in> V) \<and> (\<forall>e. a = Inl e \<longrightarrow> e = RedisDown)"
    using event_history.getOrLoad_good [OF assms(2,1,3) rb _ _ _ run] good [OF assms(8)] assms(9) good
    by (fastforce simp: load_event_def)
  show ?thesis
  proof (cases a)
    case (Inl e)
    with a answer assms(6,8) life show ?thesis by (intro bexI [of _ s]) auto
  next
    case (Inr v)
    with a obtain x where "x \<in> set run" "race_now s < race_now x + D + entry_life cfg"
      and v: "v = event_value (find_event i (wd_db (rc_world x)))" by (auto simp: V_def event_at_def)
    with Inr answer event_value_falsy [of "find_event i (wd_db (rc_world x))"] show ?thesis
      by (intro bexI [of _ x] conjI disjI1)
        (auto simp: findOneUncached_def event_value_def split: option.splits)
  qed
qed

subsection \<open>An old count survives its invalidation\<close>

text \<open>
  C29. The invalidation after a booking does not reach a load that is under way: when a caller has read the
  event before a booking commits and writes its entry after the booking has removed the cached one, every
  later request within the entry's fresh time is answered with the seats of before the booking, although the
  booking is confirmed, the database shows the seats gone, and no request is under way any more.
\<close>

theorem late_load_outlives_booking:
  assumes "store_commands_ok S" and "cache_enabled cfg" and "\<And>r. rd_up S r"
    and "0 \<le> cache_staleSeconds cfg" and "0 < cb_quantity (bq_dto q)"
    and "retries_ok cfg" and "sell cfg q env (wd_db w) = (Inr x, d')"
    and "load_event (bq_eventId q) w = (Inr v, w0)"
    and "book cfg S env dies q w = (answer, w1)"
    and "wd_redis w2 = wd_redis (cache_write cfg S (eventCacheKey (bq_eventId q)) v None rnd w1)"
    and "wd_db w2 = wd_db w1" and "wd_now w2 < wd_now w1 + fresh_seconds cfg rnd * 1000"
  shows "\<exists>old new. findOneUncached (bq_eventId q) (wd_db w) = Inr old \<and> findOneUncached (bq_eventId q) (wd_db w2) = Inr new
    \<and> er_availableSeats new = er_availableSeats old - cb_quantity (bq_dto q)
    \<and> findOne cfg S ce (bq_eventId q) w2 = Some ((Inr (event_json old), count_cache ''event'' ''hit'' w2), False)"
proof -
  obtain r where r: "find_event (bq_eventId q) (wd_db w) = Some r"
    "d' = (set_event (bq_eventId q) (touched env (sold_row cfg q r)) (wd_db w))\<lparr>t_bookings := t_bookings d', t_outbox := t_outbox d'\<rparr>"
    using assms(7) by (auto simp: sell_def Let_def split: option.splits if_splits)
  have "ev_id (touched env (sold_row cfg q r)) = bq_eventId q" using find_event_id [OF r(1)] by (simp add: sold_row_def)
  then have new: "find_event (bq_eventId q) d' = Some (touched env (sold_row cfg q r))"
    using find_set_event [of "touched env (sold_row cfg q r)" "bq_eventId q" "bq_eventId q" "wd_db w"] r(1)
    by (subst r(2)) (simp add: find_event_def)
  have db: "wd_db w2 = d'" using book_sale [OF assms(6,7), of S dies] assms(9,11) by (auto split: if_splits)
  have v: "v = event_json (event_response_from r)" using assms(8) r(1) by (simp add: load_event_def event_value_def)
  have "json_ok v" using event_value_ok [of "Some r"] by (simp add: v event_value_def)
  moreover have "0 < fresh_seconds cfg rnd + cache_staleSeconds cfg"
    using assms(4) fresh_seconds_pos [of cfg rnd] by linarith
  ultimately have "cache_read S (eventCacheKey (bq_eventId q)) w2 = Some (envelope v (wd_now w1 + fresh_seconds cfg rnd * 1000))"
    using assms(1,3,10) by (simp add: cache_read_def cache_write_def Let_def store_commands_ok_def envelope_reads_back fresh_seconds_def)
  moreover have "\<not> falsy v" using event_value_falsy [of "Some r"] by (simp add: v event_value_def)
  ultimately have "findOne cfg S ce (bq_eventId q) w2 = Some ((Inr v, count_cache ''event'' ''hit'' w2), False)"
    using assms(2,12) by (simp add: findOne_def getOrLoad_def)
  then show ?thesis
    using r(1) new db by (simp add: findOneUncached_def v event_response_from_def sold_row_def touched_def)
qed

subsection \<open>Concrete runs\<close>

text \<open>A caller reads the event, the last seat is sold meanwhile, and the caller's entry is written after that.\<close>

abbreviation race_config :: config where
  "race_config \<equiv> default_config Pessimistic"

definition sold_out_db :: db where
  "sold_out_db = one_seat_db\<lparr>t_events := [one_seat\<lparr>ev_availableSeats := 0\<rparr>]\<rparr>"

definition race_start :: "(mini_redis, mini_broker) race" where
  "race_start = \<lparr>rc_world = mini_world one_seat_db, rc_loads = (\<lambda>_. None), rc_expires = 0\<rparr>"

definition race_read :: "(mini_redis, mini_broker) race" where
  "race_read = race_start\<lparr>rc_loads := [0 \<mapsto> (event_value (Some one_seat), 0)]\<rparr>"

definition race_sold :: "(mini_redis, mini_broker) race" where
  "race_sold = race_read\<lparr>rc_world := mini_world sold_out_db\<rparr>"

definition race_written :: "(mini_redis, mini_broker) race" where
  "race_written = (cache_write_race race_config mini ''e1'' (event_value (Some one_seat)) 0 race_sold)\<lparr>rc_loads := (rc_loads race_sold)(0 := None)\<rparr>"

lemmas race_defs = race_start_def race_read_def race_sold_def race_written_def sold_out_db_def

lemma late_run: "cache_run race_config mini ''e1'' [race_written, race_sold, race_read, race_start]"
proof -
  have "cache_run race_config mini ''e1'' [race_start]"
    by (rule cache_run.cold) (simp_all add: race_start_def race_raw_def mini_def mini_world_def)
  moreover have "cache_step race_config mini ''e1'' race_start race_read"
    using cache_step.selects [of race_start 0 "''e1''" "event_value (Some one_seat)" "rc_world race_start" race_config mini]
    by (simp add: race_defs load_event_def find_event_def mini_world_def one_seat_db_def one_seat_def race_now_def)
  moreover have "cache_step race_config mini ''e1'' race_read race_sold"
    using cache_step.commits [of race_config mini "''e1''" race_read sold_out_db]
    by (simp add: race_defs mini_world_def)
  moreover have "cache_step race_config mini ''e1'' race_sold race_written"
    using cache_step.writes_entry [of race_sold 0 "event_value (Some one_seat)" 0 0 race_config mini "''e1''"]
    by (simp add: race_written_def) (simp add: race_sold_def race_read_def)
  ultimately show ?thesis by (blast intro: cache_run.goes_on)
qed

lemma late_entry: "cache_read mini (eventCacheKey ''e1'') (rc_world race_written)
    = Some (envelope (event_value (Some one_seat)) (fresh_seconds race_config 0 * 1000))"
proof -
  have "json_ok (event_value (Some one_seat))" by (rule event_value_ok)
  then show ?thesis
    using fresh_seconds_pos [of race_config 0]
    by (simp add: race_written_def race_sold_def cache_write_race_def cache_read_def cache_write_def Let_def mini_def
        mini_world_def fresh_seconds_def envelope_reads_back default_config_def)
qed

lemma late_answer: "\<exists>w'. findOne race_config mini (no_rounds ''t'') ''e1'' (rc_world race_written)
    = Some ((Inr (event_json (event_response_from one_seat)), w'), False)"
proof -
  have "wd_now (rc_world race_written) = 0" by (simp add: race_written_def race_sold_def cache_write_race_def mini_world_def Let_def)
  then show ?thesis
    using late_entry fresh_seconds_pos [of race_config 0] event_value_falsy [of "Some one_seat"]
    by (simp add: findOne_def getOrLoad_def event_value_def default_config_def)
qed

lemma find_one_staleness_bounded_witness:
  "\<exists>x \<in> set [race_written, race_sold, race_read, race_start].
    race_now race_written < race_now x + 0 + entry_life race_config
    \<and> Inr (event_json (event_response_from one_seat))
        = (case findOneUncached ''e1'' (wd_db (rc_world x)) of Inl e \<Rightarrow> Inl e | Inr r \<Rightarrow> Inr (event_json r))"
proof -
  obtain w' where run: "findOne race_config mini (no_rounds ''t'') ''e1'' (rc_world race_written)
    = Some ((Inr (event_json (event_response_from one_seat)), w'), False)" using late_answer by blast
  have within: "loads_within 0 [race_written, race_sold, race_read, race_start]"
    by (auto simp: loads_within_def race_defs race_now_def mini_world_def cache_write_race_def Let_def split: if_splits)
  have cfg: "0 < cache_lockTtlMs race_config" "0 \<le> cache_staleSeconds race_config" by (simp_all add: default_config_def)
  have rounds: "ce_rounds (no_rounds ''t'' :: (mini_redis, mini_broker) cache_env) = []" by (simp add: no_rounds_def)
  from find_one_staleness_bounded [OF mini_ok cfg(1) late_run within _ cfg(2) _ _ run] rounds
  show ?thesis by simp
qed

lemma late_load_outlives_booking_witness:
  "\<exists>w :: (mini_redis, mini_broker) world. \<exists>old new. findOneUncached ''e1'' (wd_db w) = Inr new \<and> er_availableSeats new = er_availableSeats old - 1
    \<and> findOne race_config mini (no_rounds ''t'') ''e1'' w = Some ((Inr (event_json old), count_cache ''event'' ''hit'' w), False)"
proof -
  let ?w = "mini_world one_seat_db" and ?q = "buyer ''ann''"
  have q: "bq_eventId ?q = ''e1''" "cb_quantity (bq_dto ?q) = 1" by (simp_all add: buyer_def)
  have "\<exists>x d'. sell race_config ?q (draws 0) one_seat_db = (Inr x, d')"
    by (simp add: sell_def run_defs records_fit_def sold_row_def announcement_def)
  then obtain x d' where sale: "sell race_config ?q (draws 0) (wd_db ?w) = (Inr x, d')" by (auto simp: mini_world_def)
  obtain v where load: "load_event (bq_eventId ?q) ?w = (Inr v, ?w)" by (simp add: load_event_def)
  obtain answer w1 where book: "book race_config mini (draws 0) False ?q ?w = (answer, w1)" by fastforce
  define w2 where "w2 = w1\<lparr>wd_redis := wd_redis (cache_write race_config mini (eventCacheKey (bq_eventId ?q)) v None 0 w1)\<rparr>"
  have cfg: "cache_enabled race_config" "0 \<le> cache_staleSeconds race_config" "retries_ok race_config"
    by (simp_all add: default_config_def retries_ok_def)
  have "\<exists>old new. findOneUncached ''e1'' (wd_db ?w) = Inr old \<and> findOneUncached ''e1'' (wd_db w2) = Inr new
    \<and> er_availableSeats new = er_availableSeats old - 1
    \<and> findOne race_config mini (no_rounds ''t'') ''e1'' w2 = Some ((Inr (event_json old), count_cache ''event'' ''hit'' w2), False)"
    using late_load_outlives_booking [OF mini_ok(1) cfg(1) _ cfg(2) _ cfg(3) sale load book, of w2 0 "no_rounds ''t''"]
      fresh_seconds_pos [of race_config 0]
    by (simp add: w2_def q mini_def)
  then show ?thesis by blast
qed

end
