(* ===== verification/Schema.thy ===== *)
theory Schema
  imports Idempotency Notifications
begin

section \<open>The database schema\<close>

text \<open>
  The migrations (\<open>migrations/*.ts\<close>) as lists of statements on a schema, what the entity classes
  (\<open>*.entity.ts\<close>) declare of the same tables, and the constraints that a migrated database puts on a row.
  The indexes that PostgreSQL creates for primary keys, and the runner's own table, are not modelled.
\<close>

datatype sql_type = PgUuid | PgVarchar nat | PgChar nat | PgInteger | PgTimestamptz | PgJsonb | PgText

datatype sql_default = GenRandomUuid | NowDefault | TextDefault string | IntDefault int

text \<open>A reference is to one column of another table, with \<open>ON DELETE CASCADE\<close>.\<close>

record sql_column =
  sc_name :: string
  sc_type :: sql_type
  sc_notNull :: bool
  sc_default :: "sql_default option"
  sc_references :: "(string \<times> string) option"

text \<open>\<open>tb_positive\<close>: the constraints \<open>CHECK (column > 0)\<close>.\<close>

record sql_table =
  tb_columns :: "sql_column list"
  tb_primary :: "string list"
  tb_positive :: "(string \<times> string) list"

text \<open>\<open>ix_where\<close>: the condition \<open>column = text\<close> of a partial index.\<close>

record sql_index =
  ix_name :: string
  ix_table :: string
  ix_columns :: "string list"
  ix_where :: "(string \<times> string) option"

record schema =
  sch_extensions :: "string list"
  sch_tables :: "(string \<times> sql_table) list"
  sch_indexes :: "sql_index list"

datatype ddl =
    CreateExtension string
  | CreateTable string sql_table
  | CreateIndex sql_index
  | DropIndex string
  | DropTable string

subsection \<open>Running statements\<close>

definition column_names :: "sql_table \<Rightarrow> string list" where
  "column_names t = map sc_name (tb_columns t)"

definition table_names :: "schema \<Rightarrow> string list" where
  "table_names s = map fst (sch_tables s)"

definition index_names :: "schema \<Rightarrow> string list" where
  "index_names s = map ix_name (sch_indexes s)"

definition references_to :: "sql_table \<Rightarrow> (string \<times> string) list" where
  "references_to t = List.map_filter sc_references (tb_columns t)"

text \<open>
  \<open>None\<close> is an error. Tables and indexes share their names; \<open>IF NOT EXISTS\<close> and \<open>IF EXISTS\<close> make creating
  the extension and dropping what is not there succeed; a table goes with its indexes, unless another table
  refers to it.
\<close>

fun run_ddl :: "ddl \<Rightarrow> schema \<Rightarrow> schema option" where
  "run_ddl (CreateExtension e) s =
     Some (if e \<in> set (sch_extensions s) then s else s\<lparr>sch_extensions := sch_extensions s @ [e]\<rparr>)"
| "run_ddl (CreateTable n t) s =
     (if n \<notin> set (table_names s @ index_names s) \<and> distinct (column_names t)
         \<and> (\<forall>(n', c) \<in> set (references_to t). \<exists>t'. map_of (sch_tables s) n' = Some t' \<and> tb_primary t' = [c])
      then Some (s\<lparr>sch_tables := sch_tables s @ [(n, t)]\<rparr>) else None)"
| "run_ddl (CreateIndex ix) s =
     (if ix_name ix \<notin> set (table_names s @ index_names s)
         \<and> (case map_of (sch_tables s) (ix_table ix) of None \<Rightarrow> False | Some t \<Rightarrow> set (ix_columns ix) \<subseteq> set (column_names t))
      then Some (s\<lparr>sch_indexes := sch_indexes s @ [ix]\<rparr>) else None)"
| "run_ddl (DropIndex n) s =
     (if n \<in> set (table_names s) then None
      else Some (s\<lparr>sch_indexes := filter (\<lambda>ix. ix_name ix \<noteq> n) (sch_indexes s)\<rparr>))"
| "run_ddl (DropTable n) s =
     (if n \<in> set (index_names s) \<or> (\<exists>(n', t) \<in> set (sch_tables s). n' \<noteq> n \<and> n \<in> fst ` set (references_to t)) then None
      else Some (s\<lparr>sch_tables := filter (\<lambda>x. fst x \<noteq> n) (sch_tables s),
                  sch_indexes := filter (\<lambda>ix. ix_table ix \<noteq> n) (sch_indexes s)\<rparr>))"

fun run_script :: "ddl list \<Rightarrow> schema \<Rightarrow> schema option" where
  "run_script [] s = Some s"
| "run_script (c # cs) s = Option.bind (run_ddl c s) (run_script cs)"

lemma run_script_append: "run_script (xs @ ys) s = Option.bind (run_script xs s) (run_script ys)"
  by (induction xs arbitrary: s) (auto split: Option.bind_splits)

subsection \<open>The migrations\<close>

record migration =
  mg_up :: "ddl list"
  mg_down :: "ddl list"

definition col :: "string \<Rightarrow> sql_type \<Rightarrow> bool \<Rightarrow> sql_default option \<Rightarrow> sql_column" where
  "col n ty required dflt = \<lparr>sc_name = n, sc_type = ty, sc_notNull = required, sc_default = dflt, sc_references = None\<rparr>"

definition events_table :: sql_table where
  "events_table = \<lparr>tb_columns =
     [col ''id'' PgUuid True (Some GenRandomUuid),
      col ''name'' (PgVarchar 200) True None,
      col ''venue'' (PgVarchar 200) True None,
      col ''total_seats'' PgInteger True None,
      col ''available_seats'' PgInteger True None,
      col ''price_cents'' PgInteger True None,
      col ''starts_at'' PgTimestamptz True None,
      col ''version'' PgInteger True (Some (IntDefault 0)),
      col ''created_at'' PgTimestamptz True (Some NowDefault),
      col ''updated_at'' PgTimestamptz True (Some NowDefault)],
     tb_primary = [''id''], tb_positive = []\<rparr>"

definition bookings_table :: sql_table where
  "bookings_table = \<lparr>tb_columns =
     [col ''id'' PgUuid True (Some GenRandomUuid),
      (col ''event_id'' PgUuid True None)\<lparr>sc_references := Some (''events'', ''id'')\<rparr>,
      col ''user_id'' (PgVarchar 100) True None,
      col ''quantity'' PgInteger True None,
      col ''status'' (PgVarchar 20) True (Some (TextDefault ''confirmed'')),
      col ''idempotency_key'' (PgVarchar 200) False None,
      col ''created_at'' PgTimestamptz True (Some NowDefault),
      col ''updated_at'' PgTimestamptz True (Some NowDefault)],
     tb_primary = [''id''], tb_positive = [(''chk_bookings_quantity_positive'', ''quantity'')]\<rparr>"

definition idempotency_keys_table :: sql_table where
  "idempotency_keys_table = \<lparr>tb_columns =
     [col ''key'' (PgVarchar 200) True None,
      col ''endpoint'' (PgVarchar 200) True None,
      col ''request_hash'' (PgChar 64) True None,
      col ''status'' (PgVarchar 20) True (Some (TextDefault ''in_progress'')),
      col ''response_status'' PgInteger False None,
      col ''response_body'' PgJsonb False None,
      col ''created_at'' PgTimestamptz True (Some NowDefault),
      col ''expires_at'' PgTimestamptz True None],
     tb_primary = [''key''], tb_positive = []\<rparr>"

definition outbox_messages_table :: sql_table where
  "outbox_messages_table = \<lparr>tb_columns =
     [col ''id'' PgUuid True (Some GenRandomUuid),
      col ''aggregate_type'' (PgVarchar 100) True None,
      col ''aggregate_id'' (PgVarchar 100) True None,
      col ''event_type'' (PgVarchar 100) True None,
      col ''topic'' (PgVarchar 200) True None,
      col ''message_key'' (PgVarchar 200) True None,
      col ''payload'' PgJsonb True None,
      col ''status'' (PgVarchar 20) True (Some (TextDefault ''pending'')),
      col ''attempts'' PgInteger True (Some (IntDefault 0)),
      col ''available_at'' PgTimestamptz True (Some NowDefault),
      col ''published_at'' PgTimestamptz False None,
      col ''last_error'' PgText False None,
      col ''created_at'' PgTimestamptz True (Some NowDefault)],
     tb_primary = [''id''], tb_positive = []\<rparr>"

definition processed_messages_table :: sql_table where
  "processed_messages_table = \<lparr>tb_columns =
     [col ''message_id'' (PgVarchar 200) True None,
      col ''consumer_group'' (PgVarchar 200) True None,
      col ''event_type'' (PgVarchar 100) True None,
      col ''processed_at'' PgTimestamptz True (Some NowDefault)],
     tb_primary = [''message_id'', ''consumer_group''], tb_positive = []\<rparr>"

definition index_on :: "string \<Rightarrow> string \<Rightarrow> string list \<Rightarrow> sql_index" where
  "index_on n t cs = \<lparr>ix_name = n, ix_table = t, ix_columns = cs, ix_where = None\<rparr>"

definition CreateEventsAndBookings :: migration where
  "CreateEventsAndBookings = \<lparr>
     mg_up =
       [CreateExtension ''pgcrypto'',
        CreateTable ''events'' events_table,
        CreateIndex (index_on ''idx_events_name'' ''events'' [''name'']),
        CreateTable ''bookings'' bookings_table,
        CreateIndex (index_on ''idx_bookings_user_id'' ''bookings'' [''user_id'']),
        CreateIndex (index_on ''idx_bookings_event_id_created_at'' ''bookings'' [''event_id'', ''created_at''])],
     mg_down =
       [DropIndex ''idx_bookings_event_id_created_at'',
        DropIndex ''idx_bookings_user_id'',
        DropTable ''bookings'',
        DropIndex ''idx_events_name'',
        DropTable ''events'']\<rparr>"

definition CreateIdempotencyKeys :: migration where
  "CreateIdempotencyKeys = \<lparr>
     mg_up =
       [CreateTable ''idempotency_keys'' idempotency_keys_table,
        CreateIndex (index_on ''idx_idempotency_keys_expires_at'' ''idempotency_keys'' [''expires_at''])],
     mg_down =
       [DropIndex ''idx_idempotency_keys_expires_at'',
        DropTable ''idempotency_keys'']\<rparr>"

definition CreateOutboxMessages :: migration where
  "CreateOutboxMessages = \<lparr>
     mg_up =
       [CreateTable ''outbox_messages'' outbox_messages_table,
        CreateIndex ((index_on ''idx_outbox_pending'' ''outbox_messages'' [''available_at'', ''created_at''])
          \<lparr>ix_where := Some (''status'', ''pending'')\<rparr>),
        CreateIndex (index_on ''idx_outbox_status_available_at'' ''outbox_messages'' [''status'', ''available_at''])],
     mg_down =
       [DropIndex ''idx_outbox_status_available_at'',
        DropIndex ''idx_outbox_pending'',
        DropTable ''outbox_messages'']\<rparr>"

definition CreateProcessedMessages :: migration where
  "CreateProcessedMessages = \<lparr>
     mg_up = [CreateTable ''processed_messages'' processed_messages_table],
     mg_down = [DropTable ''processed_messages'']\<rparr>"

text \<open>In the order of the timestamps in their names.\<close>

definition migrations :: "migration list" where
  "migrations = [CreateEventsAndBookings, CreateIdempotencyKeys, CreateOutboxMessages, CreateProcessedMessages]"

lemmas migration_defs = CreateEventsAndBookings_def CreateIdempotencyKeys_def CreateOutboxMessages_def
  CreateProcessedMessages_def
lemmas table_defs = events_table_def bookings_table_def idempotency_keys_table_def outbox_messages_table_def
  processed_messages_table_def

definition empty_schema :: schema where
  "empty_schema = \<lparr>sch_extensions = [], sch_tables = [], sch_indexes = []\<rparr>"

text \<open>Starting with nothing, all migrations succeed.\<close>

definition overbook_schema :: schema where
  "overbook_schema = \<lparr>sch_extensions = [''pgcrypto''],
     sch_tables = [(''events'', events_table), (''bookings'', bookings_table),
       (''idempotency_keys'', idempotency_keys_table), (''outbox_messages'', outbox_messages_table),
       (''processed_messages'', processed_messages_table)],
     sch_indexes = [index_on ''idx_events_name'' ''events'' [''name''],
       index_on ''idx_bookings_user_id'' ''bookings'' [''user_id''],
       index_on ''idx_bookings_event_id_created_at'' ''bookings'' [''event_id'', ''created_at''],
       index_on ''idx_idempotency_keys_expires_at'' ''idempotency_keys'' [''expires_at''],
       (index_on ''idx_outbox_pending'' ''outbox_messages'' [''available_at'', ''created_at''])\<lparr>ix_where := Some (''status'', ''pending'')\<rparr>,
       index_on ''idx_outbox_status_available_at'' ''outbox_messages'' [''status'', ''available_at'']]\<rparr>"

lemma migrations_run: "run_script (concat (map mg_up migrations)) empty_schema = Some overbook_schema"
  by (simp add: migrations_def migration_defs empty_schema_def overbook_schema_def table_names_def index_names_def
      column_names_def references_to_def table_defs col_def index_on_def List.map_filter_def)

subsection \<open>Reverting\<close>

text \<open>Indexes belong to tables, and references are to tables, that exist.\<close>

definition schema_ok :: "schema \<Rightarrow> bool" where
  "schema_ok s \<longleftrightarrow> ix_table ` set (sch_indexes s) \<subseteq> set (table_names s)
     \<and> (\<forall>t \<in> snd ` set (sch_tables s). fst ` set (references_to t) \<subseteq> set (table_names s))"

fun undo :: "ddl \<Rightarrow> ddl list" where
  "undo (CreateTable n t) = [DropTable n]"
| "undo (CreateIndex ix) = [DropIndex (ix_name ix)]"
| "undo _ = []"

fun is_create :: "ddl \<Rightarrow> bool" where
  "is_create (DropIndex n) = False"
| "is_create (DropTable n) = False"
| "is_create _ = True"

lemma create_keeps_ok:
  assumes "is_create c" "run_ddl c s = Some s'" "schema_ok s"
  shows "schema_ok s'"
proof (cases c)
  case (CreateTable n t)
  with assms have s': "s' = s\<lparr>sch_tables := sch_tables s @ [(n, t)]\<rparr>"
    and refs: "\<And>n' c. (n', c) \<in> set (references_to t) \<Longrightarrow> map_of (sch_tables s) n' \<noteq> None"
    by (auto split: if_splits)
  have "fst ` set (references_to t) \<subseteq> set (table_names s)"
    using refs by (fastforce simp: table_names_def map_of_eq_None_iff)
  moreover have "set (table_names s') = insert n (set (table_names s))" "snd ` set (sch_tables s') = insert t (snd ` set (sch_tables s))"
    "sch_indexes s' = sch_indexes s" by (simp_all add: s' table_names_def)
  ultimately show ?thesis using assms(3) by (simp add: schema_ok_def) (meson subset_insertI2)
next
  case (CreateIndex ix)
  with assms have s': "s' = s\<lparr>sch_indexes := sch_indexes s @ [ix]\<rparr>" and "map_of (sch_tables s) (ix_table ix) \<noteq> None"
    by (auto split: if_splits option.splits)
  then have "ix_table ix \<in> set (table_names s)" by (simp add: table_names_def map_of_eq_None_iff)
  with s' assms(3) show ?thesis by (auto simp: schema_ok_def table_names_def)
next
  case (CreateExtension x)
  with assms have "sch_tables s' = sch_tables s" "sch_indexes s' = sch_indexes s" by (auto split: if_splits)
  with assms(3) show ?thesis by (simp add: schema_ok_def table_names_def)
qed (use assms in auto)

lemma undo_undoes:
  assumes "is_create c" "run_ddl c s = Some s'" "schema_ok s"
  shows "run_script (undo c) (s'\<lparr>sch_extensions := e\<rparr>) = Some (s\<lparr>sch_extensions := e\<rparr>)"
proof (cases c)
  case (CreateTable n t)
  with assms have s': "s' = s\<lparr>sch_tables := sch_tables s @ [(n, t)]\<rparr>"
    and n: "n \<notin> set (table_names s)" "n \<notin> set (index_names s)"
    by (auto split: if_splits)
  have tables: "filter (\<lambda>x. fst x \<noteq> n) (sch_tables s) = sch_tables s"
    using n(1) by (auto simp: table_names_def intro: filter_True)
  have indexes: "filter (\<lambda>ix. ix_table ix \<noteq> n) (sch_indexes s) = sch_indexes s"
    using n(1) assms(3) by (auto simp: schema_ok_def intro: filter_True)
  have "\<not> (\<exists>(n', t') \<in> set (sch_tables s). n' \<noteq> n \<and> n \<in> fst ` set (references_to t'))"
    using n(1) assms(3) unfolding schema_ok_def by fastforce
  with CreateTable s' n tables indexes show ?thesis by (simp add: index_names_def)
next
  case (CreateIndex ix)
  with assms have s': "s' = s\<lparr>sch_indexes := sch_indexes s @ [ix]\<rparr>"
    and n: "ix_name ix \<notin> set (table_names s)" "ix_name ix \<notin> set (index_names s)"
    by (auto split: if_splits option.splits)
  have "filter (\<lambda>ix'. ix_name ix' \<noteq> ix_name ix) (sch_indexes s) = sch_indexes s"
    using n(2) by (intro filter_True) (metis image_eqI index_names_def list.set_map)
  with CreateIndex s' n(1) show ?thesis by (simp add: table_names_def)
qed (use assms in auto)

lemma script_undone:
  assumes "list_all is_create cs" "run_script cs s = Some s'" "schema_ok s"
  shows "run_script (concat (map undo (rev cs))) (s'\<lparr>sch_extensions := e\<rparr>) = Some (s\<lparr>sch_extensions := e\<rparr>)"
  using assms
proof (induction cs arbitrary: s)
  case (Cons c cs)
  then obtain s1 where s1: "run_ddl c s = Some s1" "run_script cs s1 = Some s'" by (cases "run_ddl c s") auto
  with Cons.prems Cons.IH [of s1] create_keeps_ok [of c s s1] undo_undoes [of c s s1 e]
  show ?case by (simp add: run_script_append)
qed simp

lemma migrations_are_creates: "m \<in> set migrations \<Longrightarrow> list_all is_create (mg_up m) \<and> mg_down m = concat (map undo (rev (mg_up m)))"
  by (auto simp: migrations_def migration_defs index_on_def)

text \<open>
  Migrations can be taken back: whichever of them have been run on a database, running their \<open>down\<close> in
  reverse order succeeds and leaves exactly the tables and indexes that were there before; only the extension
  stays installed.
\<close>

theorem migrations_revert:
  assumes "set ms \<subseteq> set migrations" and "schema_ok s" and "run_script (concat (map mg_up ms)) s = Some s'"
  shows "run_script (concat (map mg_down (rev ms))) s' = Some (s\<lparr>sch_extensions := sch_extensions s'\<rparr>)"
proof -
  have "map mg_down ms = map (\<lambda>m. concat (map undo (rev (mg_up m)))) ms"
    using assms(1) migrations_are_creates by auto
  then have "concat (map mg_down (rev ms)) = concat (map undo (rev (concat (map mg_up ms))))"
    by (induction ms) (auto simp: rev_map)
  moreover have "list_all is_create (concat (map mg_up ms))"
    using assms(1) migrations_are_creates by (fastforce simp: list_all_iff)
  ultimately show ?thesis using script_undone [OF _ assms(3,2), of "sch_extensions s'"] by simp
qed

lemma migrations_revert_witness:
  "run_script (concat (map mg_down (rev migrations))) overbook_schema = Some (empty_schema\<lparr>sch_extensions := [''pgcrypto'']\<rparr>)"
proof -
  have "schema_ok empty_schema" by (simp add: schema_ok_def empty_schema_def)
  from migrations_revert [OF subset_refl this migrations_run] show ?thesis by (simp add: overbook_schema_def)
qed

subsection \<open>What the entity classes declare\<close>

text \<open>
  A column as the decorators describe it; one without a \<open>name\<close> gets its name from the naming strategy, a
  function of the library (\<open>snake\<close>). Ids are generated by the database, whose generator is the migrations' one.
\<close>

datatype column_kind = PrimaryGenerated | PrimaryColumn | PlainColumn | CreateDateColumn | UpdateDateColumn

record entity_column =
  ec_kind :: column_kind
  ec_property :: string
  ec_name :: "string option"
  ec_type :: sql_type
  ec_nullable :: bool
  ec_default :: "sql_default option"

text \<open>\<open>en_joins\<close>: the join column and the entity's table of each \<open>ManyToOne\<close>; \<open>en_indexes\<close>: properties.\<close>

record entity =
  en_table :: string
  en_columns :: "entity_column list"
  en_joins :: "(string \<times> string) list"
  en_indexes :: "string list list"

definition ecol :: "column_kind \<Rightarrow> string \<Rightarrow> string option \<Rightarrow> sql_type \<Rightarrow> bool \<Rightarrow> sql_default option \<Rightarrow> entity_column" where
  "ecol kind property nm ty nullable dflt = \<lparr>ec_kind = kind, ec_property = property, ec_name = nm, ec_type = ty,
     ec_nullable = nullable, ec_default = dflt\<rparr>"

definition EventEntity :: entity where
  "EventEntity = \<lparr>en_table = ''events'', en_columns =
     [ecol PrimaryGenerated ''id'' None PgUuid False None,
      ecol PlainColumn ''name'' None (PgVarchar 200) False None,
      ecol PlainColumn ''venue'' None (PgVarchar 200) False None,
      ecol PlainColumn ''totalSeats'' (Some ''total_seats'') PgInteger False None,
      ecol PlainColumn ''availableSeats'' (Some ''available_seats'') PgInteger False None,
      ecol PlainColumn ''priceCents'' (Some ''price_cents'') PgInteger False None,
      ecol PlainColumn ''startsAt'' (Some ''starts_at'') PgTimestamptz False None,
      ecol PlainColumn ''version'' None PgInteger False (Some (IntDefault 0)),
      ecol CreateDateColumn ''createdAt'' (Some ''created_at'') PgTimestamptz False None,
      ecol UpdateDateColumn ''updatedAt'' (Some ''updated_at'') PgTimestamptz False None],
     en_joins = [], en_indexes = [[''name'']]\<rparr>"

definition BookingEntity :: entity where
  "BookingEntity = \<lparr>en_table = ''bookings'', en_columns =
     [ecol PrimaryGenerated ''id'' None PgUuid False None,
      ecol PlainColumn ''eventId'' (Some ''event_id'') PgUuid False None,
      ecol PlainColumn ''userId'' (Some ''user_id'') (PgVarchar 100) False None,
      ecol PlainColumn ''quantity'' None PgInteger False None,
      ecol PlainColumn ''status'' None (PgVarchar 20) False (Some (TextDefault ''confirmed'')),
      ecol PlainColumn ''idempotencyKey'' (Some ''idempotency_key'') (PgVarchar 200) True None,
      ecol CreateDateColumn ''createdAt'' (Some ''created_at'') PgTimestamptz False None,
      ecol UpdateDateColumn ''updatedAt'' (Some ''updated_at'') PgTimestamptz False None],
     en_joins = [(''event_id'', ''events'')], en_indexes = [[''eventId'', ''createdAt''], [''userId'']]\<rparr>"

definition IdempotencyKeyEntity :: entity where
  "IdempotencyKeyEntity = \<lparr>en_table = ''idempotency_keys'', en_columns =
     [ecol PrimaryColumn ''key'' None (PgVarchar 200) False None,
      ecol PlainColumn ''endpoint'' None (PgVarchar 200) False None,
      ecol PlainColumn ''requestHash'' (Some ''request_hash'') (PgChar 64) False None,
      ecol PlainColumn ''status'' None (PgVarchar 20) False (Some (TextDefault ''in_progress'')),
      ecol PlainColumn ''responseStatus'' (Some ''response_status'') PgInteger True None,
      ecol PlainColumn ''responseBody'' (Some ''response_body'') PgJsonb True None,
      ecol CreateDateColumn ''createdAt'' (Some ''created_at'') PgTimestamptz False None,
      ecol PlainColumn ''expiresAt'' (Some ''expires_at'') PgTimestamptz False None],
     en_joins = [], en_indexes = [[''expiresAt'']]\<rparr>"

definition OutboxMessageEntity :: entity where
  "OutboxMessageEntity = \<lparr>en_table = ''outbox_messages'', en_columns =
     [ecol PrimaryGenerated ''id'' None PgUuid False None,
      ecol PlainColumn ''aggregateType'' (Some ''aggregate_type'') (PgVarchar 100) False None,
      ecol PlainColumn ''aggregateId'' (Some ''aggregate_id'') (PgVarchar 100) False None,
      ecol PlainColumn ''eventType'' (Some ''event_type'') (PgVarchar 100) False None,
      ecol PlainColumn ''topic'' None (PgVarchar 200) False None,
      ecol PlainColumn ''messageKey'' (Some ''message_key'') (PgVarchar 200) False None,
      ecol PlainColumn ''payload'' None PgJsonb False None,
      ecol PlainColumn ''status'' None (PgVarchar 20) False (Some (TextDefault ''pending'')),
      ecol PlainColumn ''attempts'' None PgInteger False (Some (IntDefault 0)),
      ecol PlainColumn ''availableAt'' (Some ''available_at'') PgTimestamptz False (Some NowDefault),
      ecol PlainColumn ''publishedAt'' (Some ''published_at'') PgTimestamptz True None,
      ecol PlainColumn ''lastError'' (Some ''last_error'') PgText True None,
      ecol CreateDateColumn ''createdAt'' (Some ''created_at'') PgTimestamptz False None],
     en_joins = [], en_indexes = [[''status'', ''availableAt'']]\<rparr>"

definition ProcessedMessageEntity :: entity where
  "ProcessedMessageEntity = \<lparr>en_table = ''processed_messages'', en_columns =
     [ecol PrimaryColumn ''messageId'' (Some ''message_id'') (PgVarchar 200) False None,
      ecol PrimaryColumn ''consumerGroup'' (Some ''consumer_group'') (PgVarchar 200) False None,
      ecol PlainColumn ''eventType'' (Some ''event_type'') (PgVarchar 100) False None,
      ecol CreateDateColumn ''processedAt'' (Some ''processed_at'') PgTimestamptz False None],
     en_joins = [], en_indexes = []\<rparr>"

definition entities :: "entity list" where
  "entities = [EventEntity, BookingEntity, IdempotencyKeyEntity, OutboxMessageEntity, ProcessedMessageEntity]"

lemmas entity_defs = EventEntity_def BookingEntity_def IdempotencyKeyEntity_def OutboxMessageEntity_def
  ProcessedMessageEntity_def

text \<open>The table and the indexes that the declarations ask for.\<close>

definition declared_name :: "(string \<Rightarrow> string) \<Rightarrow> entity_column \<Rightarrow> string" where
  "declared_name snake c = orElse (ec_name c) (snake (ec_property c))"

definition declared_column :: "(string \<Rightarrow> string) \<Rightarrow> (string \<times> string) list \<Rightarrow> entity_column \<Rightarrow> sql_column" where
  "declared_column snake joins c =
     \<lparr>sc_name = declared_name snake c, sc_type = ec_type c, sc_notNull = (\<not> ec_nullable c),
      sc_default = (case ec_kind c of PrimaryGenerated \<Rightarrow> Some GenRandomUuid
        | CreateDateColumn \<Rightarrow> Some NowDefault | UpdateDateColumn \<Rightarrow> Some NowDefault | _ \<Rightarrow> ec_default c),
      sc_references = map_option (\<lambda>t. (t, ''id'')) (map_of joins (declared_name snake c))\<rparr>"

definition declared_table :: "(string \<Rightarrow> string) \<Rightarrow> entity \<Rightarrow> sql_table" where
  "declared_table snake e =
     \<lparr>tb_columns = map (declared_column snake (en_joins e)) (en_columns e),
      tb_primary = map (declared_name snake) (filter (\<lambda>c. ec_kind c = PrimaryGenerated \<or> ec_kind c = PrimaryColumn) (en_columns e)),
      tb_positive = []\<rparr>"

definition declared_indexes :: "(string \<Rightarrow> string) \<Rightarrow> entity \<Rightarrow> (string \<times> string list \<times> (string \<times> string) option) list" where
  "declared_indexes snake e =
     map (\<lambda>ps. (en_table e, List.map_filter (\<lambda>p. map_option (declared_name snake) (find (\<lambda>c. ec_property c = p) (en_columns e))) ps, None))
       (en_indexes e)"

text \<open>Names without capitals are snake case already.\<close>

definition keeps_lower_case :: "(string \<Rightarrow> string) \<Rightarrow> bool" where
  "keeps_lower_case snake \<longleftrightarrow> (\<forall>p. toLowerCase p = p \<longrightarrow> snake p = p)"

text \<open>
  The entity classes and the migrations describe the same tables: column by column the name, the type, whether
  it may be null, its default and its reference, and the primary keys. The migrations add the check of
  positive quantities, and, besides the indexes the classes declare, just the partial index of the pending
  rows, which the relay's poll uses.
\<close>

theorem entities_match_migrations:
  assumes "keeps_lower_case snake"
  shows "map (\<lambda>e. (en_table e, declared_table snake e)) entities
      = map (\<lambda>(n, t). (n, t\<lparr>tb_positive := []\<rparr>)) (sch_tables overbook_schema)
    \<and> mset (map (\<lambda>ix. (ix_table ix, ix_columns ix, ix_where ix)) (sch_indexes overbook_schema))
      = mset (concat (map (declared_indexes snake) entities))
        + {#(''outbox_messages'', [''available_at'', ''created_at''], Some (''status'', ''pending''))#}
    \<and> concat (map (\<lambda>(n, t). map snd (tb_positive t)) (sch_tables overbook_schema)) = [''quantity'']"
proof -
  have names: "snake p = p" if "toLowerCase p = p" for p using assms that by (simp add: keeps_lower_case_def)
  have simple: "snake ''id'' = ''id''" "snake ''name'' = ''name''" "snake ''venue'' = ''venue''" "snake ''version'' = ''version''"
    "snake ''quantity'' = ''quantity''" "snake ''status'' = ''status''" "snake ''key'' = ''key''" "snake ''endpoint'' = ''endpoint''"
    "snake ''topic'' = ''topic''" "snake ''payload'' = ''payload''" "snake ''attempts'' = ''attempts''"
    by (rule names, simp add: toLowerCase_def lower_char_def Let_def)+
  note columns = declared_name_def declared_column_def ecol_def col_def simple
  have "map (\<lambda>e. (en_table e, declared_table snake e)) entities
      = map (\<lambda>(n, t). (n, t\<lparr>tb_positive := []\<rparr>)) (sch_tables overbook_schema)"
    by (simp add: entities_def overbook_schema_def declared_table_def entity_defs table_defs columns)
  moreover have "mset (map (\<lambda>ix. (ix_table ix, ix_columns ix, ix_where ix)) (sch_indexes overbook_schema))
      = mset (concat (map (declared_indexes snake) entities))
        + {#(''outbox_messages'', [''available_at'', ''created_at''], Some (''status'', ''pending''))#}"
    by (simp add: entities_def overbook_schema_def declared_indexes_def entity_defs columns index_on_def List.map_filter_def)
  moreover have "concat (map (\<lambda>(n, t). map snd (tb_positive t)) (sch_tables overbook_schema)) = [''quantity'']"
    by (simp add: overbook_schema_def table_defs)
  ultimately show ?thesis by blast
qed

lemma entities_match_migrations_witness:
  "map (\<lambda>e. (en_table e, declared_table (\<lambda>p. p) e)) entities
      = map (\<lambda>(n, t). (n, t\<lparr>tb_positive := []\<rparr>)) (sch_tables overbook_schema)"
  using entities_match_migrations [of "\<lambda>p. p"] by (simp add: keeps_lower_case_def)

subsection \<open>The constraints on a row\<close>

datatype sql_value = SqlNull | SqlInt int | SqlText string | SqlTime ms | SqlUuid uuid | SqlJson jsval

type_synonym sql_row = "(string \<times> sql_value) list"

fun has_type :: "sql_type \<Rightarrow> sql_value \<Rightarrow> bool" where
  "has_type PgUuid (SqlUuid _) = True"
| "has_type (PgVarchar n) (SqlText s) = (length s \<le> n)"
| "has_type (PgChar n) (SqlText s) = (length s \<le> n)"
| "has_type PgText (SqlText _) = True"
| "has_type PgInteger (SqlInt i) = pg_int i"
| "has_type PgTimestamptz (SqlTime _) = True"
| "has_type PgJsonb (SqlJson _) = True"
| "has_type _ _ = False"

definition column_accepts :: "sql_row \<Rightarrow> sql_column \<Rightarrow> bool" where
  "column_accepts row c =
     (case map_of row (sc_name c) of
        None \<Rightarrow> False
      | Some SqlNull \<Rightarrow> \<not> sc_notNull c
      | Some v \<Rightarrow> has_type (sc_type c) v)"

definition reference_holds :: "(string \<Rightarrow> sql_row list) \<Rightarrow> sql_row \<Rightarrow> sql_column \<Rightarrow> bool" where
  "reference_holds contents row c =
     (case sc_references c of
        None \<Rightarrow> True
      | Some (n, c') \<Rightarrow> map_of row (sc_name c) = Some SqlNull
          \<or> map_of row (sc_name c) \<in> (\<lambda>r. map_of r c') ` set (contents n))"

definition check_holds :: "sql_row \<Rightarrow> string \<Rightarrow> bool" where
  "check_holds row c = (case map_of row c of Some (SqlInt i) \<Rightarrow> 0 < i | _ \<Rightarrow> True)"

definition key_of :: "sql_table \<Rightarrow> sql_row \<Rightarrow> sql_value option list" where
  "key_of t row = map (map_of row) (tb_primary t)"

text \<open>Whether \<open>INSERT\<close> accepts a row: types, nulls, the primary key, references and checks.\<close>

definition accepts :: "schema \<Rightarrow> (string \<Rightarrow> sql_row list) \<Rightarrow> string \<Rightarrow> sql_row \<Rightarrow> bool" where
  "accepts s contents n row =
     (case map_of (sch_tables s) n of
        None \<Rightarrow> False
      | Some t \<Rightarrow> list_all (column_accepts row) (tb_columns t) \<and> key_of t row \<notin> key_of t ` set (contents n)
          \<and> list_all (reference_holds contents row) (tb_columns t) \<and> list_all (check_holds row) (map snd (tb_positive t)))"

definition nullable :: "('a \<Rightarrow> sql_value) \<Rightarrow> 'a option \<Rightarrow> sql_value" where
  "nullable f x = (case x of None \<Rightarrow> SqlNull | Some v \<Rightarrow> f v)"

text \<open>The rows of the model as rows of the tables, by the columns of the entity classes.\<close>

definition event_values :: "event_row \<Rightarrow> sql_row" where
  "event_values r =
     [(''id'', SqlUuid (ev_id r)), (''name'', SqlText (ev_name r)), (''venue'', SqlText (ev_venue r)),
      (''total_seats'', SqlInt (ev_totalSeats r)), (''available_seats'', SqlInt (ev_availableSeats r)),
      (''price_cents'', SqlInt (ev_priceCents r)), (''starts_at'', SqlTime (ev_startsAt r)),
      (''version'', SqlInt (ev_version r)), (''created_at'', SqlTime (ev_createdAt r)), (''updated_at'', SqlTime (ev_updatedAt r))]"

definition booking_values :: "booking_row \<Rightarrow> sql_row" where
  "booking_values b =
     [(''id'', SqlUuid (bk_id b)), (''event_id'', SqlUuid (bk_eventId b)), (''user_id'', SqlText (bk_userId b)),
      (''quantity'', SqlInt (bk_quantity b)), (''status'', SqlText (status_name (bk_status b))),
      (''idempotency_key'', nullable SqlText (bk_idempotencyKey b)),
      (''created_at'', SqlTime (bk_createdAt b)), (''updated_at'', SqlTime (bk_updatedAt b))]"

definition outbox_status_name :: "outbox_status \<Rightarrow> string" where
  "outbox_status_name s = (case s of Pending \<Rightarrow> ''pending'' | Published \<Rightarrow> ''published'' | Failed \<Rightarrow> ''failed'')"

definition outbox_values :: "outbox_row \<Rightarrow> sql_row" where
  "outbox_values r =
     [(''id'', SqlUuid (ob_id r)), (''aggregate_type'', SqlText (ob_aggregateType r)), (''aggregate_id'', SqlText (ob_aggregateId r)),
      (''event_type'', SqlText (ob_eventType r)), (''topic'', SqlText (ob_topic r)), (''message_key'', SqlText (ob_messageKey r)),
      (''payload'', SqlJson (ob_payload r)), (''status'', SqlText (outbox_status_name (ob_status r))),
      (''attempts'', SqlInt (ob_attempts r)), (''available_at'', SqlTime (ob_availableAt r)),
      (''published_at'', nullable SqlTime (ob_publishedAt r)), (''last_error'', nullable SqlText (ob_lastError r)),
      (''created_at'', SqlTime (ob_createdAt r))]"

definition idem_status_name :: "idem_status \<Rightarrow> string" where
  "idem_status_name s = (case s of InProgress \<Rightarrow> ''in_progress'' | Completed \<Rightarrow> ''completed'')"

definition idem_values :: "idem_row \<Rightarrow> sql_row" where
  "idem_values r =
     [(''key'', SqlText (ik_key r)), (''endpoint'', SqlText (ik_endpoint r)), (''request_hash'', SqlText (ik_requestHash r)),
      (''status'', SqlText (idem_status_name (ik_status r))), (''response_status'', nullable SqlInt (ik_responseStatus r)),
      (''response_body'', nullable SqlJson (ik_responseBody r)), (''created_at'', SqlTime (ik_createdAt r)),
      (''expires_at'', SqlTime (ik_expiresAt r))]"

definition processed_values :: "processed_row \<Rightarrow> sql_row" where
  "processed_values r =
     [(''message_id'', SqlText (pm_messageId r)), (''consumer_group'', SqlText (pm_consumerGroup r)),
      (''event_type'', SqlText (pm_eventType r)), (''processed_at'', SqlTime (pm_processedAt r))]"

definition contents_of :: "db \<Rightarrow> string \<Rightarrow> sql_row list" where
  "contents_of d n =
     (if n = ''events'' then map event_values (t_events d)
      else if n = ''bookings'' then map booking_values (t_bookings d)
      else if n = ''outbox_messages'' then map outbox_values (t_outbox d)
      else if n = ''idempotency_keys'' then map idem_values (t_idempotency d)
      else if n = ''processed_messages'' then map processed_values (t_processed d) else [])"

definition db_accepts :: "db \<Rightarrow> string \<Rightarrow> sql_row \<Rightarrow> bool" where
  "db_accepts d = accepts overbook_schema (contents_of d)"

lemmas value_defs = event_values_def booking_values_def outbox_values_def idem_values_def processed_values_def

lemmas accepts_defs = db_accepts_def accepts_def overbook_schema_def table_defs col_def column_accepts_def reference_holds_def
  check_holds_def key_of_def contents_of_def value_defs

lemma find_by_None: "find (\<lambda>r. f r = k) rows = None \<longleftrightarrow> k \<notin> f ` set rows"
  by (induction rows) auto

lemma events_accept: "db_accepts d ''events'' (event_values r) \<longleftrightarrow> event_fits r \<and> ev_id r \<notin> ev_id ` set (t_events d)"
  by (auto simp: accepts_defs event_fits_def image_iff)

lemma bookings_accept: "db_accepts d ''bookings'' (booking_values b) \<longleftrightarrow> booking_fits d b"
proof -
  have "find_event (bk_eventId b) d \<noteq> None \<longleftrightarrow> bk_eventId b \<in> ev_id ` set (t_events d)"
    by (simp add: find_event_def find_by_None)
  then show ?thesis
    by (auto simp: accepts_defs booking_fits_def nullable_def status_name_def image_iff split: option.splits booking_status.splits)
qed

lemma outbox_accepts: "db_accepts d ''outbox_messages'' (outbox_values r) \<longleftrightarrow> outbox_fits d r"
  by (auto simp: accepts_defs outbox_fits_def nullable_def outbox_status_name_def image_iff split: option.splits outbox_status.splits)

lemma idempotency_accepts:
  "db_accepts d ''idempotency_keys'' (idem_values (claim_row q now))
    \<longleftrightarrow> idem_fits (claim_row q now) \<and> iq_key q \<notin> ik_key ` set (t_idempotency d)"
  by (auto simp: accepts_defs idem_fits_def nullable_def idem_status_name_def claim_row_def image_iff)

lemma processed_accepts:
  "db_accepts d ''processed_messages'' (processed_values r)
    \<longleftrightarrow> processed_fits r \<and> processed_key r \<notin> processed_key ` set (t_processed d)"
  by (auto simp: accepts_defs processed_fits_def processed_key_def image_iff)


end
