(* ===== verification/Registry.thy ===== *)
theory Registry
  imports BookService RateLimit Relay Consumer
begin

section \<open>The metrics registry\<close>

text \<open>
  The constructor of \<open>metrics/metrics.service.ts\<close>, which registers every metric with its label names, and the
  calls with which the other components change or observe them. The registry of the client library is an
  argument: registering fails for a name that is taken. What it shows of the counters and gauges is \<open>series\<close>.
\<close>

datatype metric_kind = Counter | Gauge | Histogram "rat list"

record metric_decl =
  md_kind :: metric_kind
  md_name :: string
  md_labels :: "string list"

definition counter :: "string \<Rightarrow> string list \<Rightarrow> metric_decl" where
  "counter n ls = \<lparr>md_kind = Counter, md_name = n, md_labels = ls\<rparr>"

definition gauge :: "string \<Rightarrow> metric_decl" where
  "gauge n = \<lparr>md_kind = Gauge, md_name = n, md_labels = []\<rparr>"

definition histogram :: "string \<Rightarrow> string list \<Rightarrow> rat list \<Rightarrow> metric_decl" where
  "histogram n ls buckets = \<lparr>md_kind = Histogram buckets, md_name = n, md_labels = ls\<rparr>"

text \<open>In the order of the constructor.\<close>

definition declared_metrics :: "metric_decl list" where
  "declared_metrics =
     [histogram ''http_request_duration_seconds'' [''method'', ''route'', ''status_code'']
        [5 / 1000, 1 / 100, 25 / 1000, 5 / 100, 1 / 10, 25 / 100, 5 / 10, 1, 25 / 10, 5, 10],
      counter ''http_requests_total'' [''method'', ''route'', ''status_code''],
      gauge ''http_requests_in_flight'',
      counter ''bookings_total'' [''result'', ''strategy''],
      counter ''bookings_oversold_total'' [''event_id''],
      histogram ''booking_lock_wait_seconds'' [''strategy''] [1 / 1000, 5 / 1000, 1 / 100, 5 / 100, 1 / 10, 5 / 10, 1, 5],
      counter ''cache_requests_total'' [''cache'', ''result''],
      counter ''cache_single_flight_waits_total'' [''cache''],
      gauge ''outbox_pending_messages'',
      counter ''outbox_published_total'' [''topic''],
      counter ''outbox_publish_failures_total'' [''topic''],
      histogram ''outbox_relay_duration_seconds'' [] [1 / 1000, 1 / 100, 5 / 100, 1 / 10, 5 / 10, 1, 5],
      counter ''kafka_messages_consumed_total'' [''topic''],
      counter ''notifications_processed_total'' [''result''],
      gauge ''notification_in_flight'',
      counter ''rate_limit_decisions_total'' [''result'', ''route'']]"

lemmas decl_defs = counter_def gauge_def histogram_def

subsection \<open>Registering\<close>

record 'r registry =
  rg_register :: "metric_decl \<Rightarrow> 'r \<Rightarrow> err + 'r"
  rg_names :: "'r \<Rightarrow> string set"

text \<open>The registry begins with the library's default metrics already registered.\<close>

fun register_all :: "('r, 'x) registry_scheme \<Rightarrow> metric_decl list \<Rightarrow> 'r \<Rightarrow> err + 'r" where
  "register_all R [] r = Inr r"
| "register_all R (d # ds) r = (case rg_register R d r of Inl e \<Rightarrow> Inl e | Inr r' \<Rightarrow> register_all R ds r')"

definition new_metrics :: "('r, 'x) registry_scheme \<Rightarrow> 'r \<Rightarrow> err + 'r" where
  "new_metrics R defaults = register_all R declared_metrics defaults"

text \<open>What is relied on: a fresh name is accepted and taken from then on, another one is refused.\<close>

definition registry_ok :: "('r, 'x) registry_scheme \<Rightarrow> bool" where
  "registry_ok R \<longleftrightarrow> (\<forall>d r. case rg_register R d r of
       Inl _ \<Rightarrow> md_name d \<in> rg_names R r
     | Inr r' \<Rightarrow> md_name d \<notin> rg_names R r \<and> rg_names R r' = insert (md_name d) (rg_names R r))"

lemma register_all_iff:
  assumes "registry_ok R"
  shows "(\<exists>r'. register_all R ds r = Inr r' \<and> rg_names R r' = set (map md_name ds) \<union> rg_names R r)
    \<longleftrightarrow> distinct (map md_name ds) \<and> set (map md_name ds) \<inter> rg_names R r = {}"
proof (induction ds arbitrary: r)
  case (Cons d ds)
  have law: "case rg_register R d r of Inl _ \<Rightarrow> md_name d \<in> rg_names R r
     | Inr r' \<Rightarrow> md_name d \<notin> rg_names R r \<and> rg_names R r' = insert (md_name d) (rg_names R r)"
    using assms by (simp add: registry_ok_def)
  show ?case
  proof (cases "rg_register R d r")
    case (Inl e)
    with law show ?thesis by auto
  next
    case (Inr r1)
    with law have r1: "md_name d \<notin> rg_names R r" "rg_names R r1 = insert (md_name d) (rg_names R r)" by simp_all
    have "set (map md_name ds) \<union> rg_names R r1 = set (map md_name (d # ds)) \<union> rg_names R r" using r1 by auto
    with Inr r1 Cons.IH [of r1] show ?thesis by auto
  qed
qed simp

lemma declared_names: "distinct (map md_name declared_metrics)"
  by (simp add: declared_metrics_def decl_defs)

text \<open>
  The constructor throws exactly when a default metric has one of its names: no two of its own are the same.
\<close>

theorem constructor_registers_all:
  assumes "registry_ok R"
  shows "(\<exists>r. new_metrics R defaults = Inr r \<and> rg_names R r = md_name ` set declared_metrics \<union> rg_names R defaults)
    \<longleftrightarrow> md_name ` set declared_metrics \<inter> rg_names R defaults = {}"
  using register_all_iff [OF assms, of declared_metrics defaults] declared_names by (simp add: new_metrics_def)

text \<open>A registry that is the set of its names.\<close>

lemma constructor_registers_all_witness:
  "\<exists>r. new_metrics \<lparr>rg_register = (\<lambda>d r. if md_name d \<in> r then Inl (JsError ''already registered'') else Inr (insert (md_name d) r)),
      rg_names = (\<lambda>r. r)\<rparr> {''process_cpu_seconds_total'', ''nodejs_eventloop_lag_seconds''} = Inr r"
proof -
  let ?R = "\<lparr>rg_register = (\<lambda>d r. if md_name d \<in> r then Inl (JsError ''already registered'') else Inr (insert (md_name d) r)),
      rg_names = (\<lambda>r. r)\<rparr> :: string set registry"
  have "registry_ok ?R" by (simp add: registry_ok_def)
  moreover have "md_name ` set declared_metrics \<inter> rg_names ?R {''process_cpu_seconds_total'', ''nodejs_eventloop_lag_seconds''} = {}"
    by (simp add: declared_metrics_def decl_defs)
  ultimately show ?thesis
    using constructor_registers_all [of ?R "{''process_cpu_seconds_total'', ''nodejs_eventloop_lag_seconds''}"] by blast
qed

subsection \<open>The calls\<close>

text \<open>Every call on a metric in the sources, with the values of its labels; a timer's labels are those of its start and its end.\<close>

datatype metric_call =
    HttpTimed string string string
  | HttpCounted string string string
  | HttpBegins
  | HttpEnds
  | BookingCounted string string
  | OversoldCounted uuid
  | LockTimed string
  | CacheCounted string string
  | WaitCounted string
  | PendingSet int
  | PublishedCounted string
  | FailureCounted string
  | RelayTimed
  | ConsumedCounted string
  | NotificationCounted string
  | NotificationsSet int
  | DecisionCounted string string

fun call_name :: "metric_call \<Rightarrow> string" where
  "call_name (HttpTimed _ _ _) = ''http_request_duration_seconds''"
| "call_name (HttpCounted _ _ _) = ''http_requests_total''"
| "call_name HttpBegins = ''http_requests_in_flight''"
| "call_name HttpEnds = ''http_requests_in_flight''"
| "call_name (BookingCounted _ _) = ''bookings_total''"
| "call_name (OversoldCounted _) = ''bookings_oversold_total''"
| "call_name (LockTimed _) = ''booking_lock_wait_seconds''"
| "call_name (CacheCounted _ _) = ''cache_requests_total''"
| "call_name (WaitCounted _) = ''cache_single_flight_waits_total''"
| "call_name (PendingSet _) = ''outbox_pending_messages''"
| "call_name (PublishedCounted _) = ''outbox_published_total''"
| "call_name (FailureCounted _) = ''outbox_publish_failures_total''"
| "call_name RelayTimed = ''outbox_relay_duration_seconds''"
| "call_name (ConsumedCounted _) = ''kafka_messages_consumed_total''"
| "call_name (NotificationCounted _) = ''notifications_processed_total''"
| "call_name (NotificationsSet _) = ''notification_in_flight''"
| "call_name (DecisionCounted _ _) = ''rate_limit_decisions_total''"

fun call_labels :: "metric_call \<Rightarrow> (string \<times> string) list" where
  "call_labels (HttpTimed m r c) = [(''method'', m), (''route'', r), (''status_code'', c)]"
| "call_labels (HttpCounted m r c) = [(''method'', m), (''route'', r), (''status_code'', c)]"
| "call_labels (BookingCounted r s) = [(''result'', r), (''strategy'', s)]"
| "call_labels (OversoldCounted e) = [(''event_id'', e)]"
| "call_labels (LockTimed s) = [(''strategy'', s)]"
| "call_labels (CacheCounted n r) = [(''cache'', n), (''result'', r)]"
| "call_labels (WaitCounted n) = [(''cache'', n)]"
| "call_labels (PublishedCounted t) = [(''topic'', t)]"
| "call_labels (FailureCounted t) = [(''topic'', t)]"
| "call_labels (ConsumedCounted t) = [(''topic'', t)]"
| "call_labels (NotificationCounted r) = [(''result'', r)]"
| "call_labels (DecisionCounted r route) = [(''result'', r), (''route'', route)]"
| "call_labels _ = []"

text \<open>\<open>inc()\<close>, \<open>dec()\<close>, \<open>set()\<close>, or an observed duration, which the model does not keep.\<close>

datatype metric_op = Inc | Dec | SetTo int | Observe

fun call_op :: "metric_call \<Rightarrow> metric_op" where
  "call_op (HttpTimed _ _ _) = Observe"
| "call_op (LockTimed _) = Observe"
| "call_op RelayTimed = Observe"
| "call_op HttpEnds = Dec"
| "call_op (PendingSet n) = SetTo n"
| "call_op (NotificationsSet n) = SetTo n"
| "call_op _ = Inc"

fun apply_call :: "metric_call \<Rightarrow> metrics \<Rightarrow> metrics" where
  "apply_call (HttpCounted a b c) m = m\<lparr>httpRequestsTotal := (\<lambda>x y z. httpRequestsTotal m x y z + (if x = a \<and> y = b \<and> z = c then 1 else 0))\<rparr>"
| "apply_call HttpBegins m = m\<lparr>httpRequestsInFlight := httpRequestsInFlight m + 1\<rparr>"
| "apply_call HttpEnds m = m\<lparr>httpRequestsInFlight := httpRequestsInFlight m - 1\<rparr>"
| "apply_call (BookingCounted r s) m = m\<lparr>bookingsTotal := inc2 r s (bookingsTotal m)\<rparr>"
| "apply_call (OversoldCounted e) m = m\<lparr>bookingsOversoldTotal := inc1 e (bookingsOversoldTotal m)\<rparr>"
| "apply_call (CacheCounted n r) m = m\<lparr>cacheRequestsTotal := inc2 n r (cacheRequestsTotal m)\<rparr>"
| "apply_call (WaitCounted n) m = m\<lparr>cacheSingleFlightWaitsTotal := inc1 n (cacheSingleFlightWaitsTotal m)\<rparr>"
| "apply_call (PendingSet n) m = m\<lparr>outboxPendingMessages := n\<rparr>"
| "apply_call (PublishedCounted t) m = m\<lparr>outboxPublishedTotal := inc1 t (outboxPublishedTotal m)\<rparr>"
| "apply_call (FailureCounted t) m = m\<lparr>outboxPublishFailuresTotal := inc1 t (outboxPublishFailuresTotal m)\<rparr>"
| "apply_call (ConsumedCounted t) m = m\<lparr>kafkaMessagesConsumedTotal := inc1 t (kafkaMessagesConsumedTotal m)\<rparr>"
| "apply_call (NotificationCounted r) m = m\<lparr>notificationsProcessedTotal := inc1 r (notificationsProcessedTotal m)\<rparr>"
| "apply_call (NotificationsSet n) m = m\<lparr>notificationInFlight := n\<rparr>"
| "apply_call (DecisionCounted r route) m = m\<lparr>rateLimitDecisionsTotal := inc2 r route (rateLimitDecisionsTotal m)\<rparr>"
| "apply_call _ m = m"

text \<open>The operations of the components change the metrics by these calls.\<close>

lemma operations_as_calls:
  "http_begin m = apply_call HttpBegins m"
  "http_record r status m = apply_call HttpEnds (apply_call (HttpCounted (hr_method r) (routeOf r) (int_str status)) m)"
  "count_booking result cfg w = upd_metrics (apply_call (BookingCounted result (strategy_name (booking_lockStrategy cfg)))) w"
  "count_cache n result w = upd_metrics (apply_call (CacheCounted n result)) w"
  "count_wait n w = upd_metrics (apply_call (WaitCounted n)) w"
  "refreshPendingGauge w = upd_metrics (apply_call (PendingSet (int (affected (\<lambda>r. ob_status r = Pending) (t_outbox (wd_db w)))))) w"
  "count_notification result w = upd_metrics (apply_call (NotificationCounted result)) w"
  "in_flight_gauge jobs w = upd_metrics (apply_call (NotificationsSet jobs)) w"
  by (simp_all add: http_begin_def http_record_def count_booking_def count_cache_def count_wait_def refreshPendingGauge_def
      count_notification_def in_flight_gauge_def upd_metrics_def)

text \<open>The relay counts every row of a batch, under its topic.\<close>

lemma counts_topics:
  "m\<lparr>outboxPublishedTotal := count_topics rows (outboxPublishedTotal m)\<rparr> = fold (\<lambda>row. apply_call (PublishedCounted (ob_topic row))) rows m"
  "m\<lparr>outboxPublishFailuresTotal := count_topics rows (outboxPublishFailuresTotal m)\<rparr> = fold (\<lambda>row. apply_call (FailureCounted (ob_topic row))) rows m"
proof -
  show "m\<lparr>outboxPublishedTotal := count_topics rows (outboxPublishedTotal m)\<rparr> = fold (\<lambda>row. apply_call (PublishedCounted (ob_topic row))) rows m"
  proof (induction rows arbitrary: m)
    case (Cons row rows)
    from Cons.IH [of "apply_call (PublishedCounted (ob_topic row)) m"] show ?case by (simp add: count_topics_def del: inc_apply)
  qed (simp add: count_topics_def)
  show "m\<lparr>outboxPublishFailuresTotal := count_topics rows (outboxPublishFailuresTotal m)\<rparr> = fold (\<lambda>row. apply_call (FailureCounted (ob_topic row))) rows m"
  proof (induction rows arbitrary: m)
    case (Cons row rows)
    from Cons.IH [of "apply_call (FailureCounted (ob_topic row)) m"] show ?case by (simp add: count_topics_def del: inc_apply)
  qed (simp add: count_topics_def)
qed

subsection \<open>What the registry shows\<close>

text \<open>The series of a counter or gauge: its value under a list of label values, in the order of the labels.\<close>

definition series :: "metrics \<Rightarrow> string \<Rightarrow> string list \<Rightarrow> int option" where
  "series m n ls =
     (case ls of
        [] \<Rightarrow> (if n = ''http_requests_in_flight'' then Some (httpRequestsInFlight m)
               else if n = ''outbox_pending_messages'' then Some (outboxPendingMessages m)
               else if n = ''notification_in_flight'' then Some (notificationInFlight m) else None)
      | [a] \<Rightarrow> (if n = ''bookings_oversold_total'' then Some (int (bookingsOversoldTotal m a))
               else if n = ''cache_single_flight_waits_total'' then Some (int (cacheSingleFlightWaitsTotal m a))
               else if n = ''outbox_published_total'' then Some (int (outboxPublishedTotal m a))
               else if n = ''outbox_publish_failures_total'' then Some (int (outboxPublishFailuresTotal m a))
               else if n = ''kafka_messages_consumed_total'' then Some (int (kafkaMessagesConsumedTotal m a))
               else if n = ''notifications_processed_total'' then Some (int (notificationsProcessedTotal m a)) else None)
      | [a, b] \<Rightarrow> (if n = ''bookings_total'' then Some (int (bookingsTotal m a b))
               else if n = ''cache_requests_total'' then Some (int (cacheRequestsTotal m a b))
               else if n = ''rate_limit_decisions_total'' then Some (int (rateLimitDecisionsTotal m a b)) else None)
      | [a, b, c] \<Rightarrow> (if n = ''http_requests_total'' then Some (int (httpRequestsTotal m a b c)) else None)
      | _ \<Rightarrow> None)"

fun op_effect :: "metric_op \<Rightarrow> int \<Rightarrow> int" where
  "op_effect Inc v = v + 1"
| "op_effect Dec v = v - 1"
| "op_effect (SetTo n) _ = n"
| "op_effect Observe v = v"

definition op_allowed :: "metric_kind \<Rightarrow> metric_op \<Rightarrow> bool" where
  "op_allowed kind op =
     (case op of Inc \<Rightarrow> kind = Counter \<or> kind = Gauge | Dec \<Rightarrow> kind = Gauge | SetTo _ \<Rightarrow> kind = Gauge
      | Observe \<Rightarrow> (\<exists>buckets. kind = Histogram buckets))"

lemma call_is_declared:
  "\<exists>d \<in> set declared_metrics. md_name d = call_name c \<and> md_labels d = map fst (call_labels c) \<and> op_allowed (md_kind d) (call_op c)"
  by (cases c) (simp_all add: declared_metrics_def decl_defs op_allowed_def)

lemma call_series:
  "series (apply_call c m) n ls =
    (if n = call_name c \<and> ls = map snd (call_labels c) then map_option (op_effect (call_op c)) (series m n ls) else series m n ls)"
proof -
  consider "ls = []" | x where "ls = [x]" | x y where "ls = [x, y]" | x y z where "ls = [x, y, z]"
    | x y z u rest where "ls = x # y # z # u # rest"
    by (metis list.exhaust)
  then show ?thesis
  proof cases
    case 1
    then show ?thesis by (cases c; cases "n = call_name c") (simp_all add: series_def)
  next
    case 2
    then show ?thesis by (cases c; cases "n = call_name c") (simp_all add: series_def)
  next
    case 3
    then show ?thesis by (cases c; cases "n = call_name c") (simp_all add: series_def)
  next
    case 4
    then show ?thesis by (cases c; cases "n = call_name c") (simp_all add: series_def)
  next
    case 5
    then show ?thesis by (cases c) (simp_all add: series_def)
  qed
qed

text \<open>
  The calls on metrics are well typed and exact: every call in the sources names a metric that the
  constructor declares, of a kind that has the operation, with exactly its labels; and it changes the one
  series of these label values, as the operation says, and no other.
\<close>

theorem metric_calls_well_typed:
  "(\<exists>d \<in> set declared_metrics. md_name d = call_name c \<and> md_labels d = map fst (call_labels c) \<and> op_allowed (md_kind d) (call_op c))
    \<and> series (apply_call c m) n ls =
      (if n = call_name c \<and> ls = map snd (call_labels c) then map_option (op_effect (call_op c)) (series m n ls) else series m n ls)"
  using call_is_declared call_series by blast

end
