(* ===== verification/ModuleGraph.thy ===== *)
theory ModuleGraph
  imports Prelude
begin

section \<open>The module graph\<close>

text \<open>
  What the modules of the service declare (every \<open>*.module.ts\<close>) and what the constructors of their classes ask
  for, as data, one definition per module and per constructor. The container that reads these declarations is
  the framework's. What is proved is that they are complete: by its documented rule (a class may be given what
  its own module provides, what an imported module exports, and what a global module exports) every constructor
  parameter of every class can be supplied, neither classes nor modules depend on themselves, and every service
  has one instance in a process. What the modules of libraries export is the argument \<open>lib\<close>, and what the
  framework offers to every module is \<open>ambient\<close>.
\<close>

subsection \<open>Names\<close>

datatype entity_class = EventRow | BookingRow | OutboxRow | KeyRow | ProcessedRow

datatype service_class =
    LifecycleService | TraceIdMiddleware
  | MetricsService | MetricsController | HttpMetricsInterceptor
  | RedisService | CacheService
  | KafkaService
  | HealthController | RedisHealthIndicator | KafkaHealthIndicator
  | EventsController | EventsService
  | IdempotencyInterceptor | IdempotencyCleanupJob
  | RateLimitGuard
  | OutboxController | OutboxService | OutboxRelay
  | BookingsController | BookingsService
  | NotificationsController | NotificationsService | NotificationsConsumer

text \<open>A constructor parameter: a class of the service, the repository of an entity, or a class of a library.\<close>

datatype token =
    Class service_class
  | Repository entity_class
  | ConfigService
  | DataSource
  | Reflector
  | HealthCheckService
  | TypeOrmHealthIndicator
  | HealthIndicatorService

datatype library_module = ConfigModule | LoggerModule | TypeOrmRoot | ScheduleModule | TerminusModule | TypeOrmFeature entity_class

datatype nest_module =
    AppM | CommonM | MetricsM | RedisM | KafkaM | HealthM | EventsM | IdempotencyM | RateLimitM | OutboxM | BookingsM | NotificationsM

datatype imported = Own nest_module | Lib library_module

text \<open>\<open>TypeOrmModule\<close> among the exports passes on the repositories that the module imports.\<close>

datatype exported = Provided service_class | TypeOrmModule

text \<open>\<open>md_used\<close>: the classes that decorators of the module's controllers name, which are made in this module.\<close>

record module_decl =
  md_global :: bool
  md_imports :: "imported list"
  md_controllers :: "service_class list"
  md_providers :: "service_class list"
  md_exports :: "exported list"
  md_used :: "service_class list"

subsection \<open>The modules\<close>

definition CommonModule :: module_decl where
  "CommonModule = \<lparr>md_global = True, md_imports = [], md_controllers = [], md_providers = [LifecycleService, TraceIdMiddleware],
     md_exports = [Provided LifecycleService, Provided TraceIdMiddleware], md_used = []\<rparr>"

definition MetricsModule :: module_decl where
  "MetricsModule = \<lparr>md_global = True, md_imports = [], md_controllers = [MetricsController], md_providers = [MetricsService],
     md_exports = [Provided MetricsService], md_used = []\<rparr>"

definition RedisModule :: module_decl where
  "RedisModule = \<lparr>md_global = True, md_imports = [], md_controllers = [], md_providers = [RedisService, CacheService],
     md_exports = [Provided RedisService, Provided CacheService], md_used = []\<rparr>"

definition KafkaModule :: module_decl where
  "KafkaModule = \<lparr>md_global = True, md_imports = [], md_controllers = [], md_providers = [KafkaService],
     md_exports = [Provided KafkaService], md_used = []\<rparr>"

definition HealthModule :: module_decl where
  "HealthModule = \<lparr>md_global = False, md_imports = [Lib TerminusModule], md_controllers = [HealthController],
     md_providers = [RedisHealthIndicator, KafkaHealthIndicator], md_exports = [], md_used = []\<rparr>"

definition EventsModule :: module_decl where
  "EventsModule = \<lparr>md_global = False, md_imports = [Lib (TypeOrmFeature EventRow)], md_controllers = [EventsController],
     md_providers = [EventsService], md_exports = [Provided EventsService], md_used = []\<rparr>"

definition IdempotencyModule :: module_decl where
  "IdempotencyModule = \<lparr>md_global = False, md_imports = [Lib (TypeOrmFeature KeyRow)], md_controllers = [],
     md_providers = [IdempotencyInterceptor, IdempotencyCleanupJob],
     md_exports = [Provided IdempotencyInterceptor, TypeOrmModule], md_used = []\<rparr>"

definition RateLimitModule :: module_decl where
  "RateLimitModule = \<lparr>md_global = False, md_imports = [], md_controllers = [], md_providers = [RateLimitGuard],
     md_exports = [Provided RateLimitGuard], md_used = []\<rparr>"

definition OutboxModule :: module_decl where
  "OutboxModule = \<lparr>md_global = False, md_imports = [Lib (TypeOrmFeature OutboxRow)], md_controllers = [OutboxController],
     md_providers = [OutboxService, OutboxRelay], md_exports = [Provided OutboxService, Provided OutboxRelay], md_used = []\<rparr>"

text \<open>The guard and the interceptor are named by the decorators of \<open>BookingsController.create\<close>.\<close>

definition BookingsModule :: module_decl where
  "BookingsModule = \<lparr>md_global = False,
     md_imports = [Lib (TypeOrmFeature BookingRow), Own EventsM, Own OutboxM, Own IdempotencyM, Own RateLimitM],
     md_controllers = [BookingsController], md_providers = [BookingsService], md_exports = [Provided BookingsService],
     md_used = [RateLimitGuard, IdempotencyInterceptor]\<rparr>"

definition NotificationsModule :: module_decl where
  "NotificationsModule = \<lparr>md_global = False, md_imports = [Lib (TypeOrmFeature ProcessedRow)],
     md_controllers = [NotificationsController], md_providers = [NotificationsService, NotificationsConsumer],
     md_exports = [Provided NotificationsService], md_used = []\<rparr>"

text \<open>The middleware that \<open>configure\<close> applies to every route.\<close>

definition configure :: "service_class list" where
  "configure = [TraceIdMiddleware]"

text \<open>The interceptor is provided under the token \<open>APP_INTERCEPTOR\<close>.\<close>

definition AppModule :: module_decl where
  "AppModule = \<lparr>md_global = False,
     md_imports = [Lib ConfigModule, Lib LoggerModule, Lib TypeOrmRoot, Lib ScheduleModule, Own CommonM, Own MetricsM, Own RedisM,
       Own KafkaM, Own HealthM, Own EventsM, Own IdempotencyM, Own RateLimitM, Own OutboxM, Own BookingsM, Own NotificationsM],
     md_controllers = [], md_providers = [HttpMetricsInterceptor], md_exports = [], md_used = configure\<rparr>"

fun decl :: "nest_module \<Rightarrow> module_decl" where
  "decl AppM = AppModule"
| "decl CommonM = CommonModule"
| "decl MetricsM = MetricsModule"
| "decl RedisM = RedisModule"
| "decl KafkaM = KafkaModule"
| "decl HealthM = HealthModule"
| "decl EventsM = EventsModule"
| "decl IdempotencyM = IdempotencyModule"
| "decl RateLimitM = RateLimitModule"
| "decl OutboxM = OutboxModule"
| "decl BookingsM = BookingsModule"
| "decl NotificationsM = NotificationsModule"

definition all_modules :: "nest_module list" where
  "all_modules = [AppM, CommonM, MetricsM, RedisM, KafkaM, HealthM, EventsM, IdempotencyM, RateLimitM, OutboxM, BookingsM, NotificationsM]"

lemma all_modules_complete: "m \<in> set all_modules"
  by (cases m) (simp_all add: all_modules_def)

lemmas module_defs = CommonModule_def MetricsModule_def RedisModule_def KafkaModule_def HealthModule_def EventsModule_def
  IdempotencyModule_def RateLimitModule_def OutboxModule_def BookingsModule_def NotificationsModule_def AppModule_def configure_def

subsection \<open>The constructors\<close>

definition new_RedisService :: "token list" where
  "new_RedisService = [ConfigService]"

definition new_CacheService :: "token list" where
  "new_CacheService = [Class RedisService, ConfigService, Class MetricsService]"

definition new_MetricsService :: "token list" where
  "new_MetricsService = [ConfigService]"

definition new_MetricsController :: "token list" where
  "new_MetricsController = [Class MetricsService]"

definition new_HttpMetricsInterceptor :: "token list" where
  "new_HttpMetricsInterceptor = [Class MetricsService]"

definition new_KafkaService :: "token list" where
  "new_KafkaService = [ConfigService]"

definition new_HealthController :: "token list" where
  "new_HealthController =
     [HealthCheckService, TypeOrmHealthIndicator, Class RedisHealthIndicator, Class KafkaHealthIndicator, Class LifecycleService]"

definition new_RedisHealthIndicator :: "token list" where
  "new_RedisHealthIndicator = [Class RedisService, HealthIndicatorService]"

definition new_KafkaHealthIndicator :: "token list" where
  "new_KafkaHealthIndicator = [Class KafkaService, HealthIndicatorService]"

definition new_EventsController :: "token list" where
  "new_EventsController = [Class EventsService]"

definition new_EventsService :: "token list" where
  "new_EventsService = [Repository EventRow, Class CacheService]"

definition new_IdempotencyInterceptor :: "token list" where
  "new_IdempotencyInterceptor = [Repository KeyRow]"

definition new_IdempotencyCleanupJob :: "token list" where
  "new_IdempotencyCleanupJob = [Repository KeyRow, Class RedisService]"

definition new_RateLimitGuard :: "token list" where
  "new_RateLimitGuard = [Class RedisService, ConfigService, Class MetricsService, Reflector]"

definition new_OutboxController :: "token list" where
  "new_OutboxController = [Repository OutboxRow, Class OutboxRelay]"

definition new_OutboxRelay :: "token list" where
  "new_OutboxRelay = [DataSource, Class KafkaService, ConfigService, Class MetricsService]"

definition new_BookingsController :: "token list" where
  "new_BookingsController = [Class BookingsService]"

definition new_BookingsService :: "token list" where
  "new_BookingsService = [DataSource, Repository BookingRow, ConfigService, Class MetricsService, Class OutboxService,
     Class KafkaService, Class EventsService]"

definition new_NotificationsController :: "token list" where
  "new_NotificationsController = [Class NotificationsService]"

definition new_NotificationsService :: "token list" where
  "new_NotificationsService = [Repository ProcessedRow, ConfigService, Class MetricsService]"

definition new_NotificationsConsumer :: "token list" where
  "new_NotificationsConsumer = [Class KafkaService, ConfigService, Class NotificationsService, Class MetricsService]"

text \<open>\<open>LifecycleService\<close>, \<open>TraceIdMiddleware\<close> and \<open>OutboxService\<close> have no constructor.\<close>

fun deps :: "service_class \<Rightarrow> token list" where
  "deps LifecycleService = []"
| "deps TraceIdMiddleware = []"
| "deps MetricsService = new_MetricsService"
| "deps MetricsController = new_MetricsController"
| "deps HttpMetricsInterceptor = new_HttpMetricsInterceptor"
| "deps RedisService = new_RedisService"
| "deps CacheService = new_CacheService"
| "deps KafkaService = new_KafkaService"
| "deps HealthController = new_HealthController"
| "deps RedisHealthIndicator = new_RedisHealthIndicator"
| "deps KafkaHealthIndicator = new_KafkaHealthIndicator"
| "deps EventsController = new_EventsController"
| "deps EventsService = new_EventsService"
| "deps IdempotencyInterceptor = new_IdempotencyInterceptor"
| "deps IdempotencyCleanupJob = new_IdempotencyCleanupJob"
| "deps RateLimitGuard = new_RateLimitGuard"
| "deps OutboxController = new_OutboxController"
| "deps OutboxService = []"
| "deps OutboxRelay = new_OutboxRelay"
| "deps BookingsController = new_BookingsController"
| "deps BookingsService = new_BookingsService"
| "deps NotificationsController = new_NotificationsController"
| "deps NotificationsService = new_NotificationsService"
| "deps NotificationsConsumer = new_NotificationsConsumer"

lemmas new_defs = new_RedisService_def new_CacheService_def new_MetricsService_def new_MetricsController_def
  new_HttpMetricsInterceptor_def new_KafkaService_def new_HealthController_def new_RedisHealthIndicator_def
  new_KafkaHealthIndicator_def new_EventsController_def new_EventsService_def new_IdempotencyInterceptor_def
  new_IdempotencyCleanupJob_def new_RateLimitGuard_def new_OutboxController_def new_OutboxRelay_def
  new_BookingsController_def new_BookingsService_def new_NotificationsController_def new_NotificationsService_def
  new_NotificationsConsumer_def

subsection \<open>Every dependency is supplied\<close>

definition made_in :: "module_decl \<Rightarrow> service_class list" where
  "made_in d = md_controllers d @ md_providers d @ md_used d"

fun exports_of :: "(library_module \<Rightarrow> token list) \<Rightarrow> module_decl \<Rightarrow> exported \<Rightarrow> token list" where
  "exports_of lib d (Provided c) = [Class c]"
| "exports_of lib d TypeOrmModule =
     concat (map (\<lambda>i. case i of Lib (TypeOrmFeature e) \<Rightarrow> lib (TypeOrmFeature e) | _ \<Rightarrow> []) (md_imports d))"

definition exports :: "(library_module \<Rightarrow> token list) \<Rightarrow> module_decl \<Rightarrow> token list" where
  "exports lib d = concat (map (exports_of lib d) (md_exports d))"

fun supplied_by :: "(library_module \<Rightarrow> token list) \<Rightarrow> imported \<Rightarrow> token list" where
  "supplied_by lib (Own m) = exports lib (decl m)"
| "supplied_by lib (Lib l) = lib l"

definition globals :: "(library_module \<Rightarrow> token list) \<Rightarrow> token list" where
  "globals lib = lib ConfigModule @ concat (map (\<lambda>m. if md_global (decl m) then exports lib (decl m) else []) all_modules)"

definition visible :: "(library_module \<Rightarrow> token list) \<Rightarrow> token list \<Rightarrow> module_decl \<Rightarrow> token set" where
  "visible lib ambient d = set ambient \<union> set (globals lib) \<union> Class ` set (md_providers d)
     \<union> (\<Union>i \<in> set (md_imports d). set (supplied_by lib i))"

definition resolves :: "(library_module \<Rightarrow> token list) \<Rightarrow> token list \<Rightarrow> module_decl \<Rightarrow> bool" where
  "resolves lib ambient d \<longleftrightarrow> (\<forall>c \<in> set (made_in d). set (deps c) \<subseteq> visible lib ambient d)"

text \<open>What is relied on of the libraries: the documented exports of their modules.\<close>

definition libraries_ok :: "(library_module \<Rightarrow> token list) \<Rightarrow> token list \<Rightarrow> bool" where
  "libraries_ok lib ambient \<longleftrightarrow> (\<forall>e. Repository e \<in> set (lib (TypeOrmFeature e)))
     \<and> ConfigService \<in> set (lib ConfigModule)
     \<and> {HealthCheckService, TypeOrmHealthIndicator, HealthIndicatorService} \<subseteq> set (lib TerminusModule)
     \<and> {DataSource, Reflector} \<subseteq> set ambient"

fun documented :: "library_module \<Rightarrow> token list" where
  "documented ConfigModule = [ConfigService]"
| "documented TerminusModule = [HealthCheckService, TypeOrmHealthIndicator, HealthIndicatorService]"
| "documented (TypeOrmFeature e) = [Repository e]"
| "documented _ = []"

lemma documented_ok: "libraries_ok documented [DataSource, Reflector]"
  by (simp add: libraries_ok_def)

lemma global_tokens:
  assumes "libraries_ok lib ambient"
  shows "{ConfigService, Class LifecycleService, Class TraceIdMiddleware, Class MetricsService, Class RedisService,
      Class CacheService, Class KafkaService} \<subseteq> set (globals lib)"
  using assms by (simp add: globals_def all_modules_def libraries_ok_def module_defs exports_def)

lemma resolves_all:
  assumes "libraries_ok lib ambient"
  shows "resolves lib ambient (decl m)"
  using assms global_tokens [OF assms]
  by (cases m) (auto simp: resolves_def visible_def libraries_ok_def made_in_def module_defs new_defs exports_def)

text \<open>
  Every constructor parameter of every controller, provider, guard, interceptor and middleware can be supplied in
  the module that makes it: the service starts as far as injection is concerned.
\<close>

theorem every_dependency_resolves:
  assumes "libraries_ok lib ambient"
  shows "\<forall>m c. c \<in> set (made_in (decl m)) \<longrightarrow> set (deps c) \<subseteq> visible lib ambient (decl m)"
  using resolves_all [OF assms] by (simp add: resolves_def)

lemma every_dependency_resolves_witness:
  "Repository KeyRow \<in> visible documented [DataSource, Reflector] BookingsModule"
proof -
  have "IdempotencyInterceptor \<in> set (made_in (decl BookingsM))" by (simp add: made_in_def BookingsModule_def)
  with every_dependency_resolves [OF documented_ok] have "set (deps IdempotencyInterceptor) \<subseteq> visible documented [DataSource, Reflector] (decl BookingsM)"
    by blast
  then show ?thesis by (simp add: new_IdempotencyInterceptor_def)
qed

text \<open>
  The imports of the modules below \<open>AppModule\<close> are needed, each of them, but for \<open>RateLimitModule\<close> in
  \<open>BookingsModule\<close>: the guard that the decorator names asks for global services only.
\<close>

definition without_import :: "imported \<Rightarrow> module_decl \<Rightarrow> module_decl" where
  "without_import i d = d\<lparr>md_imports := remove1 i (md_imports d)\<rparr>"

theorem imports_needed:
  assumes "m \<noteq> AppM" and "i \<in> set (md_imports (decl m))"
  shows "resolves documented [DataSource, Reflector] (without_import i (decl m)) \<longleftrightarrow> i = Own RateLimitM"
proof -
  have "\<forall>m \<in> set all_modules. m \<noteq> AppM \<longrightarrow> (\<forall>i \<in> set (md_imports (decl m)).
      resolves documented [DataSource, Reflector] (without_import i (decl m)) \<longleftrightarrow> i = Own RateLimitM)"
    by code_simp
  with assms all_modules_complete show ?thesis by blast
qed

lemma imports_needed_witness:
  "\<not> resolves documented [DataSource, Reflector] (without_import (Own OutboxM) BookingsModule)
    \<and> resolves documented [DataSource, Reflector] (without_import (Own RateLimitM) BookingsModule)"
  using imports_needed [of BookingsM "Own OutboxM"] imports_needed [of BookingsM "Own RateLimitM"]
  by (simp add: BookingsModule_def)

subsection \<open>No cycles, one instance\<close>

fun in_order :: "('a \<Rightarrow> 'a list) \<Rightarrow> 'a list \<Rightarrow> 'a list \<Rightarrow> bool" where
  "in_order needs before [] = True"
| "in_order needs before (x # xs) \<longleftrightarrow> set (needs x) \<subseteq> set before \<and> in_order needs (x # before) xs"

text \<open>An order by which everything is made after what it needs excludes cycles.\<close>

lemma in_order_needs:
  "in_order needs before xs \<Longrightarrow> x \<in> set xs \<Longrightarrow> set (needs x) \<subseteq> set before \<union> set xs"
  by (induction needs before xs rule: in_order.induct) auto

lemma in_order_rank:
  "in_order needs before xs \<Longrightarrow> distinct xs \<Longrightarrow> set before \<inter> set xs = {} \<Longrightarrow>
    \<exists>rank :: 'a \<Rightarrow> nat. (\<forall>b \<in> set before. rank b = 0) \<and> (\<forall>x \<in> set xs. 0 < rank x)
      \<and> (\<forall>x \<in> set xs. \<forall>y \<in> set (needs x). rank y < rank x)"
proof (induction xs rule: rev_induct)
  case Nil
  show ?case by (rule exI [of _ "\<lambda>_. 0"]) simp
next
  case (snoc x xs)
  have split: "in_order needs before (xs @ [x]) \<longleftrightarrow> in_order needs before xs \<and> set (needs x) \<subseteq> set before \<union> set xs"
    for before by (induction xs arbitrary: before) auto
  with snoc obtain rank :: "'a \<Rightarrow> nat" where r: "\<forall>b \<in> set before. rank b = 0" "\<forall>x \<in> set xs. 0 < rank x"
      "\<forall>x \<in> set xs. \<forall>y \<in> set (needs x). rank y < rank x"
    by auto
  have fresh: "x \<notin> set xs" "x \<notin> set before" using snoc.prems by auto
  have above: "\<forall>z \<in> set xs. x \<notin> set (needs z)"
    using in_order_needs [of needs before xs] split snoc.prems fresh by blast
  have need: "set (needs x) \<subseteq> set before \<union> set xs" using split snoc.prems by blast
  define top where "top = Suc (Max (insert 0 (rank ` set xs)))"
  have "rank z < top" if "z \<in> set before \<union> set xs" for z
    using that r(1) by (auto simp: top_def less_Suc_eq_le)
  with r fresh above need show ?case
    by (intro exI [of _ "rank(x := top)"]) (auto simp: top_def)
qed

fun class_of :: "token \<Rightarrow> service_class list" where
  "class_of (Class c) = [c]"
| "class_of _ = []"

fun own_of :: "imported \<Rightarrow> nest_module list" where
  "own_of (Own m) = [m]"
| "own_of (Lib _) = []"

lemma class_of_iff [simp]: "c \<in> set (class_of t) \<longleftrightarrow> t = Class c"
  by (cases t) auto

lemma own_of_iff [simp]: "m \<in> set (own_of i) \<longleftrightarrow> i = Own m"
  by (cases i) auto

definition class_needs :: "service_class \<Rightarrow> service_class list" where
  "class_needs c = concat (map class_of (deps c))"

definition module_needs :: "nest_module \<Rightarrow> nest_module list" where
  "module_needs m = concat (map own_of (md_imports (decl m)))"

definition class_order :: "service_class list" where
  "class_order = [LifecycleService, TraceIdMiddleware, MetricsService, MetricsController, HttpMetricsInterceptor, RedisService,
     CacheService, KafkaService, RedisHealthIndicator, KafkaHealthIndicator, HealthController, EventsService, EventsController,
     IdempotencyInterceptor, IdempotencyCleanupJob, RateLimitGuard, OutboxService, OutboxRelay, OutboxController,
     BookingsService, BookingsController, NotificationsService, NotificationsConsumer, NotificationsController]"

lemma class_order_complete: "c \<in> set class_order"
  by (cases c) (simp_all add: class_order_def)

lemma class_order_ok: "in_order class_needs [] class_order" "distinct class_order"
  by code_simp+

lemma module_order_ok: "in_order module_needs [] (rotate1 all_modules)" "distinct (rotate1 all_modules)"
  by code_simp+

lemma module_order_complete: "m \<in> set (rotate1 all_modules)"
  by (simp add: all_modules_complete)

lemma in_order_wf:
  assumes "in_order needs [] xs" and "distinct xs" and "\<And>x. x \<in> set xs"
  shows "wf {(y, x). y \<in> set (needs x)}"
proof -
  obtain rank :: "'a \<Rightarrow> nat" where "\<forall>x \<in> set xs. \<forall>y \<in> set (needs x). rank y < rank x"
    using in_order_rank [OF assms(1,2)] by fastforce
  then have "{(y, x). y \<in> set (needs x)} \<subseteq> measure rank" using assms(3) by auto
  then show ?thesis by (rule wf_subset [OF wf_measure])
qed

text \<open>
  No class asks for itself, however indirectly, and no module imports itself, so that both can be made one after
  another; and the list \<open>class_order\<close> is an order in which the classes can be made.
\<close>

theorem no_circular_dependency:
  "acyclic {(c', c). Class c' \<in> set (deps c)} \<and> acyclic {(m', m). Own m' \<in> set (md_imports (decl m))}
    \<and> set class_order = UNIV \<and> in_order class_needs [] class_order"
proof -
  have c: "{(c', c). Class c' \<in> set (deps c)} = {(c', c). c' \<in> set (class_needs c)}"
    by (simp add: class_needs_def)
  have m: "{(m', m). Own m' \<in> set (md_imports (decl m))} = {(m', m). m' \<in> set (module_needs m)}"
    by (simp add: module_needs_def)
  show ?thesis
    unfolding c m
    using in_order_wf [OF class_order_ok class_order_complete] in_order_wf [OF module_order_ok module_order_complete]
      class_order_ok(1) class_order_complete
    by (auto intro: wf_acyclic)
qed

definition made_by :: "service_class \<Rightarrow> nest_module list" where
  "made_by c = filter (\<lambda>m. c \<in> set (made_in (decl m))) all_modules"

text \<open>
  Every class is declared by exactly one module, and made in that module only: a process has one cache, one
  semaphore, one relay and one lifecycle, as the models of these components have. The exceptions are the guard,
  the interceptor and the middleware that decorators and \<open>configure\<close> name outside their module, which have no
  state of their own.
\<close>

theorem one_instance:
  "(\<exists>!m. c \<in> set (md_controllers (decl m) @ md_providers (decl m)))
    \<and> (length (made_by c) = 1 \<or> c \<in> {RateLimitGuard, IdempotencyInterceptor, TraceIdMiddleware})"
proof -
  have "\<exists>m. filter (\<lambda>m. c \<in> set (md_controllers (decl m) @ md_providers (decl m))) all_modules = [m]"
    by (cases c) (simp_all add: all_modules_def module_defs)
  then obtain m where m: "filter (\<lambda>m. c \<in> set (md_controllers (decl m) @ md_providers (decl m))) all_modules = [m]" by blast
  have "m' = m \<longleftrightarrow> c \<in> set (md_controllers (decl m') @ md_providers (decl m'))" for m'
    using arg_cong [OF m, of "\<lambda>ms. m' \<in> set ms"] all_modules_complete [of m'] by simp
  moreover have "length (made_by c) = 1 \<or> c \<in> {RateLimitGuard, IdempotencyInterceptor, TraceIdMiddleware}"
    by (cases c) (simp_all add: made_by_def made_in_def all_modules_def module_defs)
  ultimately show ?thesis by metis
qed

end
