(* ===== verification/Wiring.thy ===== *)
theory Wiring
  imports Config Trace Lifecycle
begin

section \<open>Wiring\<close>

text \<open>
  What \<open>app.module.ts\<close>, \<open>data-source.ts\<close> and \<open>main.ts\<close> decide themselves: the options of the database
  connection of the service and of the migration command, which requests are logged and under which id, and
  the order of the start. What the modules and their classes depend on is in \<open>ModuleGraph\<close>; what the framework
  does with these values is not modelled.
\<close>

subsection \<open>Database connections\<close>

record data_source_options =
  do_type :: string
  do_host :: string
  do_port :: int
  do_username :: string
  do_password :: string
  do_database :: string
  do_synchronize :: bool
  do_migrationsRun :: "bool option"
  do_max :: int
  do_connectionTimeoutMillis :: int
  do_idleTimeoutMillis :: int
  do_options :: string

text \<open>The factory of \<open>TypeOrmModule\<close> in \<open>app.module.ts\<close>.\<close>

definition typeorm_options :: "config \<Rightarrow> data_source_options" where
  "typeorm_options cfg =
     \<lparr>do_type = ''postgres'', do_host = db_host cfg, do_port = db_port cfg, do_username = db_username cfg,
      do_password = db_password cfg, do_database = db_name cfg, do_synchronize = False, do_migrationsRun = Some False,
      do_max = db_poolMax cfg, do_connectionTimeoutMillis = 5000, do_idleTimeoutMillis = 30000,
      do_options = ''-c timezone=UTC''\<rparr>"

text \<open>\<open>dataSourceOptions\<close> of \<open>data-source.ts\<close>, with which migrations are run; an unknown lock strategy ends it, too.\<close>

definition dataSourceOptions :: "environment \<Rightarrow> string \<Rightarrow> err + data_source_options" where
  "dataSourceOptions env hostname =
     (case configuration env hostname of
        Inl e \<Rightarrow> Inl e
      | Inr c \<Rightarrow> Inr
          \<lparr>do_type = ''postgres'', do_host = db_host c, do_port = db_port c, do_username = db_username c,
           do_password = db_password c, do_database = db_name c, do_synchronize = False, do_migrationsRun = None,
           do_max = db_poolMax c, do_connectionTimeoutMillis = 5000, do_idleTimeoutMillis = 30000,
           do_options = ''-c timezone=UTC''\<rparr>)"

text \<open>
  The service and the migration command, started with the same environment, either both refuse it or use the
  same database in the same way, and neither changes the schema on its own.
\<close>

theorem same_database:
  "map_sum id (\<lambda>c. (typeorm_options c)\<lparr>do_migrationsRun := None\<rparr>) (configuration env hostname) = dataSourceOptions env hostname
    \<and> (case dataSourceOptions env hostname of Inl _ \<Rightarrow> True | Inr opts \<Rightarrow> \<not> do_synchronize opts \<and> do_migrationsRun opts \<noteq> Some True)"
  by (simp add: typeorm_options_def dataSourceOptions_def split: sum.split)

subsection \<open>Logging\<close>

text \<open>\<open>autoLogging.ignore\<close>: the URL may be missing.\<close>

definition starts_with :: "string \<Rightarrow> string \<Rightarrow> bool" where
  "starts_with p s \<longleftrightarrow> List.take (length p) s = p"

definition ignored_by_log :: "string option \<Rightarrow> bool" where
  "ignored_by_log url = (url = Some ''/metrics'' \<or> (case url of None \<Rightarrow> False | Some u \<Rightarrow> starts_with ''/health'' u))"

record log_options =
  lo_level :: string
  lo_pretty :: bool
  lo_instanceId :: string
  lo_redact :: "string list"

definition pino_options :: "config \<Rightarrow> log_options" where
  "pino_options cfg =
     \<lparr>lo_level = app_logLevel cfg, lo_pretty = (app_env cfg = ''development''), lo_instanceId = app_instanceId cfg,
      lo_redact = [''req.headers.authorization'', ''req.headers.cookie'']\<rparr>"

text \<open>\<open>genReqId\<close>: the id under which the logger records a request.\<close>

definition genReqId :: "request_headers \<Rightarrow> uuid \<Rightarrow> string" where
  "genReqId r randomUUID = resolveTraceId (Some (rq_headers r)) randomUUID"

definition inbound_id :: "request_headers \<Rightarrow> string option" where
  "inbound_id r = (case pick (rq_headers r TRACE_HEADER) of Some c \<Rightarrow> Some c | None \<Rightarrow> pick (rq_headers r TRACE_HEADER_ALT))"

text \<open>
  The log and the rest of the trace agree on the id of a request whose inbound id is accepted, and of any
  request if the logger sees it after the trace middleware. When the logger sees it first, a request without an
  accepted id is logged under an id of its own.
\<close>

theorem log_and_trace_ids:
  assumes "accepted u" and "u \<noteq> v"
  shows "rq_traceId (use_trace r u) = Some (genReqId (use_trace r u) v)
    \<and> (rq_traceId (use_trace r u) = Some (genReqId r v) \<longleftrightarrow> (\<exists>c. inbound_id r = Some c \<and> accepted c))"
proof -
  have id: "rq_traceId (use_trace r x) = Some (resolveTraceId (Some (rq_headers r)) x)" for x
    by (simp add: use_trace_def Let_def)
  have "accepted (resolveTraceId (Some (rq_headers r)) u)" by (rule resolve_accepted [OF assms(1)])
  then have "genReqId (use_trace r u) v = resolveTraceId (Some (rq_headers r)) u"
    by (simp add: genReqId_def use_trace_def Let_def resolve_keeps)
  moreover have "resolveTraceId (Some (rq_headers r)) x = (case inbound_id r of Some c \<Rightarrow> if accepted c then c else x | None \<Rightarrow> x)" for x
    by (auto simp: resolveTraceId_def inbound_id_def accepted_def Let_def split: option.splits)
  ultimately show ?thesis using assms(2) id by (auto simp: genReqId_def split: option.splits)
qed

lemma log_and_trace_ids_witness:
  "rq_traceId (use_trace injected ''0-1'') \<noteq> Some (genReqId injected ''0-2'')"
proof -
  have acc: "accepted ''0-1''" by (simp add: accepted_def SAFE_def safe_char_def is_digit_def MAX_LENGTH_def)
  have "\<not> (\<exists>c. inbound_id injected = Some c \<and> accepted c)"
    by (auto simp: inbound_id_def injected_def pick_def trim_def is_ws_def nonempty_def accepted_def SAFE_def safe_char_def is_digit_def Let_def)
  moreover have "''0-1'' \<noteq> ''0-2''" by simp
  ultimately show ?thesis using log_and_trace_ids [OF acc, of "''0-2''" injected] by blast
qed

subsection \<open>The start\<close>

text \<open>The steps of \<open>bootstrap\<close> in \<open>main.ts\<close>; \<open>OnSignal\<close> installs the handler that drains for the given time.\<close>

datatype boot_step =
    CreateApp
  | UseLogger
  | EnableVersioning string
  | TrustProxy int
  | EnableCors
  | SetupSwagger
  | EnableShutdownHooks
  | OnSignal string ms
  | Listen int string
  | LogStarted string

definition started_message :: "config \<Rightarrow> string" where
  "started_message cfg = ''overbook listening on '' @ int_str (app_port cfg) @ '' (instance='' @ app_instanceId cfg @ '', ''
     @ ''lock='' @ strategy_name (booking_lockStrategy cfg) @ '', docs at /docs)''"

definition bootstrap :: "config \<Rightarrow> boot_step list" where
  "bootstrap cfg =
     [CreateApp, UseLogger, EnableVersioning ''1'', TrustProxy 1, EnableCors, SetupSwagger, EnableShutdownHooks,
      OnSignal ''SIGTERM'' (app_shutdownDrainMs cfg), OnSignal ''SIGINT'' (app_shutdownDrainMs cfg),
      Listen (app_port cfg) ''0.0.0.0'', LogStarted (started_message cfg)]"

text \<open>The service never accepts a connection before both signals are handled.\<close>

lemma handlers_before_listening:
  "\<exists>before after. bootstrap cfg = before @ Listen (app_port cfg) ''0.0.0.0'' # after
    \<and> {OnSignal ''SIGTERM'' (app_shutdownDrainMs cfg), OnSignal ''SIGINT'' (app_shutdownDrainMs cfg)} \<subseteq> set before
    \<and> (\<forall>port host. Listen port host \<notin> set before \<union> set after)"
  unfolding bootstrap_def
  by (rule exI [of _ "[CreateApp, UseLogger, EnableVersioning ''1'', TrustProxy 1, EnableCors, SetupSwagger, EnableShutdownHooks,
      OnSignal ''SIGTERM'' (app_shutdownDrainMs cfg), OnSignal ''SIGINT'' (app_shutdownDrainMs cfg)]"],
    rule exI [of _ "[LogStarted (started_message cfg)]"]) simp

end
