(* ===== verification/Api.thy ===== *)
theory Api
  imports BookEndpoint EventPages RelayLive Notifications
begin

section \<open>The API as a whole\<close>

text \<open>
  Every route of the versioned API: \<open>events/events.controller.ts\<close>, \<open>bookings/bookings.controller.ts\<close>,
  \<open>outbox/outbox.controller.ts\<close> and \<open>notifications/notifications.controller.ts\<close>, with the pipes that
  \<open>app.module.ts\<close> and the decorators put before the handlers. A request is what the router hands over; the
  pipes, the date parser, the hash and the collation are arguments.
\<close>

record 'o pipes =
  pp_isUUID :: "string \<Rightarrow> bool"
  pp_event :: "jsval \<Rightarrow> err + create_event_dto"
  pp_list :: "jsval \<Rightarrow> err + list_events_dto"
  pp_booking :: "jsval \<Rightarrow> err + create_booking_dto"
  pp_date :: "string \<Rightarrow> ms option"
  pp_sha256 :: "string \<Rightarrow> string"
  pp_collate :: "string \<Rightarrow> 'o"

definition bad_uuid :: err where
  "bad_uuid = JsError ''Validation failed (uuid is expected)''"

definition uuid_param :: "('o, 'x) pipes_scheme \<Rightarrow> string \<Rightarrow> err + uuid" where
  "uuid_param P i = (if pp_isUUID P i then Inr i else Inl bad_uuid)"

definition and_then :: "err + 'a \<Rightarrow> ('a \<Rightarrow> err + 'b) \<Rightarrow> err + 'b" where
  "and_then x f = (case x of Inl e \<Rightarrow> Inl e | Inr a \<Rightarrow> f a)"

subsection \<open>Handlers\<close>

definition create_event_route :: "('o, 'x) pipes_scheme \<Rightarrow> jsval \<Rightarrow> uuid \<Rightarrow> ('s, 'k, event_response) call" where
  "create_event_route P body generated w =
     (case pp_event P body of
        Inl e \<Rightarrow> (Inl e, w)
      | Inr dto \<Rightarrow>
          (case create_event (pp_date P) dto generated (wd_now w) (wd_db w) of (a, d) \<Rightarrow> (a, w\<lparr>wd_db := d\<rparr>)))"

definition list_events_route :: "('o, 'x) pipes_scheme \<Rightarrow> jsval \<Rightarrow> db \<Rightarrow> err + event_page" where
  "list_events_route P query d = and_then (pp_list P query) (\<lambda>q. list_events q d)"

text \<open>A refresh that the read has started in the background has ended when the next request is served.\<close>

definition get_event_route :: "config \<Rightarrow> ('s, 'k) services \<Rightarrow> ('o, 'x) pipes_scheme \<Rightarrow> ('s, 'k) cache_env \<Rightarrow> ('s, 'k) cache_env
    \<Rightarrow> string \<Rightarrow> ('s, 'k) world \<Rightarrow> ((err + jsval) \<times> ('s, 'k) world) option" where
  "get_event_route cfg S P ce ce' i w =
     (case uuid_param P i of
        Inl e \<Rightarrow> Some (Inl e, w)
      | Inr i \<Rightarrow>
          map_option (\<lambda>((answer, w'), refresh). (answer,
              if refresh then refreshInBackground cfg S (eventCacheKey i) None ce' (load_event i) w' else w'))
            (findOne cfg S ce i w))"

definition get_uncached_route :: "('o, 'x) pipes_scheme \<Rightarrow> string \<Rightarrow> db \<Rightarrow> err + event_response" where
  "get_uncached_route P i d = and_then (uuid_param P i) (\<lambda>i. findOneUncached i d)"

definition booking_pipes :: "('o, 'x) pipes_scheme \<Rightarrow> uuid \<Rightarrow> jsval \<Rightarrow> err + create_booking_dto" where
  "booking_pipes P i body = and_then (uuid_param P i) (\<lambda>_. pp_booking P body)"

definition integrity_route :: "('o, 'x) pipes_scheme \<Rightarrow> string \<Rightarrow> db \<Rightarrow> err + seat_integrity" where
  "integrity_route P i d = and_then (uuid_param P i) (\<lambda>i. integrity i d)"

text \<open>\<open>limit\<close> is \<open>Number(limit)\<close>; an infinite limit is an error of the database.\<close>

definition list_bookings_route :: "('o, 'x) pipes_scheme \<Rightarrow> string \<Rightarrow> jsnum \<Rightarrow> db \<Rightarrow> err + booking_row list" where
  "list_bookings_route P i limit d =
     and_then (uuid_param P i) (\<lambda>i. case list_limit limit of Fin n \<Rightarrow> listByEvent i n d | _ \<Rightarrow> Inl QueryFailedError)"

definition get_booking_route :: "('o, 'x) pipes_scheme \<Rightarrow> string \<Rightarrow> db \<Rightarrow> err + booking_row" where
  "get_booking_route P i d = and_then (uuid_param P i) (\<lambda>i. find_booking i d)"

text \<open>\<open>locked\<close> are the rows that other relays have locked, \<open>rl\<close> the relay of this process.\<close>

definition drain_route :: "config \<Rightarrow> ('s, 'k) services \<Rightarrow> uuid set \<Rightarrow> relay \<Rightarrow> ('s, 'k, nat) call" where
  "drain_route cfg S locked rl w = drainOnce cfg S locked rl w"

subsection \<open>Routes\<close>

datatype ('s, 'k) api_request =
    PostEvent jsval uuid
  | GetEvents jsval
  | GetEvent string "('s, 'k) cache_env" "('s, 'k) cache_env"
  | GetEventUncached string
  | PostBooking booking_http txenv
  | GetIntegrity string
  | GetEventBookings string jsnum
  | GetBooking string
  | GetOutboxStats
  | PostDrain "uuid set" relay
  | GetNotificationStats

datatype api_reply =
    EventReply event_response
  | PageReply event_page
  | CachedReply jsval
  | BookingReply http_response
  | IntegrityReply seat_integrity
  | BookingsReply "booking_row list"
  | OneBookingReply booking_row
  | OutboxReply outbox_stats
  | DrainReply nat
  | NotificationsReply notification_stats

text \<open>The answer and the world after it; \<open>None\<close> for a cached read that is still waiting.\<close>

fun serve :: "config \<Rightarrow> ('s, 'k) services \<Rightarrow> ('o::linorder, 'x) pipes_scheme \<Rightarrow> ('s, 'k) api_request
    \<Rightarrow> ('s, 'k) world \<Rightarrow> ((err + api_reply) \<times> ('s, 'k) world) option" where
  "serve cfg S P (PostEvent body generated) w =
     (case create_event_route P body generated w of (a, w') \<Rightarrow> Some (map_sum id EventReply a, w'))"
| "serve cfg S P (GetEvents query) w = Some (map_sum id PageReply (list_events_route P query (wd_db w)), w)"
| "serve cfg S P (GetEvent i ce ce') w =
     map_option (\<lambda>(a, w'). (map_sum id CachedReply a, w')) (get_event_route cfg S P ce ce' i w)"
| "serve cfg S P (GetEventUncached i) w = Some (map_sum id EventReply (get_uncached_route P i (wd_db w)), w)"
| "serve cfg S P (PostBooking r env) w =
     (case post_booking cfg S env (booking_pipes P (bh_eventId r)) (pp_sha256 P) (pp_collate P) r w of
        (a, _, w') \<Rightarrow> Some (map_sum id BookingReply a, w'))"
| "serve cfg S P (GetIntegrity i) w = Some (map_sum id IntegrityReply (integrity_route P i (wd_db w)), w)"
| "serve cfg S P (GetEventBookings i limit) w = Some (map_sum id BookingsReply (list_bookings_route P i limit (wd_db w)), w)"
| "serve cfg S P (GetBooking i) w = Some (map_sum id OneBookingReply (get_booking_route P i (wd_db w)), w)"
| "serve cfg S P GetOutboxStats w = Some (Inr (OutboxReply (relay_stats (wd_db w))), w)"
| "serve cfg S P (PostDrain locked rl) w =
     (case drain_route cfg S locked rl w of (a, w') \<Rightarrow> Some (map_sum id DrainReply a, w'))"
| "serve cfg S P GetNotificationStats w = Some (Inr (NotificationsReply (notification_stats_of cfg (wd_db w))), w)"

fun is_get :: "('s, 'k) api_request \<Rightarrow> bool" where
  "is_get (PostEvent _ _) = False"
| "is_get (PostBooking _ _) = False"
| "is_get (PostDrain _ _) = False"
| "is_get _ = True"

text \<open>Requests served one after the other, each at its time.\<close>

fun serve_all :: "config \<Rightarrow> ('s, 'k) services \<Rightarrow> ('o::linorder, 'x) pipes_scheme \<Rightarrow> (ms \<times> ('s, 'k) api_request) list
    \<Rightarrow> ('s, 'k) world \<Rightarrow> ((err + api_reply) list \<times> ('s, 'k) world) option" where
  "serve_all cfg S P [] w = Some ([], w)"
| "serve_all cfg S P ((t, r) # rs) w =
     (case serve cfg S P r (w\<lparr>wd_now := t\<rparr>) of
        None \<Rightarrow> None
      | Some (a, w') \<Rightarrow> map_option (\<lambda>(as, w''). (a # as, w'')) (serve_all cfg S P rs w'))"

subsection \<open>What the routes leave alone\<close>

text \<open>A cached read that waits for nobody else sees only its own world.\<close>

fun alone :: "('s, 'k) api_request \<Rightarrow> bool" where
  "alone (GetEvent _ ce _) = (ce_rounds ce = [])"
| "alone _ = True"

definition same_data :: "('s, 'k) world \<Rightarrow> ('s, 'k) world \<Rightarrow> bool" where
  "same_data w w' \<longleftrightarrow> wd_db w' = wd_db w \<and> wd_kafka w' = wd_kafka w"

lemma same_data_simps [simp]:
  "same_data w w" "same_data w (count_cache n r w') = same_data w w'" "same_data (count_cache n r w) w' = same_data w w'"
  "same_data w (count_wait n w') = same_data w w'" "same_data (count_wait n w) w' = same_data w w'"
  by (simp_all add: same_data_def)

lemma load_write_data: "load_write cfg S key ttl rnd (load_event i) w = (a, w') \<Longrightarrow> same_data w w'"
  by (auto simp: load_write_def load_event_def same_data_def)

lemma acquireLock_data: "acquireLock S key ttl token w = (a, w') \<Longrightarrow> same_data w w'"
  by (auto simp: acquireLock_def same_data_def split: if_splits prod.splits)

lemma releaseLock_data [simp]: "same_data w (releaseLock S key token w') = same_data w w'"
  by (simp add: releaseLock_def same_data_def)

lemma same_data_trans: "same_data w w' \<Longrightarrow> same_data w' w'' \<Longrightarrow> same_data w w''"
  by (simp add: same_data_def)

lemma await_alone: "await S key deadline w [] = Some (found, w') \<Longrightarrow> found = None \<and> w' = w"
  by (simp add: await.simps split: if_splits)

lemma singleFlight_data:
  assumes "ce_rounds ce = []" "singleFlight cfg S key name ttl ce (load_event i) w = Some (a, w')"
  shows "same_data w w'"
proof -
  obtain l w1 where acq: "acquireLock S (lock_key key) (cache_lockTtlMs cfg) (ce_token ce) w = (l, w1)" by fastforce
  obtain r w2 where lw: "load_write cfg S key ttl (ce_random ce) (load_event i) w1 = (r, w2)" by fastforce
  consider (down) e where "l = Inl e" | (won) token where "l = Inr (Some token)" | (lost) "l = Inr None"
    by (metis not_None_eq sumE)
  then show ?thesis
  proof cases
    case won
    with assms(2) acq lw have "w' = releaseLock S (lock_key key) token w2" by (simp add: singleFlight_def)
    with same_data_trans [OF acquireLock_data [OF acq] load_write_data [OF lw]] show ?thesis by simp
  next
    case lost
    then have "w' = count_wait name w1"
      using assms acq by (auto simp: singleFlight_def Let_def load_event_def split: option.splits dest!: await_alone)
    with acquireLock_data [OF acq] show ?thesis by simp
  qed (use assms(2) acq acquireLock_data [OF acq] in \<open>auto simp: singleFlight_def\<close>)
qed

lemma getOrLoad_data:
  assumes "ce_rounds ce = []" "getOrLoad cfg S key name ttl ce (load_event i) w = Some ((a, w'), refresh)"
  shows "same_data w w'"
proof -
  consider "w' = w \<or> (\<exists>n r. w' = count_cache n r w)"
    | n r where "load_write cfg S key ttl (ce_random ce) (load_event i) (count_cache n r w) = (a, w')"
    | n r where "singleFlight cfg S key name ttl ce (load_event i) (count_cache n r w) = Some (a, w')"
    using assms(2) by (auto simp: getOrLoad_def load_event_def split: if_splits option.splits)
  then show ?thesis
  proof cases
    case 2
    from load_write_data [OF this] show ?thesis by simp
  next
    case 3
    from singleFlight_data [OF assms(1) this] show ?thesis by simp
  qed auto
qed

lemma refresh_data: "same_data w (refreshInBackground cfg S key ttl ce (load_event i) w)"
proof -
  obtain l w1 where acq: "acquireLock S (lock_key key) (cache_lockTtlMs cfg) (ce_token ce) w = (l, w1)" by fastforce
  obtain r w2 where lw: "load_write cfg S key ttl (ce_random ce) (load_event i) w1 = (r, w2)" by fastforce
  note acquired = acquireLock_data [OF acq] and loaded = same_data_trans [OF acquireLock_data [OF acq] load_write_data [OF lw]]
  consider (down) e where "l = Inl e" | (won) token where "l = Inr (Some token)" | (lost) "l = Inr None"
    by (metis not_None_eq sumE)
  then show ?thesis
    by cases (use acq lw acquired loaded in \<open>auto simp: refreshInBackground_def withLock_def split: sum.split\<close>)
qed

lemma get_event_data:
  assumes "ce_rounds ce = []" "get_event_route cfg S P ce ce' i w = Some (a, w')"
  shows "same_data w w'"
proof (cases "uuid_param P i")
  case (Inr j)
  then obtain a1 w1 refresh where f: "findOne cfg S ce j w = Some ((a1, w1), refresh)"
    and w': "w' = (if refresh then refreshInBackground cfg S (eventCacheKey j) None ce' (load_event j) w1 else w1)"
    using assms(2) by (auto simp: get_event_route_def)
  obtain b where "getOrLoad cfg S (eventCacheKey j) ''event'' None ce (load_event j) w = Some ((b, w1), refresh)"
    using f by (auto simp: findOne_def split: option.splits sum.splits prod.splits)
  with getOrLoad_data [OF assms(1)] have "same_data w w1" by blast
  with w' same_data_trans [OF _ refresh_data] show ?thesis by auto
qed (use assms in \<open>simp add: get_event_route_def\<close>)

text \<open>Reading changes nothing.\<close>

lemma get_requests_read_only:
  assumes "is_get r" "alone r" "serve cfg S P r w = Some (a, w')"
  shows "same_data w w'"
  using assms by (cases r) (auto dest: get_event_data)

subsection \<open>The ledger\<close>

definition same_ledger :: "db \<Rightarrow> db \<Rightarrow> bool" where
  "same_ledger d d' \<longleftrightarrow> t_events d' = t_events d \<and> t_bookings d' = t_bookings d"

lemma same_ledger_ok: "same_ledger d d' \<Longrightarrow> ledger_ok d' = ledger_ok d"
  by (simp add: same_ledger_def ledger_ok_def find_event_def)

lemma same_ledger_simps [simp]:
  "same_ledger d d" "same_ledger d (d'\<lparr>t_outbox := a\<rparr>) = same_ledger d d'" "same_ledger d (d'\<lparr>t_idempotency := b\<rparr>) = same_ledger d d'"
  by (simp_all add: same_ledger_def)

lemma drain_ledger: "drainOnce cfg S locked rl w = (a, w') \<Longrightarrow> same_ledger (wd_db w) (wd_db w')"
proof -
  have mark: "same_ledger d (markFailed m msg now rows d') = same_ledger d d'" for d m msg now rows d'
    unfolding markFailed_def by (induction rows arbitrary: d') (simp_all add: markFailed1_def Let_def)
  have published: "same_ledger d (mark_published rows now d') = same_ledger d d'" for d rows now d'
    by (simp add: mark_published_def)
  assume run: "drainOnce cfg S locked rl w = (a, w')"
  show ?thesis
  proof (cases "rl_running rl")
    case False
    obtain sel where sel: "drain_select cfg locked w = sel" by simp
    obtain b w1 where pub: "publishBatch S (map relay_message (case sel of Inl _ \<Rightarrow> [] | Inr rows \<Rightarrow> rows)) w = (b, w1)" by fastforce
    have "wd_db w1 = wd_db w" using publishBatch_frame(1) [of S _ w] pub by (metis snd_conv)
    with run False sel pub mark published show ?thesis
      by (auto simp: drainOnce_def drain_failed_def drain_commit_def refreshPendingGauge_def split: sum.splits if_splits)
  qed (use run in \<open>auto simp: drainOnce_def\<close>)
qed

text \<open>A sale keeps the ledger right: it takes from the counter what it adds to the bookings.\<close>

lemma sell_ledger:
  assumes "sell cfg q env d = (sale, d')" "ledger_ok d"
  shows "ledger_ok d'"
proof (cases sale)
  case (Inl e)
  with assms sell_refused show ?thesis by blast
next
  case (Inr x)
  let ?e = "bq_eventId q" and ?b = "saved_booking env (new_booking q)"
  from Inr assms(1) obtain r where r: "find_event ?e d = Some r" "cb_quantity (bq_dto q) \<le> ev_availableSeats r"
    "records_fit cfg q env (ev_name r) d"
    and d': "t_events d' = t_events (set_event ?e (touched env (sold_row cfg q r)) d)" "t_bookings d' = t_bookings d @ [?b]"
    by (auto simp: sell_def Let_def split: option.splits if_splits)
  obtain r' where r'_def: "r' = touched env (sold_row cfg q r)" by simp
  have r': "ev_id r' = ?e" "ev_availableSeats r' = ev_availableSeats r - cb_quantity (bq_dto q)" "ev_totalSeats r' = ev_totalSeats r"
    using find_event_id [OF r(1)] by (simp_all add: r'_def sold_row_def touched_def)
  have b: "bk_eventId ?b = ?e" "bk_quantity ?b = cb_quantity (bq_dto q)" "bk_status ?b = Confirmed"
    by (simp_all add: saved_booking_def new_booking_def)
  have pos: "0 < bk_quantity ?b" using r(3) by (simp add: records_fit_def booking_fits_def)
  have events: "t_events d' = map (\<lambda>x. if ev_id x = ?e then r' else x) (t_events d)"
    by (simp add: d'(1) r'_def set_event_def upd_where_def)
  have ids: "map ev_id (t_events d') = map ev_id (t_events d)" using r'(1) by (simp add: events)
  have found: "find_event i d' \<noteq> None \<longleftrightarrow> find_event i d \<noteq> None" for i
  proof -
    have "find_event i d' \<noteq> None \<longleftrightarrow> i \<in> set (map ev_id (t_events d'))" "find_event i d \<noteq> None \<longleftrightarrow> i \<in> set (map ev_id (t_events d))"
      by (auto simp: find_event_def find_None_iff image_iff)
    with ids show ?thesis by simp
  qed
  have rows: "0 \<le> ev_availableSeats y \<and> ev_availableSeats y + sold (ev_id y) (t_bookings d') = ev_totalSeats y"
    if "y \<in> set (t_events d')" for y
  proof -
    from that obtain x where x: "x \<in> set (t_events d)" "y = (if ev_id x = ?e then r' else x)" by (auto simp: events)
    show ?thesis
    proof (cases "ev_id x = ?e")
      case True
      with x ledger_okD [OF assms(2) r(1)] r(2) show ?thesis
        by (simp add: d'(2) r' sold_Cons b)
    next
      case False
      with x assms(2) show ?thesis by (auto simp: ledger_ok_def d'(2) sold_Cons b)
    qed
  qed
  have "\<forall>c \<in> set (t_bookings d'). 0 < bk_quantity c \<and> find_event (bk_eventId c) d' \<noteq> None"
    using assms(2) pos r(1) by (auto simp: ledger_ok_def d'(2) found [unfolded not_None_eq] b(1))
  with rows ids assms(2) show ?thesis by (simp add: ledger_ok_def)
qed

lemma create_event_ledger:
  assumes "create_event parseDate dto generated now d = (answer, d')" "1 \<le> cd_totalSeats dto" "ledger_ok d"
  shows "ledger_ok d'"
  using created_event_reads_back [OF assms(1,2)] assms(3) by (cases answer) simp_all

lemma post_booking_ledger:
  assumes "retries_ok cfg" "post_booking cfg S env validate sha256 collate r w = (a, hs, w')" "ledger_ok (wd_db w)"
  shows "ledger_ok (wd_db w')"
proof -
  obtain g hs1 w1 where g: "canActivate cfg S (Some booking_options) (bh_guarded r) w = (g, hs1, w1)" by (metis prod_cases3)
  note db1 = canActivate_frame [OF g]
  have created: "ledger_ok (wd_db y)" if "create_booking cfg S env validate r x = (b, y)" "ledger_ok (wd_db x)" for b x y
  proof (cases "validate (bh_body r)")
    case (Inl e)
    with that show ?thesis by (auto simp: create_booking_def)
  next
    case (Inr dto)
    let ?q = "booking_request r dto (wd_now x)"
    obtain o1 y1 where bk: "book cfg S env False ?q x = (o1, y1)" by fastforce
    obtain sale d' where s: "sell cfg ?q env (wd_db x) = (sale, d')" by fastforce
    have "y = y1" using that(1) Inr bk by (auto simp: create_booking_def split: option.splits sum.splits)
    with book_db(1) [OF assms(1) bk s] sell_ledger [OF s that(2)] show ?thesis by simp
  qed
  have kept: "ledger_ok (wd_db w')" if "intercept_key (bh_key r) (booking_key sha256 collate r) (create_booking cfg S env validate r) w1 = (a, w')"
  proof -
    consider "bh_key r = None \<or> (\<exists>h. bh_key r = Some h \<and> trim h = [])" | h where "bh_key r = Some h" "trim h \<noteq> []"
      by (cases "bh_key r") auto
    then show ?thesis
    proof cases
      case 1
      obtain b y where h: "create_booking cfg S env validate r w1 = (b, y)" by fastforce
      with 1 that have "w' = y" by (auto simp: intercept_key_def Let_def split: sum.splits prod.splits)
      with created [OF h] db1 assms(3) show ?thesis by simp
    next
      case 2
      let ?q = "booking_key sha256 collate r (trim h)"
      obtain c d where c: "claim ?q (wd_now w1) (wd_db w1) = (c, d)" by fastforce
      have "same_ledger (wd_db w) d" using claim_cases [OF c] db1 by auto
      with assms(3) have d: "ledger_ok d" by (simp add: same_ledger_ok)
      obtain b y where h: "create_booking cfg S env validate r (w1\<lparr>wd_db := d\<rparr>) = (b, y)" by fastforce
      have y: "ledger_ok (wd_db y)" using created [OF h] d by simp
      have "wd_db w' = d \<or> same_ledger (wd_db y) (wd_db w')"
        using that 2 c h
        by (auto simp: intercept_key_def Let_def release_key_def complete_key_def split: sum.splits prod.splits claim_outcome.splits)
      with d y same_ledger_ok show ?thesis by blast
    qed
  qed
  show ?thesis
  proof (cases g)
    case (Inl e)
    with assms(2,3) g db1 show ?thesis by (auto simp: post_booking_def)
  next
    case (Inr u)
    with assms(2) g kept show ?thesis by (auto simp: post_booking_def split: prod.splits)
  qed
qed

definition pipes_ok :: "('o, 'x) pipes_scheme \<Rightarrow> bool" where
  "pipes_ok P \<longleftrightarrow> (\<forall>body dto. pp_event P body = Inr dto \<longrightarrow> 1 \<le> cd_totalSeats dto)"

lemma serve_ledger:
  assumes "retries_ok cfg" "pipes_ok P" "alone r" "serve cfg S P r w = Some (a, w')" "ledger_ok (wd_db w)"
  shows "ledger_ok (wd_db w')"
proof (cases "is_get r")
  case True
  with get_requests_read_only assms(3-5) show ?thesis by (fastforce simp: same_data_def)
next
  case False
  then consider body generated where "r = PostEvent body generated" | b env where "r = PostBooking b env"
    | locked rl where "r = PostDrain locked rl" by (cases r) auto
  then show ?thesis
  proof cases
    case 1
    with assms(2,4,5) show ?thesis
      by (auto simp: create_event_route_def pipes_ok_def split: sum.splits prod.splits intro: create_event_ledger)
  next
    case 2
    with assms(4) obtain x hs where "post_booking cfg S env (booking_pipes P (bh_eventId b)) (pp_sha256 P) (pp_collate P) b w = (x, hs, w')"
      by (auto split: prod.splits)
    from post_booking_ledger [OF assms(1) this assms(5)] show ?thesis .
  next
    case 3
    with assms(4) obtain x where "drainOnce cfg S locked rl w = (x, w')" by (auto simp: drain_route_def split: prod.splits)
    from same_ledger_ok [OF drain_ledger [OF this]] assms(5) show ?thesis by simp
  qed
qed

text \<open>
  C14. Overselling is a matter of interleaving alone: requests to any routes that are served one after the
  other, whatever they ask for and however they end, keep the ledger right under every lock strategy, the
  unprotected one included; so the integrity report of any event finds no seat oversold and no drift.
\<close>

theorem serial_requests_never_oversell:
  assumes "retries_ok cfg" and "pipes_ok P" and "\<forall>(t, r) \<in> set reqs. alone r"
    and "serve_all cfg S P reqs w = Some (answers, w')" and "ledger_ok (wd_db w)"
  shows "ledger_ok (wd_db w')
    \<and> (case integrity i (wd_db w') of Inl e \<Rightarrow> e = event_not_found i
        | Inr report \<Rightarrow> si_oversoldBy report = 0 \<and> \<not> si_counterDrift report \<and> 0 \<le> si_availableSeats report)"
proof -
  have ledger: "ledger_ok (wd_db w')"
    using assms(3-5)
  proof (induction reqs arbitrary: w answers)
    case (Cons tr reqs)
    obtain t r where tr: "tr = (t, r)" by fastforce
    with Cons.prems(2) obtain a w1 as where s: "serve cfg S P r (w\<lparr>wd_now := t\<rparr>) = Some (a, w1)"
      "serve_all cfg S P reqs w1 = Some (as, w')" by (auto split: option.splits)
    have "ledger_ok (wd_db w1)"
      using serve_ledger [OF assms(1,2) _ s(1)] Cons.prems(1,3) tr by simp
    with Cons.IH s(2) Cons.prems(1) show ?case by auto
  qed simp
  show ?thesis
  proof (cases "find_event i (wd_db w')")
    case (Some r)
    with ledger ledger_okD [OF ledger Some] show ?thesis by (simp add: integrity_def Let_def)
  qed (use ledger in \<open>simp add: integrity_def\<close>)
qed

subsection \<open>Concrete runs\<close>

definition sample_pipes :: "nat pipes" where
  "sample_pipes = \<lparr>pp_isUUID = (\<lambda>_. True), pp_event = (\<lambda>_. Inr sample_event_dto), pp_list = (\<lambda>_. Inr \<lparr>ld_cursor = None, ld_limit = 20\<rparr>),
     pp_booking = (\<lambda>_. Inr \<lparr>cb_userId = ''ann'', cb_quantity = 1\<rparr>), pp_date = (\<lambda>_. Some 0), pp_sha256 = (\<lambda>s. s), pp_collate = length\<rparr>"

text \<open>An event is created, and the last seat of another one is asked for twice.\<close>

lemma serial_requests_never_oversell_witness:
  "\<exists>answers w'. serve_all (default_config NoLock) mini sample_pipes
      [(0, PostEvent JNull ''e9''), (1, PostBooking click (draws 0)), (2, PostBooking (click\<lparr>bh_key := None\<rparr>) (draws 1)), (3, GetIntegrity ''e1'')]
      (mini_world one_seat_db) = Some (answers, w')
    \<and> length answers = 4 \<and> ledger_ok (wd_db w')"
proof -
  let ?cfg = "default_config NoLock" and ?w = "mini_world one_seat_db"
  let ?reqs = "[(0, PostEvent JNull ''e9''), (1, PostBooking click (draws 0)), (2, PostBooking (click\<lparr>bh_key := None\<rparr>) (draws 1)),
    (3, GetIntegrity ''e1'')] :: (ms \<times> (mini_redis, mini_broker) api_request) list"
  obtain a1 w1 where r1: "serve ?cfg mini sample_pipes (PostEvent JNull ''e9'') (?w\<lparr>wd_now := 0\<rparr>) = Some (a1, w1)"
    by (fastforce split: prod.splits)
  obtain a2 w2 where r2: "serve ?cfg mini sample_pipes (PostBooking click (draws 0)) (w1\<lparr>wd_now := 1\<rparr>) = Some (a2, w2)"
    by (fastforce split: prod.splits)
  obtain a3 w3 where r3: "serve ?cfg mini sample_pipes (PostBooking (click\<lparr>bh_key := None\<rparr>) (draws 1)) (w2\<lparr>wd_now := 2\<rparr>) = Some (a3, w3)"
    by (fastforce split: prod.splits)
  obtain a4 w4 where r4: "serve ?cfg mini sample_pipes (GetIntegrity ''e1'') (w3\<lparr>wd_now := 3\<rparr>) = Some (a4, w4)" by simp
  have all: "serve_all ?cfg mini sample_pipes ?reqs ?w = Some ([a1, a2, a3, a4], w4)"
    by (simp only: serve_all.simps r1 r2 r3 r4 option.case prod.case option.map)
  have "retries_ok ?cfg" by (simp add: retries_ok_def default_config_def)
  moreover have "pipes_ok sample_pipes" by (simp add: pipes_ok_def sample_pipes_def sample_event_dto_def)
  moreover have "\<forall>(t, r) \<in> set ?reqs. alone r" by simp
  moreover have "ledger_ok (wd_db ?w)" using one_seat_ledger by (simp add: mini_world_def)
  ultimately have "ledger_ok (wd_db w4)" using serial_requests_never_oversell [OF _ _ _ all] by blast
  with all show ?thesis by (intro exI [of _ "[a1, a2, a3, a4]"] exI [of _ w4]) simp
qed

end
