(* ===== verification/KeyLedger.thy ===== *)
theory KeyLedger
  imports Api
begin

section \<open>One booking per idempotency key\<close>

text \<open>
  Requests to the whole API, one after another: what an idempotency key stands for between two requests is
  either nothing at all, or one booking together with the row that holds the answer it was confirmed with.
  No request leaves a key in any other state, and each changes the state of at most its own key.
\<close>

definition bookings_under :: "string \<Rightarrow> db \<Rightarrow> booking_row list" where
  "bookings_under k d = filter (\<lambda>b. bk_idempotencyKey b = Some k) (t_bookings d)"

text \<open>The state of a key: \<open>None\<close> while it is free, else its booking and the stored body.\<close>

definition key_state :: "string \<Rightarrow> db \<Rightarrow> (booking_row \<times> jsval) option \<Rightarrow> bool" where
  "key_state k d x \<longleftrightarrow>
     (case x of
        None \<Rightarrow> find_key k d = None \<and> bookings_under k d = []
      | Some (b, body) \<Rightarrow> bookings_under k d = [b]
          \<and> (\<exists>row. find_key k d = Some row \<and> ik_status row = Completed \<and> ik_responseStatus row = Some 201
               \<and> ik_responseBody row = Some body)
          \<and> (\<exists>seats strategy. body = booking_json (booking_response_from b seats strategy)))"

lemma key_state_cong:
  "bookings_under k d' = bookings_under k d \<Longrightarrow> find_key k d' = find_key k d \<Longrightarrow> key_state k d' x = key_state k d x"
  by (cases x) (simp_all add: key_state_def split: prod.split)

lemma bookings_under_cong: "t_bookings d' = t_bookings d \<Longrightarrow> bookings_under k d' = bookings_under k d"
  by (simp add: bookings_under_def)

lemma find_key_release: "k' \<noteq> k \<Longrightarrow> find_key k (release_key k' d) = find_key k d"
proof -
  have "find (\<lambda>r. ik_key r = k) (filter (\<lambda>r. ik_key r \<noteq> k') rows) = find (\<lambda>r. ik_key r = k) rows" if "k' \<noteq> k" for rows
    using that by (induction rows) auto
  then show "k' \<noteq> k \<Longrightarrow> find_key k (release_key k' d) = find_key k d"
    by (simp add: find_key_def release_key_def release_row_def del_where_def)
qed

lemma find_key_complete_other: "k' \<noteq> k \<Longrightarrow> find_key k (complete_key k' st body d) = find_key k d"
  by (cases "find_key k d") (auto simp: find_key_complete dest: find_key_id)

lemma key_rows_bookings [simp]:
  "t_bookings (release_key k d) = t_bookings d" "t_bookings (complete_key k st body d) = t_bookings d"
  by (simp_all add: release_key_def complete_key_def)

subsection \<open>The handler of a booking\<close>

lemma create_booking_sale:
  assumes "retries_ok cfg" "create_booking cfg S env validate r w = (answer, w')"
  shows "(case answer of
      Inl e \<Rightarrow> t_bookings (wd_db w') = t_bookings (wd_db w)
    | Inr (st, body) \<Rightarrow> st = 201 \<and> (\<exists>b seats strategy. t_bookings (wd_db w') = t_bookings (wd_db w) @ [b]
        \<and> bk_idempotencyKey b = map_option trim (bh_key r)
        \<and> (\<exists>dto. validate (bh_body r) = Inr dto \<and> is_booking_of (booking_request r dto (wd_now w)) b)
        \<and> body = booking_json (booking_response_from b seats strategy)))"
proof (cases "validate (bh_body r)")
  case (Inl e)
  with assms(2) show ?thesis by (auto simp: create_booking_def)
next
  case (Inr dto)
  let ?q = "booking_request r dto (wd_now w)"
  obtain a w1 where b: "book cfg S env False ?q w = (a, w1)" by fastforce
  obtain sale d' where s: "sell cfg ?q env (wd_db w) = (sale, d')" by fastforce
  note db = book_db [OF assms(1) b s]
  show ?thesis
  proof (cases sale)
    case (Inl e)
    with assms(2) Inr b db(2) [OF Inl] show ?thesis by (auto simp: create_booking_def)
  next
    case (Inr x)
    note sold = sell_confirmed [OF s [unfolded Inr]]
    have "bk_idempotencyKey (bd_booking x) = map_option trim (bh_key r)" "is_booking_of ?q (bd_booking x)"
      by (simp_all add: sold(1) saved_booking_def new_booking_def booking_request_def is_booking_of_def)
    moreover have "answer = Inr (201, booking_json (response_of cfg x))" "w' = w1"
      using assms(2) \<open>validate (bh_body r) = Inr dto\<close> b db(3) [OF Inr] by (simp_all add: create_booking_def)
    ultimately show ?thesis using sold(3) db(1) \<open>validate (bh_body r) = Inr dto\<close> by (auto simp: response_of_def)
  qed
qed

subsection \<open>The endpoint\<close>

definition key_of :: "booking_http \<Rightarrow> string option" where
  "key_of r = (case bh_key r of None \<Rightarrow> None | Some h \<Rightarrow> nonempty (trim h))"

text \<open>A request adds at most its booking.\<close>

lemma post_booking_adds:
  assumes "retries_ok cfg" "post_booking cfg S env validate sha collate r w = (answer, hs, w')"
  shows "t_bookings (wd_db w') = t_bookings (wd_db w) \<or> (\<exists>b dto now. t_bookings (wd_db w') = t_bookings (wd_db w) @ [b]
    \<and> validate (bh_body r) = Inr dto \<and> is_booking_of (booking_request r dto now) b)"
proof -
  obtain g hs1 w1 where g: "canActivate cfg S (Some booking_options) (bh_guarded r) w = (g, hs1, w1)" by (metis prod_cases3)
  note same = canActivate_frame [OF g]
  have made: "t_bookings (wd_db v') = t_bookings (wd_db v) \<or> (\<exists>b dto now. t_bookings (wd_db v') = t_bookings (wd_db v) @ [b]
      \<and> validate (bh_body r) = Inr dto \<and> is_booking_of (booking_request r dto now) b)"
    if "create_booking cfg S env validate r v = (a, v')" for a v v'
    using create_booking_sale [OF assms(1) that] by (cases a) auto
  show ?thesis
  proof (cases g)
    case (Inl e)
    with g same assms(2) show ?thesis by (auto simp: post_booking_def)
  next
    case (Inr u)
    with g assms(2) have i: "intercept_key (bh_key r) (booking_key sha collate r) (create_booking cfg S env validate r) w1 = (answer, w')"
      by (auto simp: post_booking_def split: prod.splits)
    consider (plain) "bh_key r = None \<or> (\<exists>h. bh_key r = Some h \<and> trim h = [])" | (keyed) h where "bh_key r = Some h" "trim h \<noteq> []"
      by (cases "bh_key r") auto
    then show ?thesis
    proof cases
      case plain
      obtain a v where h: "create_booking cfg S env validate r w1 = (a, v)" by fastforce
      with plain i have "w' = v" by (auto simp: intercept_key_def Let_def split: sum.splits prod.splits)
      with made [OF h] same show ?thesis by simp
    next
      case keyed
      let ?q = "booking_key sha collate r (trim h)"
      obtain c d where c: "claim ?q (wd_now w1) (wd_db w1) = (c, d)" by fastforce
      have d: "t_bookings d = t_bookings (wd_db w1)" using claim_cases [OF c] by auto
      obtain a v where h: "create_booking cfg S env validate r (w1\<lparr>wd_db := d\<rparr>) = (a, v)" by fastforce
      have "t_bookings (wd_db w') = t_bookings d \<or> t_bookings (wd_db w') = t_bookings (wd_db v)"
        using i keyed c h by (auto simp: intercept_key_def Let_def split: sum.splits prod.splits claim_outcome.splits)
      with made [OF h] d same show ?thesis by auto
    qed
  qed
qed

text \<open>A request under another key, or under none.\<close>

lemma other_key_state:
  assumes "retries_ok cfg" "k \<noteq> []" "key_of r \<noteq> Some k" "key_state k (wd_db w) x"
    and "intercept_key (bh_key r) (booking_key sha collate r) (create_booking cfg S env validate r) w = (answer, w')"
  shows "key_state k (wd_db w') x"
proof -
  have made: "bookings_under k (wd_db v') = bookings_under k (wd_db v) \<and> t_idempotency (wd_db v') = t_idempotency (wd_db v)"
    if "create_booking cfg S env validate r v = (a, v')" "map_option trim (bh_key r) \<noteq> Some k" for a v v'
    using create_booking_sale [OF assms(1) that(1)] create_booking_props(1) [OF assms(1) that(1)] that(2)
    by (auto simp: bookings_under_def split: sum.splits)
  consider (plain) "bh_key r = None \<or> (\<exists>h. bh_key r = Some h \<and> trim h = [])"
    | (keyed) h where "bh_key r = Some h" "trim h \<noteq> []" "trim h \<noteq> k"
    using assms(3) by (cases "bh_key r") (auto simp: key_of_def nonempty_def split: if_splits)
  then show ?thesis
  proof cases
    case plain
    obtain a v where h: "create_booking cfg S env validate r w = (a, v)" by fastforce
    with plain assms(5) have "w' = v" by (auto simp: intercept_key_def Let_def split: sum.splits prod.splits)
    moreover have "map_option trim (bh_key r) \<noteq> Some k" using plain assms(2) by auto
    ultimately show ?thesis using key_state_cong [of k "wd_db v" "wd_db w" x] assms(4) made [OF h] by (simp add: find_key_def)
  next
    case keyed
    let ?q = "booking_key sha collate r (trim h)"
    have q: "iq_key ?q = trim h" by (simp add: booking_key_def Let_def)
    obtain c d where c: "claim ?q (wd_now w) (wd_db w) = (c, d)" by fastforce
    have d: "t_bookings d = t_bookings (wd_db w)" "find_key k d = find_key k (wd_db w)"
      using claim_cases [OF c] keyed(3) q by (auto simp: find_key_insert claim_row_def split: option.split)
    obtain a v where h: "create_booking cfg S env validate r (w\<lparr>wd_db := d\<rparr>) = (a, v)" by fastforce
    have "map_option trim (bh_key r) \<noteq> Some k" using keyed by simp
    note v = made [OF h this]
    have v: "bookings_under k (wd_db v) = bookings_under k d" "find_key k (wd_db v) = find_key k d"
      using made [OF h] keyed by (simp_all add: find_key_def)
    have "wd_db w' = d \<or> wd_db w' = release_key (trim h) (wd_db v) \<or> (\<exists>st body. wd_db w' = complete_key (trim h) st body (wd_db v))"
      using assms(5) keyed c h q
      by (auto simp: intercept_key_def Let_def split: sum.splits prod.splits claim_outcome.splits) blast
    then have "bookings_under k (wd_db w') = bookings_under k (wd_db w) \<and> find_key k (wd_db w') = find_key k (wd_db w)"
      using v d keyed(3) bookings_under_cong [OF d(1)]
      by (auto simp: find_key_release find_key_complete_other bookings_under_def)
    with assms(4) key_state_cong [of k "wd_db w'" "wd_db w" x] show ?thesis by simp
  qed
qed

text \<open>A request under the key itself.\<close>

lemma own_key_state:
  assumes "retries_ok cfg" "bh_key r = Some h" "trim h \<noteq> []" "key_state (trim h) (wd_db w) x"
    and "intercept_key (bh_key r) (booking_key sha collate r) (create_booking cfg S env validate r) w = (answer, w')"
  shows "\<exists>x'. key_state (trim h) (wd_db w') x' \<and> (x \<noteq> None \<longrightarrow> x' = x)
    \<and> (case answer of Inl e \<Rightarrow> x' = x
        | Inr resp \<Rightarrow> \<exists>b body. x' = Some (b, body) \<and> hs_status resp = 201 \<and> hs_body resp = Some body)"
proof (cases x)
  case None
  let ?q = "booking_key sha collate r (trim h)"
  have q: "iq_key ?q = trim h" by (simp add: booking_key_def Let_def)
  from None assms(4) have free: "find_key (trim h) (wd_db w) = None" "bookings_under (trim h) (wd_db w) = []"
    by (simp_all add: key_state_def)
  obtain c d where c: "claim ?q (wd_now w) (wd_db w) = (c, d)" by fastforce
  show ?thesis
  proof (cases "c = Inr Proceed")
    case False
    then have "c = Inl QueryFailedError \<and> d = wd_db w"
      using c free(1) q
      by (cases "idem_fits (claim_row ?q (wd_now w))") (simp_all add: claim_def claim_insert_eq, simp add: claim_insert_def)
    with c assms(2-5) None show ?thesis by (auto simp: intercept_key_def Let_def)
  next
    case True
    with claim_cases [OF c] have d: "t_bookings d = t_bookings (wd_db w)" by auto
    obtain a v where a: "create_booking cfg S env validate r (w\<lparr>wd_db := d\<rparr>) = (a, v)" by fastforce
    note sale = create_booking_sale [OF assms(1) a]
    show ?thesis
    proof (cases a)
      case (Inl e)
      with True c a assms(2,3,5) q have "answer = Inl e" "wd_db w' = release_key (trim h) (wd_db v)"
        by (auto simp: intercept_key_def Let_def)
      moreover have "find_key (trim h) (release_key (trim h) (wd_db v)) = None"
        by (auto simp: find_key_None release_key_def release_row_def)
      ultimately show ?thesis using sale Inl d free(2) None by (auto simp: key_state_def bookings_under_def)
    next
      case (Inr p)
      then obtain body where p: "a = Inr (201, body)" using sale by (cases p) auto
      with sale obtain b seats strategy where b: "t_bookings (wd_db v) = t_bookings d @ [b]"
        "bk_idempotencyKey b = Some (trim h)" "body = booking_json (booking_response_from b seats strategy)"
        using assms(2) by auto
      have w': "answer = Inr \<lparr>hs_status = 201, hs_headers = [], hs_body = Some body\<rparr>"
        "wd_db w' = complete_key (trim h) 201 body (wd_db v)"
        using True c a p assms(2,3,5) q by (auto simp: intercept_key_def Let_def)
      from intercept_proceeds [OF assms(1-3) free(1) assms(5) [unfolded w'(1)]] b w' free(2) d
      have "key_state (trim h) (wd_db w') (Some (b, body))" by (auto simp: key_state_def bookings_under_def)
      with w'(1) None show ?thesis by auto
    qed
  qed
next
  case (Some y)
  obtain b body where y: "y = (b, body)" by fastforce
  with Some assms(4) obtain row where row: "find_key (trim h) (wd_db w) = Some row" "ik_status row = Completed"
    "ik_responseStatus row = Some 201" "ik_responseBody row = Some body" by (auto simp: key_state_def)
  let ?q = "booking_key sha collate r (trim h)"
  have q: "iq_key ?q = trim h" by (simp add: booking_key_def Let_def)
  have "claim ?q (wd_now w) (wd_db w) \<in> {(Inl QueryFailedError, wd_db w), (Inl key_reused, wd_db w),
      (Inr (Replay 201 (Some body)), wd_db w)}"
    by (cases "idem_fits (claim_row ?q (wd_now w))")
       (auto simp: claim_def claim_insert_eq claim_read_def q row, simp add: claim_insert_def)
  then have "w' = w \<and> ((\<exists>e. answer = Inl e)
      \<or> (\<exists>hs. answer = Inr \<lparr>hs_status = 201, hs_headers = hs, hs_body = Some body\<rparr>))"
    using assms(2,3,5) by (auto simp: intercept_key_def Let_def)
  with assms(4) Some y show ?thesis by auto
qed

lemma post_booking_key_state:
  assumes "retries_ok cfg" "k \<noteq> []" "key_state k (wd_db w) x"
    and "post_booking cfg S env validate sha collate r w = (answer, hs, w')"
  shows "\<exists>x'. key_state k (wd_db w') x' \<and> (x \<noteq> None \<longrightarrow> x' = x)
    \<and> (key_of r = Some k \<longrightarrow> (case answer of Inl e \<Rightarrow> x' = x
        | Inr resp \<Rightarrow> \<exists>b body. x' = Some (b, body) \<and> hs_status resp = 201 \<and> hs_body resp = Some body))
    \<and> (key_of r \<noteq> Some k \<longrightarrow> x' = x)"
proof -
  obtain g hs1 w1 where g: "canActivate cfg S (Some booking_options) (bh_guarded r) w = (g, hs1, w1)" by (metis prod_cases3)
  have w1: "key_state k (wd_db w1) x" using canActivate_frame [OF g] assms(3) by simp
  show ?thesis
  proof (cases g)
    case (Inl e)
    with g w1 assms(4) show ?thesis by (auto simp: post_booking_def)
  next
    case (Inr u)
    with g assms(4) have i: "intercept_key (bh_key r) (booking_key sha collate r) (create_booking cfg S env validate r) w1 = (answer, w')"
      by (auto simp: post_booking_def split: prod.splits)
    show ?thesis
    proof (cases "key_of r = Some k")
      case True
      then obtain h where h: "bh_key r = Some h" "trim h = k"
        by (auto simp: key_of_def nonempty_def split: option.splits if_splits)
      from own_key_state [OF assms(1) h(1) _ _ i] h(2) w1 assms(2) True show ?thesis by auto
    next
      case False
      from other_key_state [OF assms(1,2) False w1 i] False show ?thesis by auto
    qed
  qed
qed

subsection \<open>Any run of requests\<close>

lemma drain_tables:
  "drainOnce cfg S locked rl w = (a, w') \<Longrightarrow> t_bookings (wd_db w') = t_bookings (wd_db w) \<and> t_idempotency (wd_db w') = t_idempotency (wd_db w)"
proof -
  have mark: "t_bookings (markFailed m msg now rows d) = t_bookings d \<and> t_idempotency (markFailed m msg now rows d) = t_idempotency d"
    for m msg now rows d
    unfolding markFailed_def by (induction rows arbitrary: d) (simp_all add: markFailed1_def Let_def)
  assume run: "drainOnce cfg S locked rl w = (a, w')"
  show ?thesis
  proof (cases "rl_running rl")
    case False
    obtain sel where sel: "drain_select cfg locked w = sel" by simp
    obtain b w1 where pub: "publishBatch S (map relay_message (case sel of Inl _ \<Rightarrow> [] | Inr rows \<Rightarrow> rows)) w = (b, w1)" by fastforce
    have "wd_db w1 = wd_db w" using publishBatch_frame(1) [of S _ w] pub by (metis snd_conv)
    with run False sel pub mark show ?thesis
      by (auto simp: drainOnce_def drain_failed_def drain_commit_def refreshPendingGauge_def mark_published_def split: sum.splits if_splits)
  qed (use run in \<open>auto simp: drainOnce_def\<close>)
qed

definition reply_under :: "string \<Rightarrow> ('s, 'k) api_request \<Rightarrow> err + api_reply \<Rightarrow> http_response option" where
  "reply_under k r a =
     (case r of
        PostBooking b env \<Rightarrow>
          (case a of Inr (BookingReply resp) \<Rightarrow> if key_of b = Some k then Some resp else None | _ \<Rightarrow> None)
      | _ \<Rightarrow> None)"

text \<open>What the client that uses the key was answered, errors left out.\<close>

fun replies_under :: "string \<Rightarrow> (ms \<times> ('s, 'k) api_request) list \<Rightarrow> (err + api_reply) list \<Rightarrow> http_response list" where
  "replies_under k ((t, r) # reqs) (a # answers) =
     (case reply_under k r a of None \<Rightarrow> [] | Some resp \<Rightarrow> [resp]) @ replies_under k reqs answers"
| "replies_under k _ _ = []"

lemma serve_key_state:
  assumes "retries_ok cfg" "k \<noteq> []" "alone r" "serve cfg S P r w = Some (a, w')" "key_state k (wd_db w) x"
  shows "\<exists>x'. key_state k (wd_db w') x' \<and> (x \<noteq> None \<longrightarrow> x' = x)
    \<and> (case reply_under k r a of None \<Rightarrow> x' = x
        | Some resp \<Rightarrow> \<exists>b body. x' = Some (b, body) \<and> hs_status resp = 201 \<and> hs_body resp = Some body)"
proof (cases "\<exists>b env. r = PostBooking b env")
  case True
  then obtain b env where r: "r = PostBooking b env" by blast
  with assms(4) obtain answer hs where post: "post_booking cfg S env (booking_pipes P (bh_eventId b)) (pp_sha256 P) (pp_collate P) b w
      = (answer, hs, w')" and a: "a = map_sum id BookingReply answer" by (auto split: prod.splits)
  from post_booking_key_state [OF assms(1,2,5) post] show ?thesis
    by (cases answer) (auto simp: r a reply_under_def split: if_splits)
next
  case False
  have "t_bookings (wd_db w') = t_bookings (wd_db w) \<and> t_idempotency (wd_db w') = t_idempotency (wd_db w)"
  proof (cases "is_get r")
    case True
    with get_requests_read_only assms(3,4) show ?thesis by (fastforce simp: same_data_def)
  next
    case get: False
    with False consider body generated where "r = PostEvent body generated" | locked rl where "r = PostDrain locked rl"
      by (cases r) auto
    then show ?thesis
    proof cases
      case 1
      with assms(4) show ?thesis
        by (auto simp: create_event_route_def create_event_def Let_def split: sum.splits prod.splits if_splits option.splits)
    next
      case 2
      with assms(4) obtain y where "drainOnce cfg S locked rl w = (y, w')" by (auto simp: drain_route_def split: prod.splits)
      from drain_tables [OF this] show ?thesis .
    qed
  qed
  then have "key_state k (wd_db w') x"
    using key_state_cong [of k "wd_db w'" "wd_db w" x] assms(5) by (simp add: bookings_under_def find_key_def)
  moreover have "reply_under k r a = None" using False by (auto simp: reply_under_def split: api_request.split)
  ultimately show ?thesis by auto
qed

lemma serve_all_key_state:
  assumes "retries_ok cfg" "k \<noteq> []" "\<forall>(t, r) \<in> set reqs. alone r" "serve_all cfg S P reqs w = Some (answers, w')"
    and "key_state k (wd_db w) x"
  shows "\<exists>x'. key_state k (wd_db w') x' \<and> (x \<noteq> None \<longrightarrow> x' = x) \<and> (replies_under k reqs answers = [] \<longrightarrow> x' = x)
    \<and> (\<forall>resp \<in> set (replies_under k reqs answers).
        \<exists>b body. x' = Some (b, body) \<and> hs_status resp = 201 \<and> hs_body resp = Some body)"
  using assms(3-5)
proof (induction reqs arbitrary: w answers x)
  case (Cons tr reqs)
  obtain t r where tr: "tr = (t, r)" by fastforce
  with Cons.prems(2) obtain a w1 as where s: "serve cfg S P r (w\<lparr>wd_now := t\<rparr>) = Some (a, w1)"
    "serve_all cfg S P reqs w1 = Some (as, w')" "answers = a # as" by (auto split: option.splits)
  have "key_state k (wd_db (w\<lparr>wd_now := t\<rparr>)) x" "alone r" using Cons.prems(1,3) tr by simp_all
  from serve_key_state [OF assms(1,2) this(2) s(1) this(1)] obtain y where y: "key_state k (wd_db w1) y" "x \<noteq> None \<longrightarrow> y = x"
    "case reply_under k r a of None \<Rightarrow> y = x
     | Some resp \<Rightarrow> \<exists>b body. y = Some (b, body) \<and> hs_status resp = 201 \<and> hs_body resp = Some body" by blast
  have "\<forall>(t, r) \<in> set reqs. alone r" using Cons.prems(1) by simp
  from Cons.IH [OF this s(2) y(1)] obtain z where z: "key_state k (wd_db w') z" "y \<noteq> None \<longrightarrow> z = y"
    "replies_under k reqs as = [] \<longrightarrow> z = y"
    "\<forall>resp \<in> set (replies_under k reqs as). \<exists>b body. z = Some (b, body) \<and> hs_status resp = 201 \<and> hs_body resp = Some body"
    by (elim exE conjE) (rule that)
  show ?case
  proof (cases "reply_under k r a")
    case None
    with y(3) have "y = x" by simp
    with None z show ?thesis by (intro exI [of _ z]) (simp add: tr s(3))
  next
    case (Some resp)
    with y(3) obtain b body where b: "y = Some (b, body)" "hs_status resp = 201" "hs_body resp = Some body" by auto
    with z(2) have "z = y" by simp
    with Some b y(2) z show ?thesis by (intro exI [of _ z]) (simp add: tr s(3))
  qed
qed auto

lemma answered_key_booked:
  assumes "retries_ok cfg" "k \<noteq> []" "\<forall>(t, r) \<in> set reqs. alone r" "serve_all cfg S P reqs w = Some (answers, w')"
    and "find_key k (wd_db w) = None" "bookings_under k (wd_db w) = []" "replies_under k reqs answers \<noteq> []"
  shows "\<exists>b. bookings_under k (wd_db w') = [b]"
proof -
  have "key_state k (wd_db w) None" using assms(5,6) by (simp add: key_state_def)
  from serve_all_key_state [OF assms(1-4) this] obtain x where "key_state k (wd_db w') x"
    "\<forall>resp \<in> set (replies_under k reqs answers). x \<noteq> None" by fastforce
  with assms(7) show ?thesis by (cases x) (auto simp: key_state_def neq_Nil_conv)
qed


text \<open>Ann clicks, and her client sends the request again.\<close>

definition ann_pipes :: "nat pipes" where
  "ann_pipes = sample_pipes\<lparr>pp_booking := (\<lambda>_. Inr click_dto), pp_sha256 := same_print\<rparr>"

definition ann_twice :: "(ms \<times> (mini_redis, mini_broker) api_request) list" where
  "ann_twice = [(0, PostBooking click (draws 0)), (7, PostBooking click (draws 1))]"


end
