(* ===== verification/LoadTests.thy ===== *)
theory LoadTests
  imports KeyLedger
begin

section \<open>The load tests\<close>

text \<open>
  The clients of \<open>src/load-tests/\<close>: the calls of \<open>lib/api.js\<close>, and of every test its load, the call of one
  iteration, the checks on its answer and the verdict of its teardown. \<open>__ENV\<close> is a map of strings and \<open>Number\<close>
  on its values an argument; the load generator itself is not modelled. The second half runs the test of the
  idempotency keys against the model of the API, one request after another.
\<close>

type_synonym k6_env = "string \<Rightarrow> string option"

definition env_text :: "k6_env \<Rightarrow> string \<Rightarrow> string \<Rightarrow> string" where
  "env_text env name fallback = orElse (Option.bind (env name) nonempty) fallback"

definition env_number :: "(string \<Rightarrow> jsnum) \<Rightarrow> k6_env \<Rightarrow> string \<Rightarrow> int \<Rightarrow> jsnum" where
  "env_number number env name fallback =
     (case Option.bind (env name) nonempty of Some s \<Rightarrow> number s | None \<Rightarrow> Fin fallback)"

subsection \<open>\<open>lib/api.js\<close>\<close>

record http_call =
  hc_method :: string
  hc_url :: string
  hc_body :: "string option"
  hc_headers :: "(string \<times> string) list"
  hc_tag :: "string option"

record http_reply =
  hy_status :: int
  hy_headers :: "(string \<times> string) list"
  hy_json :: jsval

definition BASE_URL :: "k6_env \<Rightarrow> string" where
  "BASE_URL env = env_text env ''BASE_URL'' ''http://localhost:8080''"

definition JSON_HEADERS :: "(string \<times> string) list" where
  "JSON_HEADERS = [(''Content-Type'', ''application/json'')]"

definition event_body :: "int \<Rightarrow> string option \<Rightarrow> ms \<Rightarrow> jsval" where
  "event_body totalSeats name now = JObj
     [(''name'', JStr (orElse (Option.bind name nonempty) (''load-test '' @ toISOString now))),
      (''venue'', JStr ''k6 arena''), (''totalSeats'', JNum (of_int totalSeats)), (''priceCents'', JNum 25000),
      (''startsAt'', JStr (toISOString (now + 7 * 24 * 3600 * 1000)))]"

definition createEvent :: "k6_env \<Rightarrow> int \<Rightarrow> string option \<Rightarrow> ms \<Rightarrow> http_call" where
  "createEvent env totalSeats name now =
     \<lparr>hc_method = ''POST'', hc_url = BASE_URL env @ ''/v1/events'',
      hc_body = Some (JSON_stringify (event_body totalSeats name now)), hc_headers = JSON_HEADERS, hc_tag = None\<rparr>"

definition event_created :: "http_reply \<Rightarrow> bool" where
  "event_created r \<longleftrightarrow> hy_status r = 201 \<or> hy_status r = 200"

record book_options =
  ko_idempotencyKey :: "string option"
  ko_quantity :: "int option"

definition no_options :: book_options where
  "no_options = \<lparr>ko_idempotencyKey = None, ko_quantity = None\<rparr>"

definition booking_body :: "string \<Rightarrow> book_options \<Rightarrow> jsval" where
  "booking_body userId opts = JObj
     [(''userId'', JStr userId),
      (''quantity'', JNum (of_int (case ko_quantity opts of Some q \<Rightarrow> if q = 0 then 1 else q | None \<Rightarrow> 1)))]"

definition bookSeat :: "k6_env \<Rightarrow> string \<Rightarrow> string \<Rightarrow> book_options \<Rightarrow> http_call" where
  "bookSeat env eventId userId opts =
     \<lparr>hc_method = ''POST'', hc_url = BASE_URL env @ ''/v1/events/'' @ eventId @ ''/bookings'',
      hc_body = Some (JSON_stringify (booking_body userId opts)),
      hc_headers = JSON_HEADERS @ (case Option.bind (ko_idempotencyKey opts) nonempty of
        Some k \<Rightarrow> [(''Idempotency-Key'', k)] | None \<Rightarrow> []),
      hc_tag = Some ''POST /v1/events/:id/bookings''\<rparr>"

definition get_call :: "string \<Rightarrow> string option \<Rightarrow> http_call" where
  "get_call url tag = \<lparr>hc_method = ''GET'', hc_url = url, hc_body = None, hc_headers = [], hc_tag = tag\<rparr>"

definition integrity_call :: "k6_env \<Rightarrow> string \<Rightarrow> http_call" where
  "integrity_call env eventId = get_call (BASE_URL env @ ''/v1/events/'' @ eventId @ ''/integrity'') None"

definition event_url :: "k6_env \<Rightarrow> string \<Rightarrow> string" where
  "event_url env eventId = BASE_URL env @ ''/v1/events/'' @ eventId"

subsection \<open>The load of a test\<close>

datatype executor =
    PerVuIterations (pv_vus: int) (pv_iterations: int) (pv_maxDuration: string)
  | ConstantArrivalRate (ca_rate: jsnum) (ca_timeUnit: string) (ca_duration: string) (ca_preAllocatedVUs: int) (ca_maxVUs: int)

record load_options =
  lo_scenario :: string
  lo_executor :: executor
  lo_thresholds :: "(string \<times> string list) list"

definition arrivals :: "(string \<Rightarrow> jsnum) \<Rightarrow> k6_env \<Rightarrow> int \<Rightarrow> string \<Rightarrow> int \<Rightarrow> int \<Rightarrow> executor" where
  "arrivals number env rps duration vus maxVUs =
     ConstantArrivalRate (env_number number env ''RPS'' rps) ''1s'' (env_text env ''DURATION'' duration) vus maxVUs"

definition baseline_options :: "(string \<Rightarrow> jsnum) \<Rightarrow> k6_env \<Rightarrow> load_options" where
  "baseline_options number env = \<lparr>lo_scenario = ''steady'', lo_executor = arrivals number env 300 ''60s'' 100 500,
     lo_thresholds = [(''http_req_duration'', [''p(95)<200'', ''p(99)<500'']), (''http_req_failed'', [''rate<0.01''])]\<rparr>"

definition oversell_options :: load_options where
  "oversell_options = \<lparr>lo_scenario = ''stampede'', lo_executor = PerVuIterations 200 1 ''60s'',
     lo_thresholds = [(''checks'', [''rate>0.99''])]\<rparr>"

definition idempotency_options :: load_options where
  "idempotency_options = \<lparr>lo_scenario = ''retries'', lo_executor = PerVuIterations 50 1 ''60s'', lo_thresholds = []\<rparr>"

definition cache_read_options :: "(string \<Rightarrow> jsnum) \<Rightarrow> k6_env \<Rightarrow> load_options" where
  "cache_read_options number env = \<lparr>lo_scenario = ''hammer'', lo_executor = arrivals number env 1000 ''60s'' 200 1000,
     lo_thresholds = [(''http_req_failed'', [''rate<0.05''])]\<rparr>"

definition stampede_options :: "(string \<Rightarrow> jsnum) \<Rightarrow> k6_env \<Rightarrow> load_options" where
  "stampede_options number env = \<lparr>lo_scenario = ''hot_key'', lo_executor = arrivals number env 800 ''90s'' 300 1000,
     lo_thresholds = []\<rparr>"

definition flood_options :: "(string \<Rightarrow> jsnum) \<Rightarrow> k6_env \<Rightarrow> load_options" where
  "flood_options number env = \<lparr>lo_scenario = ''flood'', lo_executor = arrivals number env 200 ''60s'' 100 500,
     lo_thresholds = [(''http_req_failed'', [''rate<0.5''])]\<rparr>"

definition rate_limit_test_options :: load_options where
  "rate_limit_test_options = \<lparr>lo_scenario = ''burst'', lo_executor = PerVuIterations 100 1 ''30s'', lo_thresholds = []\<rparr>"

definition scaling_options :: "(string \<Rightarrow> jsnum) \<Rightarrow> k6_env \<Rightarrow> load_options" where
  "scaling_options number env = \<lparr>lo_scenario = ''steady'', lo_executor = arrivals number env 200 ''120s'' 100 400,
     lo_thresholds = [(''http_req_failed'', [''rate<0.001''])]\<rparr>"

text \<open>\<open>setup\<close> creates the event of the test; \<open>Date.now()\<close> is in its name.\<close>

definition setup_call :: "k6_env \<Rightarrow> int \<Rightarrow> string \<Rightarrow> ms \<Rightarrow> http_call" where
  "setup_call env seats prefix now = createEvent env seats (Some (prefix @ ''-'' @ int_str now)) now"

subsection \<open>Iterations, checks and verdicts\<close>

text \<open>Reads: the baseline, the stampede and the scaling test, which differ in the tag, and the cached read.\<close>

definition read_iteration :: "k6_env \<Rightarrow> string \<Rightarrow> string \<Rightarrow> http_call" where
  "read_iteration env eventId tag = get_call (event_url env eventId) (Some tag)"

definition baseline_iteration :: "k6_env \<Rightarrow> string \<Rightarrow> http_call" where
  "baseline_iteration env eventId = read_iteration env eventId ''GET /v1/events/:id''"

definition stampede_iteration :: "k6_env \<Rightarrow> string \<Rightarrow> http_call" where
  "stampede_iteration env eventId = read_iteration env eventId ''GET /v1/events/:id hot''"

definition scaling_iteration :: "k6_env \<Rightarrow> string \<Rightarrow> http_call" where
  "scaling_iteration env eventId = read_iteration env eventId ''GET /v1/events/:id''"

definition cache_read_iteration :: "k6_env \<Rightarrow> string \<Rightarrow> http_call" where
  "cache_read_iteration env eventId =
     (let MODE = env_text env ''MODE'' ''cached'' in
      get_call (event_url env eventId @ (if MODE = ''uncached'' then ''/uncached'' else []))
        (Some (''GET /v1/events/:id '' @ MODE)))"

definition read_ok :: "http_reply \<Rightarrow> bool" where
  "read_ok r \<longleftrightarrow> hy_status r = 200"

text \<open>01: two hundred buyers at once.\<close>

definition vu_name :: "nat \<Rightarrow> string" where
  "vu_name vu = ''vu-'' @ nat_str vu"

definition oversell_iteration :: "k6_env \<Rightarrow> string \<Rightarrow> nat \<Rightarrow> http_call" where
  "oversell_iteration env eventId vu = bookSeat env eventId (vu_name vu) no_options"

definition answered_with_a_decision :: "http_reply \<Rightarrow> bool" where
  "answered_with_a_decision r \<longleftrightarrow> hy_status r = 201 \<or> hy_status r = 409 \<or> hy_status r = 429"

text \<open>\<open>!x\<close> of a JSON value.\<close>

definition js_not :: "jsval \<Rightarrow> bool" where
  "js_not v \<longleftrightarrow> v \<in> {JUndef, JNull, JBool False, JNum 0, JStr []}"

definition oversell_passes :: "jsval \<Rightarrow> bool" where
  "oversell_passes report \<longleftrightarrow> js_get ''oversoldBy'' report = JNum 0 \<and> js_not (js_get ''counterDrift'' report)"

text \<open>02: every buyer sends the same booking five times under one key.\<close>

definition VUS :: nat where "VUS = 50"

definition RETRIES :: nat where "RETRIES = 5"

definition vu_key :: "nat \<Rightarrow> string \<Rightarrow> string" where
  "vu_key vu eventId = vu_name vu @ ''-'' @ eventId"

definition idempotency_calls :: "k6_env \<Rightarrow> string \<Rightarrow> nat \<Rightarrow> http_call list" where
  "idempotency_calls env eventId vu =
     replicate RETRIES (bookSeat env eventId (vu_name vu) (no_options\<lparr>ko_idempotencyKey := Some (vu_key vu eventId)\<rparr>))"

definition booking_ids :: "http_reply list \<Rightarrow> jsval list" where
  "booking_ids rs = map (\<lambda>r. js_get ''id'' (hy_json r)) (filter (\<lambda>r. hy_status r = 201) rs)"

definition all_replays_same :: "jsval list \<Rightarrow> bool" where
  "all_replays_same xs \<longleftrightarrow> xs = [] \<or> (\<forall>x \<in> set xs. x = hd xs)"

definition idempotency_passes :: "jsval \<Rightarrow> bool" where
  "idempotency_passes report \<longleftrightarrow> js_get ''confirmedSeats'' report = JNum (of_nat VUS)"

text \<open>06: bookings faster than they can be notified. 07: one user, one bucket.\<close>

definition flood_iteration :: "k6_env \<Rightarrow> string \<Rightarrow> nat \<Rightarrow> http_call" where
  "flood_iteration env eventId vu = bookSeat env eventId (''flood-'' @ nat_str vu) no_options"

definition booked_or_shed :: "http_reply \<Rightarrow> bool" where
  "booked_or_shed r \<longleftrightarrow> hy_status r = 201 \<or> hy_status r = 429"

definition flood_teardown :: "k6_env \<Rightarrow> http_call list" where
  "flood_teardown env = [get_call (BASE_URL env @ ''/v1/outbox/stats'') None,
     get_call (BASE_URL env @ ''/v1/notifications/stats'') None]"

definition burst_iteration :: "k6_env \<Rightarrow> string \<Rightarrow> http_call" where
  "burst_iteration env eventId = bookSeat env eventId ''burst-user'' no_options"

record burst_counts =
  rl_accepted :: nat
  rl_throttled :: nat

definition burst_count :: "http_reply \<Rightarrow> burst_counts \<Rightarrow> burst_counts" where
  "burst_count r c =
     (let c = (if hy_status r = 429 then c\<lparr>rl_throttled := rl_throttled c + 1\<rparr> else c) in
      if hy_status r = 201 then c\<lparr>rl_accepted := rl_accepted c + 1\<rparr> else c)"

definition served_or_throttled :: "http_reply \<Rightarrow> bool" where
  "served_or_throttled r \<longleftrightarrow> hy_status r = 201 \<or> hy_status r = 429"

definition tells_when_to_come_back :: "http_reply \<Rightarrow> bool" where
  "tells_when_to_come_back r \<longleftrightarrow> hy_status r \<noteq> 429 \<or> map_of (hy_headers r) ''Retry-After'' \<noteq> None"

subsection \<open>What the client is answered\<close>

text \<open>The status the framework gives each exception, and the headers the guard has set by then.\<close>

definition status_of :: "err \<Rightarrow> int" where
  "status_of e = (case e of NotFoundException _ \<Rightarrow> 404 | ConflictException _ \<Rightarrow> 409 | UnprocessableEntityException _ \<Rightarrow> 422
     | TooManyRequests _ \<Rightarrow> 429 | ServiceUnavailableException _ \<Rightarrow> 503 | JsError _ \<Rightarrow> 500)"

definition booking_reply :: "err + http_response \<Rightarrow> msg_headers \<Rightarrow> http_reply" where
  "booking_reply answer hs =
     (case answer of
        Inl e \<Rightarrow> \<lparr>hy_status = status_of e, hy_headers = hs,
          hy_json = JObj [(''statusCode'', JNum (of_int (status_of e))), (''message'', JStr (message_of e))]\<rparr>
      | Inr resp \<Rightarrow> \<lparr>hy_status = hs_status resp, hy_headers = hs @ hs_headers resp, hy_json = orElse (hs_body resp) JUndef\<rparr>)"

definition integrity_json :: "seat_integrity \<Rightarrow> jsval" where
  "integrity_json r = JObj [(''eventId'', JStr (si_eventId r)), (''totalSeats'', JNum (of_int (si_totalSeats r))),
     (''availableSeats'', JNum (of_int (si_availableSeats r))), (''confirmedSeats'', JNum (of_int (si_confirmedSeats r))),
     (''oversoldBy'', JNum (of_int (si_oversoldBy r))), (''counterDrift'', JBool (si_counterDrift r))]"

lemma verdicts:
  "oversell_passes (integrity_json r) \<longleftrightarrow> si_oversoldBy r = 0 \<and> \<not> si_counterDrift r"
  "idempotency_passes (integrity_json r) \<longleftrightarrow> si_confirmedSeats r = int VUS"
proof -
  show "oversell_passes (integrity_json r) \<longleftrightarrow> si_oversoldBy r = 0 \<and> \<not> si_counterDrift r"
    by (simp add: oversell_passes_def integrity_json_def js_get_def js_not_def)
  have "(of_int (si_confirmedSeats r) :: rat) = of_nat VUS \<longleftrightarrow> si_confirmedSeats r = int VUS"
    by (metis of_int_eq_iff of_int_of_nat_eq)
  then show "idempotency_passes (integrity_json r) \<longleftrightarrow> si_confirmedSeats r = int VUS"
    by (simp add: idempotency_passes_def integrity_json_def js_get_def)
qed

text \<open>What the client sends is read back by the server's parser.\<close>

lemma booking_body_parsed: "JSON_parse (the (hc_body (bookSeat env i u opts))) = Some (booking_body u opts)"
proof -
  have "json_ok (booking_body u opts)" by (auto simp: booking_body_def intro!: decimal_of_int)
  from json_round_trip [OF this] show ?thesis by (simp add: bookSeat_def)
qed

lemma event_body_parsed: "JSON_parse (the (hc_body (createEvent env seats name now))) = Some (event_body seats name now)"
proof -
  have "decimal 25000" using decimal_of_int [of 25000] by simp
  then have "json_ok (event_body seats name now)" by (auto simp: event_body_def intro!: decimal_of_int)
  from json_round_trip [OF this] show ?thesis by (simp add: createEvent_def)
qed

text \<open>01: the verdict is right, whatever interleaving the load produces.\<close>

lemma oversell_test_passes:
  assumes "ledger_ok d" "\<And>t. booking_lockStrategy (fst (reqs t)) \<noteq> NoLock"
    and "sys_steps (serving reqs d) s" "integrity e (sys_db s) = Inr report"
  shows "oversell_passes (integrity_json report)"
proof -
  have "ledger_ok (sys_db s)"
    using bookings.reachable_ledger [of reqs False d s] assms(1-3) by (simp add: ledger_inv serving_def locked_strategy_def)
  moreover obtain r where "find_event e (sys_db s) = Some r" using assms(4) by (auto simp: integrity_def split: option.splits)
  ultimately show ?thesis using integrity_of_ledger [of "sys_db s" e r] assms(4) by (simp add: verdicts)
qed

text \<open>And the very same test catches the unprotected strategy.\<close>

lemma oversell_test_catches_naive:
  "\<exists>s report. sys_steps (serving (two_buyers NoLock NoLock) one_seat_db) s \<and> integrity ''e1'' (sys_db s) = Inr report
    \<and> \<not> oversell_passes (integrity_json report)"
proof -
  from naive_oversells obtain s where s: "run_schedule (moves [0, 1, 0, 0, 0, 0, 1, 1, 1, 1]) (serving (two_buyers NoLock NoLock) one_seat_db) = Some s"
    "integrity ''e1'' (sys_db s) = Inr \<lparr>si_eventId = ''e1'', si_totalSeats = 1, si_availableSeats = 0,
        si_confirmedSeats = 2, si_oversoldBy = 1, si_counterDrift = True\<rparr>" by blast
  show ?thesis by (intro exI conjI, rule run_schedule_steps [OF s(1)], rule s(2)) (simp add: verdicts)
qed

text \<open>
  07: while there are seats, a booking without a key is served or throttled and never an error of the server,
  and a throttled one is told when to come back.
\<close>

lemma burst_checks_pass:
  assumes "retries_ok cfg" "bh_key r = None" "validate (bh_body r) = Inr dto"
    and "sell cfg (booking_request r dto (wd_now w)) env (wd_db w) = (Inr x, d')"
    and "post_booking cfg S env validate sha collate r w = (answer, hs, w')"
  shows "served_or_throttled (booking_reply answer hs) \<and> tells_when_to_come_back (booking_reply answer hs)"
proof -
  obtain g hs1 w1 where g: "canActivate cfg S (Some booking_options) (bh_guarded r) w = (g, hs1, w1)" by (metis prod_cases3)
  show ?thesis
  proof (cases g)
    case (Inl e)
    with g have "hs1 \<noteq> [] \<and> (\<exists>ms. e = TooManyRequests ms) \<and> map_of hs1 ''Retry-After'' \<noteq> None"
      by (auto simp: canActivate_def consumeToken_def Let_def split: if_splits option.splits prod.splits sum.splits)
    with Inl g assms(5) show ?thesis
      by (auto simp: post_booking_def booking_reply_def status_of_def served_or_throttled_def tells_when_to_come_back_def)
  next
    case (Inr u)
    let ?q = "booking_request r dto (wd_now w)"
    have same: "wd_db w1 = wd_db w" "wd_now w1 = wd_now w" using canActivate_frame [OF g] canActivate_clock [OF g] by simp_all
    obtain a w2 where b: "book cfg S env False ?q w1 = (a, w2)" by fastforce
    have "a = Some (Inr (response_of cfg x))" using book_db(3) [OF assms(1) b] assms(4) same(1) by simp
    then have "create_booking cfg S env validate r w1 = (Inr (201, booking_json (response_of cfg x)), w2)"
      using assms(3) b same(2) by (simp add: create_booking_def)
    with Inr g assms(2,5) have "\<exists>body. answer = Inr \<lparr>hs_status = 201, hs_headers = [], hs_body = Some body\<rparr>"
      by (auto simp: post_booking_def intercept_key_def)
    then show ?thesis by (auto simp: booking_reply_def served_or_throttled_def tells_when_to_come_back_def)
  qed
qed

subsection \<open>02: retries collapse\<close>

lemma vu_key_inj: "vu_key v e = vu_key v' e \<Longrightarrow> v = v'"
  by (auto simp: vu_key_def vu_name_def dest: nat_str_inj)

lemma length_by_class:
  assumes "finite V" "g ` set xs \<subseteq> V"
  shows "length xs = (\<Sum>v\<in>V. length (filter (\<lambda>x. g x = v) xs))"
  using assms(2)
proof (induction xs)
  case (Cons x xs)
  have "(\<Sum>v\<in>V. length (filter (\<lambda>y. g y = v) (x # xs))) = (\<Sum>v\<in>V. (if g x = v then 1 else 0) + length (filter (\<lambda>y. g y = v) xs))"
    by (rule sum.cong) auto
  also have "\<dots> = 1 + length xs" using Cons assms(1) by (simp add: sum.distrib)
  finally show ?case by simp
qed simp

text \<open>The requests of the test: bookings of one seat of the event, each under the key of its virtual user.\<close>

definition retry_requests :: "('o, 'x) pipes_scheme \<Rightarrow> uuid \<Rightarrow> nat \<Rightarrow> (ms \<times> ('s, 'k) api_request) list \<Rightarrow> bool" where
  "retry_requests P e n reqs \<longleftrightarrow> (\<forall>(t, r) \<in> set reqs. \<exists>b env v. r = PostBooking b env \<and> bh_eventId b = e
     \<and> 1 \<le> v \<and> v \<le> n \<and> key_of b = Some (vu_key v e)
     \<and> (\<forall>dto. pp_booking P (bh_body b) = Inr dto \<longrightarrow> cb_quantity dto = 1))"

definition one_of :: "uuid \<Rightarrow> nat \<Rightarrow> booking_row \<Rightarrow> bool" where
  "one_of e n b \<longleftrightarrow> bk_eventId b = e \<and> bk_quantity b = 1 \<and> bk_status b = Confirmed
     \<and> (\<exists>v. 1 \<le> v \<and> v \<le> n \<and> bk_idempotencyKey b = Some (vu_key v e))"

lemma key_of_trim: "key_of b = Some k \<Longrightarrow> map_option trim (bh_key b) = Some k"
  by (auto simp: key_of_def nonempty_def split: option.splits if_splits)

lemma retry_requests_add:
  assumes "retries_ok cfg" "retry_requests P e n reqs" "serve_all cfg S P reqs w = Some (answers, w')"
  shows "\<exists>new. t_bookings (wd_db w') = t_bookings (wd_db w) @ new \<and> (\<forall>b \<in> set new. one_of e n b)"
  using assms(2,3)
proof (induction reqs arbitrary: w answers)
  case (Cons tr reqs)
  from Cons.prems(1) obtain t b env v where tr: "tr = (t, PostBooking b env)" and b: "bh_eventId b = e" "1 \<le> v" "v \<le> n"
    "key_of b = Some (vu_key v e)" "\<And>dto. pp_booking P (bh_body b) = Inr dto \<Longrightarrow> cb_quantity dto = 1"
    by (auto simp: retry_requests_def)
  with Cons.prems(2) obtain a w1 as where s: "serve cfg S P (PostBooking b env) (w\<lparr>wd_now := t\<rparr>) = Some (a, w1)"
    "serve_all cfg S P reqs w1 = Some (as, w')" by (auto simp del: serve.simps split: option.splits)
  then obtain answer hs where p: "post_booking cfg S env (booking_pipes P (bh_eventId b)) (pp_sha256 P) (pp_collate P) b (w\<lparr>wd_now := t\<rparr>)
      = (answer, hs, w1)" by (auto split: prod.splits)
  have "\<exists>new. t_bookings (wd_db w1) = t_bookings (wd_db w) @ new \<and> (\<forall>c \<in> set new. one_of e n c)"
  proof (cases "t_bookings (wd_db w1) = t_bookings (wd_db w)")
    case False
    with post_booking_adds [OF assms(1) p] obtain c dto now where c: "t_bookings (wd_db w1) = t_bookings (wd_db w) @ [c]"
      "booking_pipes P (bh_eventId b) (bh_body b) = Inr dto" "is_booking_of (booking_request b dto now) c" by auto
    then have "pp_booking P (bh_body b) = Inr dto"
      by (auto simp: booking_pipes_def and_then_def split: sum.splits)
    with c(3) b key_of_trim [OF b(4)] have "one_of e n c"
      by (auto simp: one_of_def is_booking_of_def booking_request_def)
    with c(1) show ?thesis by auto
  qed simp
  moreover have "retry_requests P e n reqs" using Cons.prems(1) by (simp add: retry_requests_def)
  from Cons.IH [OF this s(2)] obtain new where "t_bookings (wd_db w') = t_bookings (wd_db w1) @ new" "\<forall>b \<in> set new. one_of e n b"
    by blast
  ultimately show ?case by (metis append_assoc set_append Un_iff)
qed simp

lemma retry_requests_alone: "retry_requests P e n reqs \<Longrightarrow> \<forall>(t, r) \<in> set reqs. alone r"
  by (fastforce simp: retry_requests_def)

lemma sold_ones: "\<forall>b \<in> set bs. one_of e n b \<Longrightarrow> sold e bs = int (length bs)"
  by (induction bs) (auto simp: sold_Cons one_of_def)

text \<open>
  In whatever order the virtual users send their retries, and however often: once each has been answered,
  the event has sold one seat per user.
\<close>

lemma retries_collapse:
  assumes "retries_ok cfg" and "retry_requests P e n reqs" and "serve_all cfg S P reqs w = Some (answers, w')"
    and "sold e (t_bookings (wd_db w)) = 0"
    and "\<And>v. find_key (vu_key v e) (wd_db w) = None \<and> bookings_under (vu_key v e) (wd_db w) = []"
    and "\<And>v. 1 \<le> v \<Longrightarrow> v \<le> n \<Longrightarrow> replies_under (vu_key v e) reqs answers \<noteq> []"
  shows "sold e (t_bookings (wd_db w')) = int n"
proof -
  obtain new where new: "t_bookings (wd_db w') = t_bookings (wd_db w) @ new" "\<forall>b \<in> set new. one_of e n b"
    using retry_requests_add [OF assms(1-3)] by blast
  have one: "length (filter (\<lambda>b. bk_idempotencyKey b = Some (vu_key v e)) new) = 1" if "1 \<le> v" "v \<le> n" for v
  proof -
    have "vu_key v e \<noteq> []" by (simp add: vu_key_def vu_name_def)
    from answered_key_booked [OF assms(1) this retry_requests_alone [OF assms(2)] assms(3) _ _ assms(6) [OF that]] assms(5) [of v]
    have "length (bookings_under (vu_key v e) (wd_db w')) = 1" by auto
    with assms(5) [of v] new(1) show ?thesis by (simp add: bookings_under_def)
  qed
  let ?V = "(\<lambda>v. Some (vu_key v e)) ` {1..n}"
  have "bk_idempotencyKey ` set new \<subseteq> ?V" using new(2) by (auto simp: one_of_def)
  then have "length new = (\<Sum>k\<in>?V. length (filter (\<lambda>b. bk_idempotencyKey b = k) new))" by (intro length_by_class) auto
  also have "\<dots> = (\<Sum>v\<in>{1..n}. length (filter (\<lambda>b. bk_idempotencyKey b = Some (vu_key v e)) new))"
    by (rule sum.reindex_cong [of "\<lambda>v. Some (vu_key v e)"]) (auto intro: inj_onI dest: vu_key_inj)
  also have "\<dots> = n" using one by simp
  finally show ?thesis using new sold_ones [OF new(2)] assms(4) by simp
qed

text \<open>So the test of the idempotency keys passes.\<close>

theorem idempotency_test_passes:
  assumes "retries_ok cfg" and "retry_requests P e VUS reqs" and "serve_all cfg S P reqs w = Some (answers, w')"
    and "sold e (t_bookings (wd_db w)) = 0"
    and "\<And>v. find_key (vu_key v e) (wd_db w) = None \<and> bookings_under (vu_key v e) (wd_db w) = []"
    and "\<And>v. 1 \<le> v \<Longrightarrow> v \<le> VUS \<Longrightarrow> replies_under (vu_key v e) reqs answers \<noteq> []"
    and "integrity e (wd_db w') = Inr report"
  shows "idempotency_passes (integrity_json report)"
proof -
  have "si_confirmedSeats report = int VUS"
    using retries_collapse [OF assms(1-6)] assms(7) by (auto simp: integrity_def Let_def split: option.splits)
  then show ?thesis by (simp add: verdicts)
qed

end
