(* ===== verification/Routes.thy ===== *)
theory Routes
  imports ModuleGraph Wiring LoadTests
begin

section \<open>The routes and their description\<close>

text \<open>
  What the decorators of the controllers declare: methods, versions and paths, one list of routes per
  controller, in the order in which they are registered, and the description of the API that \<open>swagger.ts\<close>
  publishes. How the router compares a segment of a path with a declared one is the argument \<open>same\<close>.
\<close>

datatype http_method = Get | Post

datatype segment = Fixed string | Param string

record route =
  rt_method :: http_method
  rt_version :: "string option"
  rt_path :: "segment list"
  rt_handler :: "service_class \<times> string"

definition EventsController_routes :: "route list" where
  "EventsController_routes =
     [\<lparr>rt_method = Post, rt_version = Some ''1'', rt_path = [Fixed ''events''], rt_handler = (EventsController, ''create'')\<rparr>,
      \<lparr>rt_method = Get, rt_version = Some ''1'', rt_path = [Fixed ''events''], rt_handler = (EventsController, ''list'')\<rparr>,
      \<lparr>rt_method = Get, rt_version = Some ''1'', rt_path = [Fixed ''events'', Param ''id''], rt_handler = (EventsController, ''findOne'')\<rparr>,
      \<lparr>rt_method = Get, rt_version = Some ''1'', rt_path = [Fixed ''events'', Param ''id'', Fixed ''uncached''],
       rt_handler = (EventsController, ''findOneUncached'')\<rparr>]"

definition BookingsController_create :: route where
  "BookingsController_create =
     \<lparr>rt_method = Post, rt_version = Some ''1'', rt_path = [Fixed ''events'', Param ''eventId'', Fixed ''bookings''],
      rt_handler = (BookingsController, ''create'')\<rparr>"

definition BookingsController_reads :: "route list" where
  "BookingsController_reads =
     [\<lparr>rt_method = Get, rt_version = Some ''1'', rt_path = [Fixed ''events'', Param ''eventId'', Fixed ''integrity''],
       rt_handler = (BookingsController, ''integrity'')\<rparr>,
      \<lparr>rt_method = Get, rt_version = Some ''1'', rt_path = [Fixed ''events'', Param ''eventId'', Fixed ''bookings''],
       rt_handler = (BookingsController, ''listByEvent'')\<rparr>,
      \<lparr>rt_method = Get, rt_version = Some ''1'', rt_path = [Fixed ''bookings'', Param ''id''], rt_handler = (BookingsController, ''findOne'')\<rparr>]"

definition BookingsController_routes :: "route list" where
  "BookingsController_routes = BookingsController_create # BookingsController_reads"

definition OutboxController_routes :: "route list" where
  "OutboxController_routes =
     [\<lparr>rt_method = Get, rt_version = Some ''1'', rt_path = [Fixed ''outbox'', Fixed ''stats''], rt_handler = (OutboxController, ''stats'')\<rparr>,
      \<lparr>rt_method = Post, rt_version = Some ''1'', rt_path = [Fixed ''outbox'', Fixed ''drain''], rt_handler = (OutboxController, ''drain'')\<rparr>]"

definition NotificationsController_routes :: "route list" where
  "NotificationsController_routes =
     [\<lparr>rt_method = Get, rt_version = Some ''1'', rt_path = [Fixed ''notifications'', Fixed ''stats''],
       rt_handler = (NotificationsController, ''stats'')\<rparr>]"

text \<open>The version of the probes and of the metrics is \<open>VERSION_NEUTRAL\<close>: their paths have no prefix.\<close>

definition HealthController_routes :: "route list" where
  "HealthController_routes =
     [\<lparr>rt_method = Get, rt_version = None, rt_path = [Fixed ''health'', Fixed ''live''], rt_handler = (HealthController, ''live'')\<rparr>,
      \<lparr>rt_method = Get, rt_version = None, rt_path = [Fixed ''health'', Fixed ''ready''], rt_handler = (HealthController, ''ready'')\<rparr>]"

definition MetricsController_routes :: "route list" where
  "MetricsController_routes =
     [\<lparr>rt_method = Get, rt_version = None, rt_path = [Fixed ''metrics''], rt_handler = (MetricsController, ''scrape'')\<rparr>]"

fun routes_of :: "service_class \<Rightarrow> route list" where
  "routes_of EventsController = EventsController_routes"
| "routes_of BookingsController = BookingsController_routes"
| "routes_of OutboxController = OutboxController_routes"
| "routes_of NotificationsController = NotificationsController_routes"
| "routes_of HealthController = HealthController_routes"
| "routes_of MetricsController = MetricsController_routes"
| "routes_of _ = []"

definition all_routes :: "route list" where
  "all_routes = concat (map (\<lambda>m. concat (map routes_of (md_controllers (decl m)))) all_modules)"

lemmas route_defs = BookingsController_create_def BookingsController_reads_def all_routes_def all_modules_def module_defs EventsController_routes_def BookingsController_routes_def
  OutboxController_routes_def NotificationsController_routes_def HealthController_routes_def MetricsController_routes_def

text \<open>The path under which a route is reached: \<open>enableVersioning\<close> of \<open>main.ts\<close> puts \<open>v\<close> and the version before it.\<close>

definition full_path :: "route \<Rightarrow> segment list" where
  "full_path r = (case rt_version r of Some v \<Rightarrow> [Fixed (CHR ''v'' # v)] | None \<Rightarrow> []) @ rt_path r"

fun put_params :: "segment list \<Rightarrow> string list \<Rightarrow> string" where
  "put_params [] args = []"
| "put_params (Fixed s # ps) args = CHR ''/'' # s @ put_params ps args"
| "put_params (Param x # ps) [] = CHR ''/'' # put_params ps []"
| "put_params (Param x # ps) (a # args) = CHR ''/'' # a @ put_params ps args"

definition route_url :: "route \<Rightarrow> string list \<Rightarrow> string" where
  "route_url r args = put_params (full_path r) args"

subsection \<open>At most one route per request\<close>

definition serves :: "(segment \<Rightarrow> string \<Rightarrow> bool) \<Rightarrow> route \<Rightarrow> http_method \<Rightarrow> string list \<Rightarrow> bool" where
  "serves same r meth path \<longleftrightarrow> rt_method r = meth \<and> list_all2 same (full_path r) path"

text \<open>
  What is relied on of the comparison: no segment of a request is taken for two of the fixed segments, which
  holds for one that ignores case, as well as for one that does not.
\<close>

fun fixed_of :: "segment \<Rightarrow> string list" where
  "fixed_of (Fixed s) = [s]"
| "fixed_of (Param _) = []"

definition fixed_segments :: "string list" where
  "fixed_segments = remdups (concat (map (\<lambda>r. concat (map fixed_of (full_path r))) all_routes))"

definition tells_apart :: "(segment \<Rightarrow> string \<Rightarrow> bool) \<Rightarrow> bool" where
  "tells_apart same \<longleftrightarrow> (\<forall>a \<in> set fixed_segments. \<forall>b \<in> set fixed_segments. \<forall>s. same (Fixed a) s \<longrightarrow> same (Fixed b) s \<longrightarrow> a = b)"

text \<open>Two routes are apart when they have another method, another length or two different fixed segments at one place.\<close>

fun fixed_differ :: "segment \<times> segment \<Rightarrow> bool" where
  "fixed_differ (Fixed a, Fixed b) \<longleftrightarrow> a \<noteq> b"
| "fixed_differ _ \<longleftrightarrow> False"

definition apart :: "route \<Rightarrow> route \<Rightarrow> bool" where
  "apart r r' \<longleftrightarrow> rt_method r \<noteq> rt_method r' \<or> length (full_path r) \<noteq> length (full_path r')
     \<or> list_ex fixed_differ (zip (full_path r) (full_path r'))"

lemma routes_apart: "r \<in> set all_routes \<Longrightarrow> r' \<in> set all_routes \<Longrightarrow> r \<noteq> r' \<Longrightarrow> apart r r'"
proof -
  have "list_all (\<lambda>r. list_all (\<lambda>r'. r = r' \<or> apart r r') all_routes) all_routes" by code_simp
  then show "r \<in> set all_routes \<Longrightarrow> r' \<in> set all_routes \<Longrightarrow> r \<noteq> r' \<Longrightarrow> apart r r'" by (auto simp: list_all_iff)
qed

lemma fixed_in:
  assumes "r \<in> set all_routes" and "Fixed a \<in> set (full_path r)"
  shows "a \<in> set fixed_segments"
  using assms by (force simp: fixed_segments_def)

text \<open>No route hides another: whatever the path, at most one route of the whole service serves it.\<close>

theorem one_route_per_request:
  assumes "tells_apart same" and "r \<in> set all_routes" and "r' \<in> set all_routes"
    and "serves same r meth path" and "serves same r' meth path"
  shows "r = r'"
proof (rule ccontr)
  assume "r \<noteq> r'"
  with assms(2,3) have "apart r r'" by (intro routes_apart)
  moreover have "rt_method r = rt_method r'" "length (full_path r) = length (full_path r')"
    using assms(4,5) by (auto simp: serves_def dest!: list_all2_lengthD)
  ultimately obtain p where p: "p \<in> set (zip (full_path r) (full_path r'))" "fixed_differ p"
    by (auto simp: apart_def list_ex_iff)
  then obtain a b where ab: "p = (Fixed a, Fixed b)" "a \<noteq> b" by (cases p rule: fixed_differ.cases) auto
  with p obtain n where n: "n < length (full_path r)" "n < length (full_path r')" "full_path r ! n = Fixed a" "full_path r' ! n = Fixed b"
    by (auto simp: set_zip)
  with assms(4,5) have "same (Fixed a) (path ! n)" "same (Fixed b) (path ! n)"
    by (auto simp: serves_def list_all2_conv_all_nth)
  moreover have "a \<in> set fixed_segments" "b \<in> set fixed_segments"
    using fixed_in assms(2,3) n nth_mem by metis+
  ultimately show False using assms(1) ab(2) by (auto simp: tells_apart_def)
qed

fun ignoring_case :: "segment \<Rightarrow> string \<Rightarrow> bool" where
  "ignoring_case (Fixed a) s \<longleftrightarrow> toLowerCase a = toLowerCase s"
| "ignoring_case (Param _) s \<longleftrightarrow> s \<noteq> []"

lemma ignoring_case_ok: "tells_apart ignoring_case"
proof -
  have "list_all (\<lambda>a. toLowerCase a = a) fixed_segments" by code_simp
  then show ?thesis by (auto simp: tells_apart_def list_all_iff)
qed

lemma one_route_per_request_witness:
  "\<exists>r \<in> set all_routes. rt_handler r = (EventsController, ''findOneUncached'')
    \<and> serves ignoring_case r Get [''v1'', ''Events'', ''7'', ''uncached'']
    \<and> (\<forall>r' \<in> set all_routes. serves ignoring_case r' Get [''v1'', ''Events'', ''7'', ''uncached''] \<longrightarrow> r' = r)"
proof -
  define path where "path = [''v1'', ''Events'', ''7'', ''uncached'']"
  have "list_ex (\<lambda>r. rt_handler r = (EventsController, ''findOneUncached'') \<and> serves ignoring_case r Get path) all_routes"
    unfolding path_def by code_simp
  then obtain r where r: "r \<in> set all_routes" "rt_handler r = (EventsController, ''findOneUncached'')" "serves ignoring_case r Get path"
    by (auto simp: list_ex_iff)
  have "r' = r" if "r' \<in> set all_routes" "serves ignoring_case r' Get path" for r'
    by (rule one_route_per_request [OF ignoring_case_ok that(1) r(1) that(2) r(3)])
  with r show ?thesis unfolding path_def by blast
qed

subsection \<open>The routes and the rest of the development\<close>

text \<open>The handler that \<open>serve\<close> of \<open>Api\<close> models for each request.\<close>

fun handler_of :: "('s, 'k) api_request \<Rightarrow> service_class \<times> string" where
  "handler_of (PostEvent _ _) = (EventsController, ''create'')"
| "handler_of (GetEvents _) = (EventsController, ''list'')"
| "handler_of (GetEvent _ _ _) = (EventsController, ''findOne'')"
| "handler_of (GetEventUncached _) = (EventsController, ''findOneUncached'')"
| "handler_of (PostBooking _ _) = (BookingsController, ''create'')"
| "handler_of (GetIntegrity _) = (BookingsController, ''integrity'')"
| "handler_of (GetEventBookings _ _) = (BookingsController, ''listByEvent'')"
| "handler_of (GetBooking _) = (BookingsController, ''findOne'')"
| "handler_of GetOutboxStats = (OutboxController, ''stats'')"
| "handler_of (PostDrain _ _) = (OutboxController, ''drain'')"
| "handler_of GetNotificationStats = (NotificationsController, ''stats'')"

definition versioned_handlers :: "(service_class \<times> string) list" where
  "versioned_handlers =
     [(EventsController, ''create''), (EventsController, ''list''), (EventsController, ''findOne''), (EventsController, ''findOneUncached''),
      (OutboxController, ''stats''), (OutboxController, ''drain''),
      (BookingsController, ''create''), (BookingsController, ''integrity''), (BookingsController, ''listByEvent''),
      (BookingsController, ''findOne''), (NotificationsController, ''stats'')]"

text \<open>
  The requests of \<open>Api\<close> are those of the versioned API, no route is left out, and the requests that only read
  are those of \<open>GET\<close> routes.
\<close>

theorem api_is_complete:
  "handler_of q \<in> rt_handler ` {r \<in> set all_routes. rt_version r = Some ''1''}
    \<and> (\<forall>r \<in> set all_routes. rt_version r = Some ''1'' \<longrightarrow> (\<exists>q :: ('s, 'k) api_request. handler_of q = rt_handler r))
    \<and> (\<forall>r \<in> set all_routes. rt_handler r = handler_of q \<longrightarrow> (rt_method r = Get \<longleftrightarrow> is_get q))"
proof (intro conjI)
  have handlers: "map rt_handler (filter (\<lambda>r. rt_version r = Some ''1'') all_routes) = versioned_handlers" by code_simp
  show "handler_of q \<in> rt_handler ` {r \<in> set all_routes. rt_version r = Some ''1''}"
    using arg_cong [OF handlers, of set] by (cases q) (simp_all add: versioned_handlers_def)
  show "\<forall>r \<in> set all_routes. rt_version r = Some ''1'' \<longrightarrow> (\<exists>q :: ('s, 'k) api_request. handler_of q = rt_handler r)"
  proof (intro ballI impI)
    fix r assume "r \<in> set all_routes" "rt_version r = Some ''1''"
    then have "rt_handler r \<in> set versioned_handlers" using arg_cong [OF handlers, of set] by auto
    then show "\<exists>q :: ('s, 'k) api_request. handler_of q = rt_handler r"
      unfolding versioned_handlers_def by auto (rule exI, rule handler_of.simps)+
  qed
  have "list_all (\<lambda>r. rt_method r = Get \<longleftrightarrow> rt_handler r \<notin> set [(EventsController, ''create''), (BookingsController, ''create''),
      (OutboxController, ''drain'')]) all_routes" by code_simp
  then show "\<forall>r \<in> set all_routes. rt_handler r = handler_of q \<longrightarrow> (rt_method r = Get \<longleftrightarrow> is_get q)"
    by (cases q) (auto simp: list_all_iff)
qed

text \<open>The logger leaves out exactly the routes without a version, the probes and the metrics.\<close>

theorem log_ignores_probes:
  "\<forall>r \<in> set all_routes. \<forall>args. ignored_by_log (Some (route_url r args)) \<longleftrightarrow> rt_version r = None"
  by (simp add: route_defs route_url_def full_path_def ignored_by_log_def starts_with_def)

text \<open>Every call of the load tests goes to the route it is meant for.\<close>

theorem load_tests_reach_their_routes:
  "\<exists>create book read uncached report. {create, book, read, uncached, report} \<subseteq> set all_routes
    \<and> map rt_handler [create, book, read, uncached, report] = [(EventsController, ''create''), (BookingsController, ''create''),
        (EventsController, ''findOne''), (EventsController, ''findOneUncached''), (BookingsController, ''integrity'')]
    \<and> map rt_method [create, book, read, uncached, report] = [Post, Post, Get, Get, Get]
    \<and> hc_url (createEvent env seats name now) = BASE_URL env @ route_url create []
    \<and> hc_url (bookSeat env i u opts) = BASE_URL env @ route_url book [i]
    \<and> hc_url (baseline_iteration env i) = BASE_URL env @ route_url read [i]
    \<and> hc_url (cache_read_iteration env i) \<in> {BASE_URL env @ route_url read [i], BASE_URL env @ route_url uncached [i]}
    \<and> hc_url (integrity_call env i) = BASE_URL env @ route_url report [i]"
  by (rule exI [of _ "EventsController_routes ! 0"], rule exI [of _ "BookingsController_routes ! 0"],
      rule exI [of _ "EventsController_routes ! 2"], rule exI [of _ "EventsController_routes ! 3"],
      rule exI [of _ "BookingsController_routes ! 1"])
     (simp add: route_defs route_url_def full_path_def createEvent_def bookSeat_def baseline_iteration_def read_iteration_def
       get_call_def event_url_def cache_read_iteration_def integrity_call_def Let_def)

end
