(* ===== verification/ApiText.thy ===== *)
theory ApiText
  imports Routes
begin

section \<open>The published description\<close>

text \<open>
  The document of \<open>swagger.ts\<close>: title, description, version and tags, with the text of the description as it is
  written there. The texts of the tags, and the descriptions of single endpoints, are left out.
\<close>

record swagger_document =
  sw_title :: string
  sw_description :: string
  sw_version :: string
  sw_tags :: "string list"

definition swagger_lines :: "string list" where
  "swagger_lines =
     [''A flash-sale ticket booking API used as a system design lab.'',
      [],
      ''Each endpoint exists to make one distributed-systems failure reproducible,'',
      ''and every fix is switchable at runtime through the environment so the same'',
      ''load test can show the bug and then show it gone:'',
      [],
      ''- `BOOKING_LOCK_STRATEGY=none` oversells seats (M1)'',
      ''- omit `Idempotency-Key` and a retried booking charges twice (M2)'',
      ''- `CACHE_ENABLED=false` puts every read back on Postgres (M3)'',
      ''- `CACHE_STAMPEDE_PROTECTION=false` lets the herd through on expiry (M4)'',
      ''- `DIRECT_PUBLISH_MODE=true` + `FAULT_CRASH_AFTER_BOOKING_COMMIT=true` loses events (M5)'',
      ''- `NOTIFICATION_FAILURE_RATE=0.3` exercises retries and the DLQ (M6)'',
      ''- `RATE_LIMIT_ENABLED=false` removes the only bound on write traffic (M7)'']"

definition setupSwagger :: swagger_document where
  "setupSwagger = \<lparr>sw_title = ''Overbook'', sw_description = join_with [CHR 0x0A] swagger_lines, sw_version = ''1.0'',
     sw_tags = [''events'', ''bookings'', ''outbox'', ''notifications'', ''health'']\<rparr>"

text \<open>\<open>@ApiTags\<close> of the controllers; the metrics are excluded from the document.\<close>

fun ApiTags :: "service_class \<Rightarrow> string option" where
  "ApiTags EventsController = Some ''events''"
| "ApiTags BookingsController = Some ''bookings''"
| "ApiTags OutboxController = Some ''outbox''"
| "ApiTags NotificationsController = Some ''notifications''"
| "ApiTags HealthController = Some ''health''"
| "ApiTags _ = None"

text \<open>What a text puts between backquotes, and which of that is a setting of a variable.\<close>

fun every_second :: "'a list \<Rightarrow> 'a list" where
  "every_second (_ # b # xs) = b # every_second xs"
| "every_second _ = []"

fun setting :: "string list \<Rightarrow> (string \<times> string) list" where
  "setting [x, v] = [(x, v)]"
| "setting _ = []"

definition settings :: "string \<Rightarrow> (string \<times> string) list" where
  "settings text = concat (map (\<lambda>q. setting (split_on (CHR ''='') q)) (every_second (split_on (CHR 0x60) text)))"

fun set_all :: "(string \<times> string) list \<Rightarrow> environment \<Rightarrow> environment" where
  "set_all [] env = env"
| "set_all ((x, v) # rest) env = set_all rest (env(x := Some v))"

lemma settings_described:
  "settings (sw_description setupSwagger) =
     [(''BOOKING_LOCK_STRATEGY'', ''none''), (''CACHE_ENABLED'', ''false''), (''CACHE_STAMPEDE_PROTECTION'', ''false''),
      (''DIRECT_PUBLISH_MODE'', ''true''), (''FAULT_CRASH_AFTER_BOOKING_COMMIT'', ''true''),
      (''NOTIFICATION_FAILURE_RATE'', ''0.3''), (''RATE_LIMIT_ENABLED'', ''false'')]"
  by code_simp

lemma tagged:
  "\<exists>c. ApiTags c = Some ''events''" "\<exists>c. ApiTags c = Some ''bookings''" "\<exists>c. ApiTags c = Some ''outbox''"
  "\<exists>c. ApiTags c = Some ''notifications''" "\<exists>c. ApiTags c = Some ''health''"
  by (rule exI, rule ApiTags.simps)+

text \<open>
  The description is true to the configuration: an environment with the settings it quotes is accepted, and each
  of them switches what the text says it switches, whatever the other variables hold; and the tags it explains
  are those of the controllers, one each.
\<close>

theorem description_is_true:
  "(\<exists>c. configuration (set_all (settings (sw_description setupSwagger)) env) hostname = Inr c
      \<and> booking_lockStrategy c = NoLock \<and> \<not> cache_enabled c \<and> \<not> cache_stampedeProtection c
      \<and> outbox_directPublishMode c \<and> outbox_crashAfterCommit c \<and> notifications_failureRate c = 3 / 10
      \<and> \<not> rateLimit_enabled c)
    \<and> (\<forall>tag. tag \<in> set (sw_tags setupSwagger) \<longleftrightarrow> (\<exists>!c. ApiTags c = Some tag))
    \<and> {c. ApiTags c \<noteq> None} = {c. routes_of c \<noteq> []} - {MetricsController}"
proof (intro conjI)
  have read: "lock_strategy_of (Some ''none'') = Inr NoLock" "\<not> bool_of (Some ''false'') True" "bool_of (Some ''true'') False"
    "float_of (Some ''0.3'') 0 = 3 / 10"
    by code_simp+
  show "\<exists>c. configuration (set_all (settings (sw_description setupSwagger)) env) hostname = Inr c
      \<and> booking_lockStrategy c = NoLock \<and> \<not> cache_enabled c \<and> \<not> cache_stampedeProtection c
      \<and> outbox_directPublishMode c \<and> outbox_crashAfterCommit c \<and> notifications_failureRate c = 3 / 10
      \<and> \<not> rateLimit_enabled c"
    by (simp add: settings_described configuration_def read)
  show "\<forall>tag. tag \<in> set (sw_tags setupSwagger) \<longleftrightarrow> (\<exists>!c. ApiTags c = Some tag)"
  proof
    fix tag
    show "tag \<in> set (sw_tags setupSwagger) \<longleftrightarrow> (\<exists>!c. ApiTags c = Some tag)"
    proof
      assume "tag \<in> set (sw_tags setupSwagger)"
      then show "\<exists>!c. ApiTags c = Some tag"
        by (auto simp: setupSwagger_def elim!: ApiTags.elims intro: tagged)
    next
      assume "\<exists>!c. ApiTags c = Some tag"
      then obtain c where "ApiTags c = Some tag" by blast
      then show "tag \<in> set (sw_tags setupSwagger)" by (cases c) (auto simp: setupSwagger_def)
    qed
  qed
  show "{c. ApiTags c \<noteq> None} = {c. routes_of c \<noteq> []} - {MetricsController}"
  proof -
    have "ApiTags c \<noteq> None \<longleftrightarrow> routes_of c \<noteq> [] \<and> c \<noteq> MetricsController" for c
      by (cases c) (simp_all add: route_defs)
    then show ?thesis by blast
  qed
qed

end
