(* ===== verification/Spec2Isabelle.thy ===== *)
theory Spec2Isabelle
  imports Specs Player BookEndpoint BookingRace IdempotencyRace EndToEnd Lifecycle EventPages CacheRace Schema Registry ApiText
begin

text \<open>
  Overbook sells seats: an HTTP API in front of PostgreSQL, Redis and Kafka, run as several replicas. This
  development models the service under \<open>src/src/\<close> and proves what each part promises and what the parts
  promise together: seats are not oversold, confirmed bookings are announced and notified, retried requests are
  not booked twice, and what happens when a process, the cache or the broker fails.

  \<^bold>\<open>The parts and how they interact.\<close>

    \<^item> A booking request passes the rate limit guard (token bucket in Redis), the idempotency interceptor (a row
      per key in PostgreSQL) and the validation pipe, and reaches \<open>BookingsService.book\<close>: one transaction takes
      the seats under one of three strategies, writes the booking row and, in the same transaction, an outbox row;
      then counters, cache invalidation, the overselling check of the unprotected strategy, the injected crash,
      and the direct publish when that mode is on.
    \<^item> Every replica runs an outbox relay, which polls for due rows, publishes them to Kafka and marks them.
    \<^item> The consumer takes announcements from the booking topic, claims each in \<open>processed_messages\<close>, sends the
      notification, and puts failing messages on the retry topic or the dead letter topic; one semaphore
      bounds the work of both topics.
    \<^item> Reads of events go through a Redis cache with single-flight loading.
    \<^item> Readiness, liveness and the shutdown handlers of \<open>main.ts\<close> decide when a replica gets traffic.
    \<^item> The controllers turn requests into calls of these services, under the global guard, pipe and interceptor;
      the migrations create the tables they write.

  \<^bold>\<open>Where what is modelled\<close> (theory: source files below \<open>src/src/\<close>).

    \<^item> \<open>Prelude\<close>: exceptions, strings, JavaScript numbers that may be \<open>NaN\<close>, JSON values, ISO dates, SQL
      statements on lists of rows. \<open>Json\<close>, \<open>JsonRoundTrip\<close>: \<open>JSON.stringify\<close> and \<open>JSON.parse\<close>.
    \<^item> \<open>Config\<close>: \<open>config/configuration.ts\<close>. \<open>Trace\<close>: \<open>common/trace/\<close>. \<open>Semaphore\<close>:
      \<open>common/concurrency/semaphore.ts\<close>. \<open>Backoff\<close>: \<open>notifications/retry-policy.ts\<close>,
      \<open>redis/cache-ttl.ts\<close>.
    \<^item> \<open>Store\<close>: the entities, the column constraints of \<open>migrations/\<close>, the response objects. \<open>World\<close>:
      the metrics of \<open>metrics/metrics.service.ts\<close>, and the record \<open>services\<close> of what Redis and Kafka do.
    \<^item> \<open>Transactions\<close>: the statements of a transaction body as a tree, run alone (\<open>transaction\<close>) or
      interleaved under READ COMMITTED with row locks (\<open>sys_step\<close>). \<open>TxLogic\<close>, \<open>TxSound\<close>, \<open>TxLive\<close>: a
      program logic for such bodies, its soundness (locale \<open>tx_client\<close>), and freedom from deadlock for bodies
      that lock one row (locale \<open>tx_single_row\<close>).
    \<^item> \<open>Bookings\<close>, \<open>BookService\<close>, \<open>BookEndpoint\<close>: \<open>bookings/\<close> (the transaction; \<open>book\<close> as a whole; the
      decorated endpoint). \<open>BookingSafety\<close>, \<open>BookingRace\<close>, \<open>BookOutcomes\<close>: what they guarantee. \<open>Outbox\<close>:
      \<open>outbox/outbox.service.ts\<close>.
    \<^item> \<open>Relay\<close>, \<open>RelaySafety\<close>, \<open>RelayLive\<close>: \<open>outbox/outbox.relay.ts\<close>, \<open>outbox/outbox.controller.ts\<close>.
      \<open>Kafka\<close>: \<open>kafka/\<close>.
    \<^item> \<open>Redis\<close>, \<open>TokenBucket\<close>: \<open>redis/redis.service.ts\<close> with its Lua scripts. \<open>RateLimit\<close>: \<open>ratelimit/\<close>.
      \<open>Cache\<close>, \<open>CacheSafety\<close>: \<open>redis/cache.service.ts\<close> (locale \<open>cached_load\<close>). \<open>Events\<close>,
      \<open>EventPages\<close>: \<open>events/\<close>.
    \<^item> \<open>ClaimStore\<close>: claiming work by inserting a row (locale \<open>claim_store\<close>), interpreted by
      \<open>Idempotency\<close> (\<open>idempotency/\<close>; interleaved in \<open>IdempotencyRace\<close>, fingerprints in \<open>Fingerprint\<close>)
      and by \<open>Notifications\<close> (\<open>notifications/notifications.service.ts\<close>).
    \<^item> \<open>Consumer\<close>, \<open>ConsumerSafety\<close>, \<open>ConsumerRun\<close>: \<open>notifications/notifications.consumer.ts\<close> (one message;
      what is kept; start, shared semaphore, shutdown). \<open>EndToEnd\<close>: from the outbox row to the notification.
    \<^item> \<open>CacheRace\<close>: loads of the event cache interleaved with bookings, invalidations and expiry.
    \<^item> \<open>Schema\<close>: \<open>migrations/\<close> run forth and back, and the declarations of the entities beside them.
      \<open>Registry\<close>: the registrations of \<open>metrics/metrics.service.ts\<close> and every call made on them.
    \<^item> \<open>Api\<close>: the routes of all controllers, one request after another. \<open>Wiring\<close>: the options of
      \<open>app.module.ts\<close> and \<open>database/data-source.ts\<close>, and the start of \<open>main.ts\<close>.
    \<^item> \<open>ModuleGraph\<close>: every \<open>*.module.ts\<close> and every constructor, as declarations. \<open>Routes\<close>: what the decorators
      of the controllers declare, against \<open>Api\<close>, the log filter and the load tests. \<open>ApiText\<close>: \<open>swagger.ts\<close>.
    \<^item> \<open>KeyLedger\<close>: what an idempotency key stands for in a run of requests to the whole API.
      \<open>LoadTests\<close>: the clients of \<open>src/load-tests/\<close>, and what their verdicts say about the model.
    \<^item> \<open>Specs\<close>: the expectations of the unit tests (\<open>*.spec.ts\<close>), evaluated on the model. \<open>Player\<close>: the script
      \<open>src/visualizations/shared/milestone-player.js\<close>, which is not part of the service.
    \<^item> \<open>HttpMetrics\<close>: \<open>metrics/http-metrics.interceptor.ts\<close>. \<open>Lifecycle\<close>: \<open>common/shutdown/\<close>, \<open>health/\<close>,
      the signal handlers of \<open>main.ts\<close>. \<open>Samples\<close>: concrete Redis and Kafka stand-ins for the witnesses.

  Operations keep the names of the methods; a method of several components carries a prefix
  (\<open>relay_onApplicationShutdown\<close>). Fields of a record carry a two-letter prefix. A call that may throw
  answers \<open>err + 'a\<close>; a call on the outside world takes and returns a \<open>world\<close>.

  \<^bold>\<open>What is shown.\<close> Safety under every interleaving: no overselling and no seat left unsold
  in a race, one outbox row per booking, truthful rejections, disjoint relays, at-least-once publishing, at most
  one notification per message, one handler per idempotency key, the lease and the semaphore. Progress: no
  deadlock, bounded completion of bookings, drained backlogs, ended waits, bounded retries. Sequential
  behaviour: every outcome of a booking, replay of retried requests, one booking per idempotency key in any run
  of requests, failed requests without effect, cached reads that agree with uncached ones, a bound on how stale
  they get, pages that enumerate the events, requests to the whole API that never oversell. The tables:
  migrations that undo themselves, and row constraints that are those of the migrations; metrics that are
  registered with the labels and the kind their calls use; constructor parameters that can all be supplied,
  without cycles and with one instance per service; routes that never hide each other. Equivalence and refinement: three strategies with one
  abstract sale, the relay as steps of its interleaving, \<open>stableStringify\<close> as JSON of the sorted
  body. Round trips: retried messages, announcements, JSON text. And the limits of the code: what a crash leaves
  behind, a poisoned attempts header, hooks that defeat the drain, a load that writes an old event over a newer
  booking's invalidation.

  \<^bold>\<open>Bounds and fuel.\<close> \<open>JSON_parse\<close> runs its parser with twice the length of the text plus two, and
  \<open>parse_fuel\<close> shows that more changes nothing. \<open>follow_pages\<close> has fuel for the pages, and
  \<open>pages_enumerate_events\<close> shows how much is enough. The waiting loops take the observations they make as a
  list; that they end is proved for every clock that advances. \<open>optimistic_attempts\<close> recurses on the configured
  retries. Columns of 32 bits are checked where rows are written. Token counts and random draws are rationals.

  \<^bold>\<open>What the model takes from outside.\<close> The Redis commands and the Kafka producer are fields of
  \<open>services\<close>; what is relied on is named (\<open>lock_commands_ok\<close>, \<open>store_commands_ok\<close>, \<open>broker_ok\<close>). PostgreSQL is
  the semantics in \<open>Transactions\<close> and the statements of \<open>Prelude\<close>. The hash, the collation of
  \<open>localeCompare\<close>, \<open>Number\<close> on header text, date parsing, the validation and UUID pipes, the health check
  service, the naming strategy of the tables, what library modules export, the router's comparison of path
  segments, random numbers, new ids and the clock are arguments.

  \<^bold>\<open>Not modelled.\<close> The container that reads the modules, the options of the validation pipe and the
  descriptions of single endpoints; what is logged; the durations histograms observe and the text exposition of
  metrics; the migration runner's own table; connection pools and statement time-outs; fields of objects in the
  order PostgreSQL keeps them; integer-like keys, which JavaScript objects put first; rounding of double
  precision numbers; end-to-end tests, the load generator, dashboards, the markup and data of the web pages.
\<close>

end
